(* ===== verification/CLib.thy ===== *)
theory CLib
  imports Main "HOL-Library.Word"
begin

text \<open>
  The prelude of the development: machine integers, little-endian byte codecs, the flat
  physical memory with its read and write operations, C strings, and the outcome monad
  in which the fallible routines of the kernel are written.

  \<^item> C's fixed-width integers are words; arithmetic on them wraps as in the source.
  \<^item> Physical memory is identity mapped, so a C pointer is a 64-bit address and memory is
    a total function from addresses to bytes.
  \<^item> A routine that reports failure through its return code runs in the monad
    \<open>('s, 'a) sm\<close>: \<open>Ok\<close> is the success code with the out-parameters, \<open>Err e\<close> the
    negative return code, and \<open>Oob\<close> an access outside the C object that is accessed
    (undefined behaviour of the source). The state survives a failure, as the kernel's
    global variables do.
\<close>

unbundle bit_operations_syntax

type_synonym u8 = "8 word"
type_synonym u16 = "16 word"
type_synonym u32 = "32 word"
type_synonym u64 = "64 word"
type_synonym i32 = "32 word"
type_synonym memory = "u64 \<Rightarrow> u8"

named_theorems mem_simps \<open>reading after writing, on memory and on byte lists\<close>
named_theorems sm_simps \<open>unfolding of the outcome monad\<close>

section \<open>Counting loops over words\<close>

text \<open>The termination argument of \<open>for (i = a; i < n; i++)\<close> on unsigned integers.\<close>

lemma unat_Suc_less:
  fixes i n :: "'a::len word"
  assumes "i < n"
  shows "unat (i + 1) = Suc (unat i)"
proof -
  have "unat i < unat n" using assms by (simp add: word_less_nat_alt)
  then have "Suc (unat i) < 2 ^ LENGTH('a)"
    using unsigned_less [of n, where 'a = nat] by linarith
  then show ?thesis
    by (simp add: unat_word_ariths)
qed

lemma for_loop_decreases:
  fixes i n :: "'a::len word"
  assumes "i < n"
  shows "unat n - unat (i + 1) < unat n - unat i"
  using assms unat_Suc_less [OF assms] by (simp add: word_less_nat_alt)

lemma word_less_plus_one_iff:
  fixes i j n :: "'a::len word"
  assumes "i < n"
  shows "j < i + 1 \<longleftrightarrow> j < i \<or> j = i"
  using unat_Suc_less [OF assms]
  by (auto simp: word_less_nat_alt less_Suc_eq word_unat_eq_iff)

lemma word_plus_one_le_iff:
  fixes i j n :: "'a::len word"
  assumes "i < n"
  shows "i + 1 \<le> j \<longleftrightarrow> i < j"
  using unat_Suc_less [OF assms] by (auto simp: word_less_nat_alt word_le_nat_alt)

section \<open>Little-endian byte codecs\<close>

fun le_list :: "nat \<Rightarrow> 'a::len word \<Rightarrow> u8 list" where
  "le_list 0 w = []"
| "le_list (Suc n) w = ucast w # le_list n (drop_bit 8 w)"

fun of_le :: "u8 list \<Rightarrow> 'a::len word" where
  "of_le [] = 0"
| "of_le (b # bs) = ucast b OR push_bit 8 (of_le bs)"

lemma length_le_list [simp]: "length (le_list n w) = n"
  by (induction n w rule: le_list.induct) auto

lemma of_le_le_list: "of_le (le_list n w) = take_bit (8 * n) w"
proof (induction n w rule: le_list.induct)
  case (1 w)
  then show ?case by simp
next
  case (2 n w)
  show ?case
    by (rule bit_word_eqI)
      (auto simp: 2 bit_simps algebra_simps)
qed

lemma of_le_le_list_full [mem_simps]:
  "8 * n = LENGTH('a) \<Longrightarrow> of_le (le_list n (w :: 'a::len word)) = w"
  by (simp add: of_le_le_list take_bit_word_eq_self)

lemma le_list_inject:
  assumes "le_list n v = le_list n w" and "8 * n = LENGTH('a)"
  shows "v = (w :: 'a::len word)"
  using assms of_le_le_list_full by metis

section \<open>Physical memory\<close>

text \<open>
  \<open>rd_bytes m a n\<close> is the run of \<open>n\<close> bytes at address \<open>a\<close>; \<open>wr_bytes\<close> stores a run
  byte by byte in ascending order, as the kernel's copy loops do. Addresses wrap.
\<close>

definition rd_bytes :: "memory \<Rightarrow> u64 \<Rightarrow> nat \<Rightarrow> u8 list" where
  "rd_bytes m a n = map (\<lambda>i. m (a + of_nat i)) [0..<n]"

fun wr_bytes :: "memory \<Rightarrow> u64 \<Rightarrow> u8 list \<Rightarrow> memory" where
  "wr_bytes m a [] = m"
| "wr_bytes m a (b # bs) = wr_bytes (m(a := b)) (a + 1) bs"

definition rd16 :: "memory \<Rightarrow> u64 \<Rightarrow> u16" where
  "rd16 m a = of_le (rd_bytes m a 2)"

definition rd32 :: "memory \<Rightarrow> u64 \<Rightarrow> u32" where
  "rd32 m a = of_le (rd_bytes m a 4)"

definition rd64 :: "memory \<Rightarrow> u64 \<Rightarrow> u64" where
  "rd64 m a = of_le (rd_bytes m a 8)"

definition wr64 :: "memory \<Rightarrow> u64 \<Rightarrow> u64 \<Rightarrow> memory" where
  "wr64 m a v = wr_bytes m a (le_list 8 v)"

lemma length_rd_bytes [simp]: "length (rd_bytes m a n) = n"
  by (simp add: rd_bytes_def)

lemma nth_rd_bytes [simp]: "i < n \<Longrightarrow> rd_bytes m a n ! i = m (a + of_nat i)"
  by (simp add: rd_bytes_def)

text \<open>The effect of a store, as one equation on addresses.\<close>

lemma unat_diff_Suc:
  fixes x a :: u64
  assumes "x \<noteq> a"
  shows "unat (x - a) = Suc (unat (x - (a + 1)))"
proof -
  have "x - a \<noteq> 0" using assms by simp
  then have "unat (x - a - 1) = unat (x - a) - 1" by (rule unat_minus_one)
  moreover have "unat (x - a) \<noteq> 0" using \<open>x - a \<noteq> 0\<close> by (simp add: unat_eq_0)
  ultimately show ?thesis by (simp add: diff_diff_eq)
qed

lemma wr_bytes_apply:
  assumes "length bs \<le> 2 ^ 64"
  shows "wr_bytes m a bs x = (if unat (x - a) < length bs then bs ! unat (x - a) else m x)"
  using assms
proof (induction bs arbitrary: m a)
  case Nil
  then show ?case by simp
next
  case (Cons b bs)
  then have IH: "wr_bytes (m(a := b)) (a + 1) bs x =
      (if unat (x - (a + 1)) < length bs then bs ! unat (x - (a + 1)) else (m(a := b)) x)"
    by simp
  show ?case
  proof (cases "x = a")
    case True
    have "unat (x - (a + 1)) = 2 ^ 64 - 1"
      using True by (simp add: unsigned_minus_1_eq_mask mask_eq_exp_minus_1)
    moreover have "length bs < 2 ^ 64" using Cons.prems by simp
    ultimately have "\<not> unat (x - (a + 1)) < length bs" by linarith
    with IH True show ?thesis by simp
  next
    case False
    with IH unat_diff_Suc [OF False] show ?thesis by simp
  qed
qed

text \<open>Two regions are separate when no address lies in both.\<close>

definition separate :: "u64 \<Rightarrow> nat \<Rightarrow> u64 \<Rightarrow> nat \<Rightarrow> bool" where
  "separate a n b k \<longleftrightarrow> (\<forall>x. \<not> (unat (x - a) < n \<and> unat (x - b) < k))"

lemma separate_sym: "separate a n b k \<longleftrightarrow> separate b k a n"
  by (auto simp: separate_def)

lemma unat_of_nat_u64 [simp]: "i < 2 ^ 64 \<Longrightarrow> unat (of_nat i :: u64) = i"
  by (simp add: unat_of_nat take_bit_nat_eq_self)

lemma rd_wr_same [mem_simps]:
  assumes "length bs \<le> 2 ^ 64" and "n = length bs"
  shows "rd_bytes (wr_bytes m a bs) a n = bs"
proof (rule nth_equalityI)
  show "length (rd_bytes (wr_bytes m a bs) a n) = length bs" using assms by simp
next
  fix i assume "i < length (rd_bytes (wr_bytes m a bs) a n)"
  then have i: "i < length bs" and "unat (of_nat i :: u64) = i" using assms by auto
  then show "rd_bytes (wr_bytes m a bs) a n ! i = bs ! i"
    using assms by (simp add: wr_bytes_apply)
qed

lemma rd_wr_separate [mem_simps]:
  assumes "separate a n b (length bs)" and "n \<le> 2 ^ 64" and "length bs \<le> 2 ^ 64"
  shows "rd_bytes (wr_bytes m b bs) a n = rd_bytes m a n"
proof (rule nth_equalityI)
  show "length (rd_bytes (wr_bytes m b bs) a n) = length (rd_bytes m a n)" by simp
next
  fix i assume "i < length (rd_bytes (wr_bytes m b bs) a n)"
  then have i: "i < n" by simp
  then have "unat (of_nat i :: u64) = i" using assms(2) by simp
  then have "unat (a + of_nat i - a) < n" using i by simp
  then have "\<not> unat (a + of_nat i - b) < length bs"
    using assms(1) unfolding separate_def by blast
  then show "rd_bytes (wr_bytes m b bs) a n ! i = rd_bytes m a n ! i"
    using assms(3) i by (simp add: wr_bytes_apply)
qed

lemma rd64_wr64_same [mem_simps]: "rd64 (wr64 m a v) a = v"
  by (simp add: rd64_def wr64_def mem_simps)

lemma rd64_wr64_separate [mem_simps]:
  "separate a 8 b 8 \<Longrightarrow> rd64 (wr64 m b v) a = rd64 m a"
  by (simp add: rd64_def wr64_def mem_simps)

text \<open>Aligned 64-bit cells at different addresses are separate.\<close>

lemma separate_aligned8:
  assumes "8 dvd unat a" and "8 dvd unat b" and "a \<noteq> (b :: u64)"
  shows "separate a 8 b 8"
  unfolding separate_def
proof (intro allI notI)
  fix x :: u64
  assume h: "unat (x - a) < 8 \<and> unat (x - b) < 8"
  have xa: "x = a + (x - a)" and xb: "x = b + (x - b)" by auto
  have bound: "unat c + k < 2 ^ 64" if "8 dvd unat c" and "k < 8" for c :: u64 and k
  proof -
    have "unat c \<le> 2 ^ 64 - 8" using that(1) unsigned_less [of c, where 'a = nat]
      by (auto simp: dvd_def)
    then show ?thesis using that(2) by simp
  qed
  have "unat x = unat a + unat (x - a)"
    using bound [OF assms(1), of "unat (x - a)"] h xa unat_add_lem [of a "x - a"] by simp
  moreover have "unat x = unat b + unat (x - b)"
    using bound [OF assms(2), of "unat (x - b)"] h xb unat_add_lem [of b "x - b"] by simp
  ultimately have "unat a = unat b" using h assms(1,2) by (auto simp: dvd_def)
  then show False using assms(3) by (simp add: word_unat_eq_iff)
qed

section \<open>Byte arrays and structures overlaid on them\<close>

text \<open>
  A C array of bytes is a list; \<open>put_at off xs bs\<close> is \<open>memcpy(bs + off, xs, length xs)\<close> and
  \<open>get_at off n bs\<close> the run that \<open>memcpy\<close> reads. A structure that the source copies to and
  from a block is its byte image, and its fields are the little-endian values at their
  offsets.
\<close>

definition get_at :: "nat \<Rightarrow> nat \<Rightarrow> u8 list \<Rightarrow> u8 list" where
  "get_at off n bs = take n (drop off bs)"

definition put_at :: "nat \<Rightarrow> u8 list \<Rightarrow> u8 list \<Rightarrow> u8 list" where
  "put_at off xs bs = take off bs @ xs @ drop (off + length xs) bs"

definition get16 :: "nat \<Rightarrow> u8 list \<Rightarrow> u16" where
  "get16 off bs = of_le (get_at off 2 bs)"

definition get32 :: "nat \<Rightarrow> u8 list \<Rightarrow> u32" where
  "get32 off bs = of_le (get_at off 4 bs)"

definition get64 :: "nat \<Rightarrow> u8 list \<Rightarrow> u64" where
  "get64 off bs = of_le (get_at off 8 bs)"

definition set16 :: "nat \<Rightarrow> u16 \<Rightarrow> u8 list \<Rightarrow> u8 list" where
  "set16 off v = put_at off (le_list 2 v)"

definition set32 :: "nat \<Rightarrow> u32 \<Rightarrow> u8 list \<Rightarrow> u8 list" where
  "set32 off v = put_at off (le_list 4 v)"

lemma length_put_at [simp]: "off + length xs \<le> length bs \<Longrightarrow> length (put_at off xs bs) = length bs"
  by (simp add: put_at_def)

lemma length_set16 [simp]: "off + 2 \<le> length bs \<Longrightarrow> length (set16 off v bs) = length bs"
  by (simp add: set16_def)

lemma length_set32 [simp]: "off + 4 \<le> length bs \<Longrightarrow> length (set32 off v bs) = length bs"
  by (simp add: set32_def)

lemma length_get_at [simp]: "off + n \<le> length bs \<Longrightarrow> length (get_at off n bs) = n"
  by (simp add: get_at_def)

lemma nth_put_at:
  assumes "off + length xs \<le> length bs" and "i < length bs"
  shows "put_at off xs bs ! i =
    (if off \<le> i \<and> i < off + length xs then xs ! (i - off) else bs ! i)"
  using assms by (auto simp: put_at_def nth_append min_def)

lemma get_put_same [mem_simps]:
  "off + length xs \<le> length bs \<Longrightarrow> n = length xs \<Longrightarrow> get_at off n (put_at off xs bs) = xs"
  by (simp add: get_at_def put_at_def)

lemma get_put_other [mem_simps]:
  assumes "off + length xs \<le> length bs" and "p + n \<le> length bs"
    and "p + n \<le> off \<or> off + length xs \<le> p"
  shows "get_at p n (put_at off xs bs) = get_at p n bs"
proof (rule nth_equalityI)
  show "length (get_at p n (put_at off xs bs)) = length (get_at p n bs)"
    using assms by simp
next
  fix i assume "i < length (get_at p n (put_at off xs bs))"
  then have "i < n" using assms by simp
  then show "get_at p n (put_at off xs bs) ! i = get_at p n bs ! i"
    using assms by (auto simp: get_at_def nth_put_at)
qed

lemma get16_set16 [mem_simps]: "off + 2 \<le> length bs \<Longrightarrow> get16 off (set16 off v bs) = v"
  by (simp add: get16_def set16_def mem_simps)

lemma get32_set32 [mem_simps]: "off + 4 \<le> length bs \<Longrightarrow> get32 off (set32 off v bs) = v"
  by (simp add: get32_def set32_def mem_simps)

lemma get16_put_other [mem_simps]:
  "off + length xs \<le> length bs \<Longrightarrow> p + 2 \<le> length bs \<Longrightarrow> p + 2 \<le> off \<or> off + length xs \<le> p \<Longrightarrow>
   get16 p (put_at off xs bs) = get16 p bs"
  by (simp add: get16_def get_put_other)

lemma get32_put_other [mem_simps]:
  "off + length xs \<le> length bs \<Longrightarrow> p + 4 \<le> length bs \<Longrightarrow> p + 4 \<le> off \<or> off + length xs \<le> p \<Longrightarrow>
   get32 p (put_at off xs bs) = get32 p bs"
  by (simp add: get32_def get_put_other)

lemma get_set_other [mem_simps]:
  "off + 2 \<le> length bs \<Longrightarrow> p + 2 \<le> length bs \<Longrightarrow> p + 2 \<le> off \<or> off + 2 \<le> p \<Longrightarrow>
   get16 p (set16 off v bs) = get16 p bs"
  "off + 4 \<le> length bs \<Longrightarrow> p + 2 \<le> length bs \<Longrightarrow> p + 2 \<le> off \<or> off + 4 \<le> p \<Longrightarrow>
   get16 p (set32 off w bs) = get16 p bs"
  "off + 2 \<le> length bs \<Longrightarrow> p + 4 \<le> length bs \<Longrightarrow> p + 4 \<le> off \<or> off + 2 \<le> p \<Longrightarrow>
   get32 p (set16 off v bs) = get32 p bs"
  "off + 4 \<le> length bs \<Longrightarrow> p + 4 \<le> length bs \<Longrightarrow> p + 4 \<le> off \<or> off + 4 \<le> p \<Longrightarrow>
   get32 p (set32 off w bs) = get32 p bs"
  by (simp_all add: set16_def set32_def get16_put_other get32_put_other)

section \<open>Single bits of a byte\<close>

lemma bit_or_single:
  "k < 8 \<Longrightarrow> bit (b OR 2 ^ k :: u8) j \<longleftrightarrow> j = k \<or> bit b j"
  by (auto simp: bit_simps)

lemma bit_and_not_single:
  "j < 8 \<Longrightarrow> bit (b AND NOT (2 ^ k) :: u8) j \<longleftrightarrow> j \<noteq> k \<and> bit b j"
  by (auto simp: bit_simps)

lemma drop_and_one: "(drop_bit k (b :: 'a::len word) AND 1 \<noteq> 0) \<longleftrightarrow> bit b k"
  by (simp add: and_one_eq bit_iff_odd_drop_bit flip: odd_iff_mod_2_eq_one)

section \<open>The outcome monad\<close>

datatype 'a outcome = Ok 'a | Err int | Oob

type_synonym ('s, 'a) sm = "'s \<Rightarrow> 'a outcome \<times> 's"

definition retS :: "'a \<Rightarrow> ('s, 'a) sm" where
  "retS x s = (Ok x, s)"

definition failS :: "int \<Rightarrow> ('s, 'a) sm" where
  "failS e s = (Err e, s)"

definition oobS :: "('s, 'a) sm" where
  "oobS s = (Oob, s)"

definition bindS :: "('s, 'a) sm \<Rightarrow> ('a \<Rightarrow> ('s, 'b) sm) \<Rightarrow> ('s, 'b) sm" where
  "bindS m f s = (case m s of
      (Ok x, s') \<Rightarrow> f x s'
    | (Err e, s') \<Rightarrow> (Err e, s')
    | (Oob, s') \<Rightarrow> (Oob, s'))"

text \<open>\<open>if (c) return e;\<close> and \<open>if (f(...) != 0) return e;\<close>.\<close>

definition errIf :: "bool \<Rightarrow> int \<Rightarrow> ('s, unit) sm" where
  "errIf c e = (if c then failS e else retS ())"

definition orElse :: "('s, 'a) sm \<Rightarrow> int \<Rightarrow> ('s, 'a) sm" where
  "orElse m e s = (case m s of
      (Ok x, s') \<Rightarrow> (Ok x, s')
    | (Err _, s') \<Rightarrow> (Err e, s')
    | (Oob, s') \<Rightarrow> (Oob, s'))"

text \<open>Lifting of a pure outcome, and of an operation on a component of the state.\<close>

definition liftO :: "'a outcome \<Rightarrow> ('s, 'a) sm" where
  "liftO r s = (r, s)"

definition getS :: "('s \<Rightarrow> 'a) \<Rightarrow> ('s, 'a) sm" where
  "getS f s = (Ok (f s), s)"

definition modifyS :: "('s \<Rightarrow> 's) \<Rightarrow> ('s, unit) sm" where
  "modifyS f s = (Ok (), f s)"

lemmas sm_defs [sm_simps] =
  retS_def failS_def oobS_def bindS_def errIf_def orElse_def liftO_def getS_def modifyS_def

lemma bindS_retS [simp]: "bindS (retS x) f = f x"
  by (rule ext) (simp add: sm_defs)

lemma bindS_failS [simp]: "bindS (failS e) f = failS e"
  by (rule ext) (simp add: sm_defs)

lemma bindS_oobS [simp]: "bindS oobS f = oobS"
  by (rule ext) (simp add: sm_defs)

lemma bindS_assoc: "bindS (bindS m f) g = bindS m (\<lambda>x. bindS (f x) g)"
  by (rule ext) (auto simp: sm_defs split: prod.splits outcome.splits)

text \<open>
  \<open>keeps I m\<close>: the routine \<open>m\<close> keeps the state predicate \<open>I\<close> on every path, the failing
  ones included. The rules follow the structure of the routine.
\<close>

definition keeps :: "('s \<Rightarrow> bool) \<Rightarrow> ('s, 'a) sm \<Rightarrow> bool" where
  "keeps I m \<longleftrightarrow> (\<forall>s. I s \<longrightarrow> I (snd (m s)))"

named_theorems keeps_intros \<open>rules for \<open>keeps\<close>\<close>

lemma keepsD: "keeps I m \<Longrightarrow> I s \<Longrightarrow> I (snd (m s))"
  by (simp add: keeps_def)

lemma keeps_basic [keeps_intros]:
  "keeps I (retS x)" "keeps I (failS e)" "keeps I oobS" "keeps I (errIf c e)"
  "keeps I (liftO r)" "keeps I (getS f)"
  by (auto simp: keeps_def sm_defs)

lemma keeps_bindS [keeps_intros]:
  assumes "keeps I m" and "\<And>x. keeps I (f x)"
  shows "keeps I (bindS m f)"
  using assms by (auto simp: keeps_def bindS_def split: prod.splits outcome.splits)

lemma keeps_orElse [keeps_intros]: "keeps I m \<Longrightarrow> keeps I (orElse m e)"
  by (auto simp: keeps_def orElse_def split: prod.splits outcome.splits)

lemma keeps_if [keeps_intros]: "keeps I m \<Longrightarrow> keeps I m' \<Longrightarrow> keeps I (if c then m else m')"
  by simp

text \<open>A routine that is \<open>safe\<close> under a precondition performs no out-of-bounds access.\<close>

definition safe :: "('s \<Rightarrow> bool) \<Rightarrow> ('s, 'a) sm \<Rightarrow> bool" where
  "safe P m \<longleftrightarrow> (\<forall>s. P s \<longrightarrow> fst (m s) \<noteq> Oob)"

section \<open>C strings\<close>

text \<open>
  A C string is the list of its characters before the terminating NUL. A bounded copy loop
  \<open>while (src[i] && i + 1 < cap)\<close> keeps the first \<open>cap - 1\<close> characters.
\<close>

definition byte_of_char :: "char \<Rightarrow> u8" where
  "byte_of_char c = of_nat (of_char c)"

definition char_of_byte :: "u8 \<Rightarrow> char" where
  "char_of_byte b = char_of (unat b)"

lemma of_char_less_256: "(of_char c :: nat) < 256"
  by (simp add: of_char_def) 

lemma char_of_byte_of_char [simp]: "char_of_byte (byte_of_char c) = c"
  using of_char_less_256 [of c]
  by (simp add: byte_of_char_def char_of_byte_def unat_of_nat take_bit_nat_eq_self)

lemma byte_of_char_of_byte [simp]: "byte_of_char (char_of_byte b) = b"
  using unsigned_less [of b, where 'a = nat]
  by (simp add: byte_of_char_def char_of_byte_def of_char_mod_256)

definition no_nul :: "string \<Rightarrow> bool" where
  "no_nul s \<longleftrightarrow> CHR 0x00 \<notin> set s"

section \<open>Sizes and alignment\<close>

lemma unat_u64_less: "unat (x :: u64) < 2 ^ 64"
  by (rule order_less_le_trans [OF unsigned_less]) simp

lemma unat_ucast_32_64 [simp]: "unat (ucast (x :: u32) :: u64) = unat x"
proof -
  have "unat x < 2 ^ 32" by (rule order_less_le_trans [OF unsigned_less]) simp
  then show ?thesis by (simp add: unsigned_ucast_eq take_bit_nat_eq_self)
qed

lemma unat_ucast_16_64 [simp]: "unat (ucast (x :: u16) :: u64) = unat x"
proof -
  have "unat x < 2 ^ 16" by (rule order_less_le_trans [OF unsigned_less]) simp
  then show ?thesis by (simp add: unsigned_ucast_eq take_bit_nat_eq_self)
qed

lemma unat_align: "unat (x AND NOT (mask n :: 'a::len word)) = 2 ^ n * (unat x div 2 ^ n)"
proof -
  have "take_bit n x + (x AND NOT (mask n)) = take_bit n x OR (x AND NOT (mask n))"
    by (rule disjunctive_add) (auto simp: bit_simps)
  also have "\<dots> = x" by (rule bit_eqI) (auto simp: bit_simps)
  finally have "x AND NOT (mask n) = x - take_bit n x" by (simp add: eq_diff_eq add.commute)
  also have "unat \<dots> = unat x - unat (take_bit n x)"
    by (intro unat_sub) (simp add: word_le_nat_alt unsigned_take_bit_eq)
  also have "\<dots> = 2 ^ n * (unat x div 2 ^ n)"
    by (simp only: unsigned_take_bit_eq) (simp add: take_bit_eq_mod minus_mod_eq_mult_div)
  finally show ?thesis .
qed

end
