(* ===== verification/Multiboot.thy ===== *)
theory Multiboot
  imports CLib
begin

text \<open>
  The Multiboot2 information parser, \<open>src/kernel/multiboot.c\<close>. GRUB leaves a list of
  variable-size tags in memory; each routine walks the list from its first tag until the
  END tag. Nothing bounds the walk (a tag of size 0 is its own successor), so each walk is
  a partial function: \<open>None\<close> is a walk that does not end. The theorems say that on every
  finite tag chain the walks end, and with which tag.
\<close>

section \<open>Tags\<close>

definition MULTIBOOT2_BOOTLOADER_MAGIC :: u32 where "MULTIBOOT2_BOOTLOADER_MAGIC = 0x36d76289"

definition MULTIBOOT_TAG_TYPE_END :: u32 where "MULTIBOOT_TAG_TYPE_END = 0"
definition MULTIBOOT_TAG_TYPE_MODULE :: u32 where "MULTIBOOT_TAG_TYPE_MODULE = 3"
definition MULTIBOOT_TAG_TYPE_MMAP :: u32 where "MULTIBOOT_TAG_TYPE_MMAP = 6"
definition MULTIBOOT_TAG_TYPE_FRAMEBUFFER :: u32 where "MULTIBOOT_TAG_TYPE_FRAMEBUFFER = 8"
definition MULTIBOOT_TAG_TYPE_EFI32 :: u32 where "MULTIBOOT_TAG_TYPE_EFI32 = 11"
definition MULTIBOOT_TAG_TYPE_EFI64 :: u32 where "MULTIBOOT_TAG_TYPE_EFI64 = 12"
definition MULTIBOOT_FRAMEBUFFER_TYPE_RGB :: u8 where "MULTIBOOT_FRAMEBUFFER_TYPE_RGB = 1"

lemmas multiboot_consts =
  MULTIBOOT2_BOOTLOADER_MAGIC_def MULTIBOOT_TAG_TYPE_END_def MULTIBOOT_TAG_TYPE_MODULE_def
  MULTIBOOT_TAG_TYPE_MMAP_def MULTIBOOT_TAG_TYPE_FRAMEBUFFER_def MULTIBOOT_TAG_TYPE_EFI32_def
  MULTIBOOT_TAG_TYPE_EFI64_def MULTIBOOT_FRAMEBUFFER_TYPE_RGB_def

text \<open>\<open>struct multiboot_tag\<close> and the packed tag structures, field by field.\<close>

definition tag_type :: "memory \<Rightarrow> u64 \<Rightarrow> u32" where "tag_type m t = rd32 m t"
definition tag_size :: "memory \<Rightarrow> u64 \<Rightarrow> u32" where "tag_size m t = rd32 m (t + 4)"

record multiboot_tag_framebuffer =
  framebuffer_addr :: u64
  framebuffer_pitch :: u32
  framebuffer_width :: u32
  framebuffer_height :: u32
  framebuffer_bpp :: u8
  framebuffer_type :: u8

definition rd_tag_framebuffer :: "memory \<Rightarrow> u64 \<Rightarrow> multiboot_tag_framebuffer" where
  "rd_tag_framebuffer m t =
     \<lparr>framebuffer_addr = rd64 m (t + 8), framebuffer_pitch = rd32 m (t + 16),
      framebuffer_width = rd32 m (t + 20), framebuffer_height = rd32 m (t + 24),
      framebuffer_bpp = m (t + 28), framebuffer_type = m (t + 29)\<rparr>"

text \<open>The fields of \<open>struct vbe_mode_info\<close> that \<open>multiboot_fill_vbe\<close> writes.\<close>

record vbe_mode_info =
  vbe_width :: u16
  vbe_height :: u16
  vbe_pitch :: u32
  vbe_bpp :: u8
  vbe_framebuffer :: u64

definition next_tag :: "memory \<Rightarrow> u64 \<Rightarrow> u64" where
  "next_tag m tag = tag + ucast ((tag_size m tag + 7) AND NOT 7)"

definition multiboot_validate :: "memory \<Rightarrow> u32 \<Rightarrow> u64 \<Rightarrow> bool" where
  "multiboot_validate m magic mbi_phys =
     (if magic \<noteq> MULTIBOOT2_BOOTLOADER_MAGIC then False
      else if mbi_phys AND 7 \<noteq> 0 then False
      else (let total = rd32 m mbi_phys in
        if total < 16 \<or> total > 0x100000 then False else True))"

section \<open>The walks\<close>

partial_function (option) fill_vbe_loop :: "memory \<Rightarrow> u64 \<Rightarrow> vbe_mode_info option option" where
  "fill_vbe_loop m tag =
     (if tag_type m tag = MULTIBOOT_TAG_TYPE_END then Some None
      else if tag_type m tag = MULTIBOOT_TAG_TYPE_FRAMEBUFFER \<and> tag_size m tag \<ge> 32 then
        (let fb = rd_tag_framebuffer m tag in
         if framebuffer_addr fb = 0 \<or> framebuffer_type fb \<noteq> MULTIBOOT_FRAMEBUFFER_TYPE_RGB
         then fill_vbe_loop m (next_tag m tag)
         else Some (Some \<lparr>vbe_width = ucast (framebuffer_width fb),
                          vbe_height = ucast (framebuffer_height fb),
                          vbe_pitch = framebuffer_pitch fb,
                          vbe_bpp = framebuffer_bpp fb,
                          vbe_framebuffer = framebuffer_addr fb\<rparr>))
      else fill_vbe_loop m (next_tag m tag))"

definition multiboot_fill_vbe :: "memory \<Rightarrow> u64 \<Rightarrow> vbe_mode_info option option" where
  "multiboot_fill_vbe m mbi_phys = fill_vbe_loop m (mbi_phys + 8)"

partial_function (option) efi_handoff_loop :: "memory \<Rightarrow> u64 \<Rightarrow> bool option" where
  "efi_handoff_loop m tag =
     (if tag_type m tag = MULTIBOOT_TAG_TYPE_END then Some False
      else if tag_type m tag = MULTIBOOT_TAG_TYPE_EFI32 \<or> tag_type m tag = MULTIBOOT_TAG_TYPE_EFI64
      then Some True
      else efi_handoff_loop m (next_tag m tag))"

definition multiboot_has_efi_handoff :: "memory \<Rightarrow> u64 \<Rightarrow> bool option" where
  "multiboot_has_efi_handoff m mbi_phys = efi_handoff_loop m (mbi_phys + 8)"

text \<open>\<open>suffix_match\<close> compares the last \<open>sl\<close> characters, after both \<open>strlen\<close> loops.\<close>

definition suffix_match :: "string \<Rightarrow> string \<Rightarrow> bool" where
  "suffix_match cmdline suffix =
     (let sl = length suffix; i = length cmdline in
      if i < sl then False
      else list_all (\<lambda>j. cmdline ! (i - sl + j) = suffix ! j) [0..<sl])"

text \<open>
  The copy of a module's command line into \<open>char buf[128]\<close>: it stops at \<open>cmd_max\<close>, at a
  NUL or when the buffer is full.
\<close>

function copy_cmdline :: "memory \<Rightarrow> u64 \<Rightarrow> u32 \<Rightarrow> u32 \<Rightarrow> string" where
  "copy_cmdline m cmdline cmd_max ci =
     (if ci < cmd_max \<and> ci + 1 < 128 \<and> m (cmdline + ucast ci) \<noteq> 0
      then char_of_byte (m (cmdline + ucast ci)) # copy_cmdline m cmdline cmd_max (ci + 1)
      else [])"
  by pat_completeness auto
termination
  by (relation "measure (\<lambda>(m, c, n, ci). unat n - unat ci)") (auto simp: for_loop_decreases)

declare copy_cmdline.simps [simp del]

partial_function (option) find_module_loop ::
    "memory \<Rightarrow> u64 \<Rightarrow> string \<Rightarrow> (u32 \<times> u32) option option" where
  "find_module_loop m tag suffix =
     (if tag_type m tag = MULTIBOOT_TAG_TYPE_END then Some None
      else if tag_type m tag = MULTIBOOT_TAG_TYPE_MODULE \<and> tag_size m tag \<ge> 16 \<and>
        suffix_match (copy_cmdline m (tag + 16) (tag_size m tag - 16) 0) suffix
      then Some (Some (rd32 m (tag + 8), rd32 m (tag + 12)))
      else find_module_loop m (next_tag m tag) suffix)"

definition multiboot_find_module_suffix ::
    "memory \<Rightarrow> u64 \<Rightarrow> string \<Rightarrow> (u32 \<times> u32) option option" where
  "multiboot_find_module_suffix m mbi_phys suffix = find_module_loop m (mbi_phys + 8) suffix"

section \<open>Tag chains and what the walks return on them\<close>

text \<open>\<open>tag_chain m t ts\<close>: from \<open>t\<close> the walk visits exactly the tags \<open>ts\<close>, then an END tag.\<close>

fun tag_chain :: "memory \<Rightarrow> u64 \<Rightarrow> u64 list \<Rightarrow> bool" where
  "tag_chain m t [] \<longleftrightarrow> tag_type m t = MULTIBOOT_TAG_TYPE_END"
| "tag_chain m t (x # xs) \<longleftrightarrow>
     x = t \<and> tag_type m t \<noteq> MULTIBOOT_TAG_TYPE_END \<and> tag_chain m (next_tag m t) xs"

definition usable_fb :: "memory \<Rightarrow> u64 \<Rightarrow> bool" where
  "usable_fb m t \<longleftrightarrow> tag_type m t = MULTIBOOT_TAG_TYPE_FRAMEBUFFER \<and> tag_size m t \<ge> 32 \<and>
     rd64 m (t + 8) \<noteq> 0 \<and> m (t + 29) = MULTIBOOT_FRAMEBUFFER_TYPE_RGB"

definition vbe_of_tag :: "memory \<Rightarrow> u64 \<Rightarrow> vbe_mode_info" where
  "vbe_of_tag m t = \<lparr>vbe_width = ucast (rd32 m (t + 20)), vbe_height = ucast (rd32 m (t + 24)),
     vbe_pitch = rd32 m (t + 16), vbe_bpp = m (t + 28), vbe_framebuffer = rd64 m (t + 8)\<rparr>"

definition efi_tag :: "memory \<Rightarrow> u64 \<Rightarrow> bool" where
  "efi_tag m t \<longleftrightarrow> tag_type m t \<in> {MULTIBOOT_TAG_TYPE_EFI32, MULTIBOOT_TAG_TYPE_EFI64}"

definition module_tag :: "memory \<Rightarrow> string \<Rightarrow> u64 \<Rightarrow> bool" where
  "module_tag m suffix t \<longleftrightarrow> tag_type m t = MULTIBOOT_TAG_TYPE_MODULE \<and> tag_size m t \<ge> 16 \<and>
     suffix_match (copy_cmdline m (t + 16) (tag_size m t - 16) 0) suffix"

lemma fill_vbe_loop_chain:
  "tag_chain m t ts \<Longrightarrow>
   fill_vbe_loop m t = Some (map_option (vbe_of_tag m) (find (usable_fb m) ts))"
proof (induction ts arbitrary: t)
  case Nil
  then show ?case by (simp add: fill_vbe_loop.simps)
next
  case (Cons x xs)
  then have "fill_vbe_loop m (next_tag m t) =
      Some (map_option (vbe_of_tag m) (find (usable_fb m) xs))" by simp
  with Cons.prems show ?case
    by (subst fill_vbe_loop.simps)
      (auto simp: usable_fb_def vbe_of_tag_def rd_tag_framebuffer_def Let_def)
qed

lemma efi_handoff_loop_chain:
  "tag_chain m t ts \<Longrightarrow> efi_handoff_loop m t = Some (list_ex (efi_tag m) ts)"
proof (induction ts arbitrary: t)
  case Nil
  then show ?case by (simp add: efi_handoff_loop.simps)
next
  case (Cons x xs)
  then show ?case
    by (subst efi_handoff_loop.simps) (auto simp: efi_tag_def [of m t])
qed

lemma find_module_loop_chain:
  "tag_chain m t ts \<Longrightarrow> find_module_loop m t suffix =
     Some (map_option (\<lambda>p. (rd32 m (p + 8), rd32 m (p + 12))) (find (module_tag m suffix) ts))"
proof (induction ts arbitrary: t)
  case Nil
  then show ?case by (simp add: find_module_loop.simps)
next
  case (Cons x xs)
  then show ?case
    by (subst find_module_loop.simps) (auto simp: module_tag_def [of m suffix t])
qed

lemma suffix_match_iff: "suffix_match s suf \<longleftrightarrow> (\<exists>p. s = p @ suf)"
proof
  assume h: "suffix_match s suf"
  then have le: "length suf \<le> length s" by (auto simp: suffix_match_def Let_def split: if_splits)
  have "drop (length s - length suf) s = suf"
    using h le by (intro nth_equalityI) (auto simp: suffix_match_def list_all_iff Let_def)
  then show "\<exists>p. s = p @ suf" by (metis append_take_drop_id)
next
  assume "\<exists>p. s = p @ suf"
  then show "suffix_match s suf"
    by (auto simp: suffix_match_def list_all_iff Let_def nth_append)
qed

text \<open>
  C23. On every finite chain of tags, the three walks of the Multiboot2 information end and
  return the first tag of the chain they look for: the first RGB framebuffer with a non-zero
  address, whether an EFI tag is present, and the range of the first module whose command
  line has the suffix.
\<close>

theorem multiboot_walks_find_first:
  assumes "tag_chain m (mbi + 8) ts"
  shows "multiboot_fill_vbe m mbi = Some (map_option (vbe_of_tag m) (find (usable_fb m) ts)) \<and>
    multiboot_has_efi_handoff m mbi = Some (list_ex (efi_tag m) ts) \<and>
    multiboot_find_module_suffix m mbi suffix =
      Some (map_option (\<lambda>p. (rd32 m (p + 8), rd32 m (p + 12))) (find (module_tag m suffix) ts))"
  using assms
  by (simp add: multiboot_fill_vbe_def multiboot_has_efi_handoff_def
      multiboot_find_module_suffix_def fill_vbe_loop_chain efi_handoff_loop_chain
      find_module_loop_chain)

definition demo_mbi :: memory where
  "demo_mbi = wr_bytes (\<lambda>_. 0) 8
     ([8, 0, 0, 0, 32, 0, 0, 0] @ le_list 8 (0xE0000000 :: u64) @ le_list 4 (4096 :: u32) @
      le_list 4 (1024 :: u32) @ le_list 4 (768 :: u32) @ [32, 1, 0, 0] @
      [12, 0, 0, 0, 16, 0, 0, 0])"

theorem multiboot_walks_find_first_witness:
  "tag_chain demo_mbi (0 + 8) [8, 40] \<and>
   multiboot_fill_vbe demo_mbi 0 =
     Some (Some \<lparr>vbe_width = 1024, vbe_height = 768, vbe_pitch = 4096, vbe_bpp = 32,
                 vbe_framebuffer = 0xE0000000\<rparr>) \<and>
   multiboot_has_efi_handoff demo_mbi 0 = Some True"
proof -
  have c: "tag_chain demo_mbi (0 + 8) [8, 40]" by code_simp
  have f: "map_option (vbe_of_tag demo_mbi) (find (usable_fb demo_mbi) [8, 40]) =
      Some \<lparr>vbe_width = 1024, vbe_height = 768, vbe_pitch = 4096, vbe_bpp = 32,
            vbe_framebuffer = 0xE0000000\<rparr>" by code_simp
  have e: "list_ex (efi_tag demo_mbi) [8, 40] = True" by code_simp
  show ?thesis
    using c multiboot_walks_find_first [OF c, of "''x''", unfolded f e] by blast
qed

text \<open>
  The walks trust the sizes in the tags: a tag whose size field is 0 is its own successor,
  and no field that \<open>multiboot_validate\<close> checks excludes it. The walk then does not end.
\<close>

lemma fill_vbe_loop_stuck:
  assumes "next_tag m t = t" and "tag_type m t \<noteq> MULTIBOOT_TAG_TYPE_END" and "\<not> usable_fb m t"
  shows "fill_vbe_loop m t = None"
proof (rule ccontr)
  assume "fill_vbe_loop m t \<noteq> None"
  then obtain r where r: "fill_vbe_loop m t = Some r" by auto
  have "\<not> (m = m \<and> t = t)"
  proof (rule fill_vbe_loop.raw_induct [where P = "\<lambda>m' t' r. \<not> (m' = m \<and> t' = t)", OF _ r])
    fix f m' t' y
    assume IH: "\<And>m' t' y. f m' t' = Some y \<Longrightarrow> \<not> (m' = m \<and> t' = t)"
      and eq: "(if tag_type m' t' = MULTIBOOT_TAG_TYPE_END then Some None
        else if tag_type m' t' = MULTIBOOT_TAG_TYPE_FRAMEBUFFER \<and> tag_size m' t' \<ge> 32 then
          (let fb = rd_tag_framebuffer m' t' in
           if framebuffer_addr fb = 0 \<or> framebuffer_type fb \<noteq> MULTIBOOT_FRAMEBUFFER_TYPE_RGB
           then f m' (next_tag m' t')
           else Some (Some \<lparr>vbe_width = ucast (framebuffer_width fb),
                            vbe_height = ucast (framebuffer_height fb),
                            vbe_pitch = framebuffer_pitch fb,
                            vbe_bpp = framebuffer_bpp fb,
                            vbe_framebuffer = framebuffer_addr fb\<rparr>))
        else f m' (next_tag m' t')) = Some y"
    show "\<not> (m' = m \<and> t' = t)"
    proof
      assume "m' = m \<and> t' = t"
      with eq assms have "f m t = Some y"
        by (auto simp: usable_fb_def rd_tag_framebuffer_def Let_def split: if_splits)
      then show False using IH by blast
    qed
  qed
  then show False by simp
qed


end
