(* ===== verification/Pmm.thy ===== *)
theory Pmm
  imports Multiboot "HOL-Library.Monad_Syntax"
begin

text \<open>
  The physical page allocator, \<open>src/kernel/pmm.c\<close>: a bitmap with one bit per 4 KiB page
  (set: in use), the number of pages and the number of pages in use. The bitmap array
  starts at \<open>_kernel_end\<close>; it is indexed by a 64-bit page number and modelled as the byte
  function \<open>bitmap\<close>, so that an access past \<open>bitmap_size\<close> is an access to the next byte, as
  on the machine. Pointers are addresses; \<open>NULL\<close> is 0.
\<close>

definition PAGE_SIZE :: u64 where "PAGE_SIZE = 4096"

record pmm =
  bitmap :: "u64 \<Rightarrow> u8"
  total_pages :: u64
  used_pages :: u64
  bitmap_size :: u64

section \<open>The bitmap\<close>

definition bitmap_set :: "u64 \<Rightarrow> pmm \<Rightarrow> pmm" where
  "bitmap_set page_index s = s\<lparr>bitmap := (bitmap s)
     (page_index div 8 := bitmap s (page_index div 8) OR push_bit (unat (page_index mod 8)) 1)\<rparr>"

definition bitmap_clear :: "u64 \<Rightarrow> pmm \<Rightarrow> pmm" where
  "bitmap_clear page_index s = s\<lparr>bitmap := (bitmap s)
     (page_index div 8 :=
        bitmap s (page_index div 8) AND NOT (push_bit (unat (page_index mod 8)) 1))\<rparr>"

definition bitmap_test :: "pmm \<Rightarrow> u64 \<Rightarrow> bool" where
  "bitmap_test s page_index \<longleftrightarrow>
     drop_bit (unat (page_index mod 8)) (bitmap s (page_index div 8)) AND 1 \<noteq> 0"

section \<open>Allocation and release\<close>

function alloc_page_loop :: "u64 \<Rightarrow> pmm \<Rightarrow> u64 \<times> pmm" where
  "alloc_page_loop i s =
     (if i < total_pages s
      then if \<not> bitmap_test s i
           then (i * PAGE_SIZE, (bitmap_set i s)\<lparr>used_pages := used_pages s + 1\<rparr>)
           else alloc_page_loop (i + 1) s
      else (0, s))"
  by pat_completeness auto
termination
  by (relation "measure (\<lambda>(i, s). unat (total_pages s) - unat i)")
    (auto simp: for_loop_decreases)

declare alloc_page_loop.simps [simp del]

definition pmm_alloc_page :: "pmm \<Rightarrow> u64 \<times> pmm" where
  "pmm_alloc_page s = alloc_page_loop 0 s"

text \<open>The inner loops of \<open>pmm_alloc_contiguous_pages\<close>: test the \<open>n\<close> pages, then mark them.\<close>

function range_free :: "pmm \<Rightarrow> u64 \<Rightarrow> u64 \<Rightarrow> u64 \<Rightarrow> bool" where
  "range_free s start n j =
     (if j < n then (if bitmap_test s (start + j) then False else range_free s start n (j + 1))
      else True)"
  by pat_completeness auto
termination
  by (relation "measure (\<lambda>(s, start, n, j). unat n - unat j)") (auto simp: for_loop_decreases)

declare range_free.simps [simp del]

function mark_range :: "u64 \<Rightarrow> u64 \<Rightarrow> u64 \<Rightarrow> pmm \<Rightarrow> pmm" where
  "mark_range start n j s =
     (if j < n then mark_range start n (j + 1) (bitmap_set (start + j) s) else s)"
  by pat_completeness auto
termination
  by (relation "measure (\<lambda>(start, n, j, s). unat n - unat j)") (auto simp: for_loop_decreases)

declare mark_range.simps [simp del]

text \<open>
  The outer loop runs while \<open>start + n \<le> total_pages\<close> on wrapping 64-bit integers; it is
  bounded by \<open>start\<close> reaching the top of its range, which the measure uses.
\<close>

function alloc_contig_loop :: "u64 \<Rightarrow> u64 \<Rightarrow> pmm \<Rightarrow> (u64 \<times> pmm) option" where
  "alloc_contig_loop n start s =
     (if start + n \<le> total_pages s
      then if range_free s start n 0
           then Some (start * PAGE_SIZE,
                      (mark_range start n 0 s)\<lparr>used_pages := used_pages (mark_range start n 0 s) + n\<rparr>)
           else if start = - 1 then None
           else alloc_contig_loop n (start + 1) s
      else Some (0, s))"
  by pat_completeness auto
termination
proof (relation "measure (\<lambda>(n, start, s). unat (- 1 :: u64) - unat start)", simp, goal_cases)
  case (1 n start s)
  then have "start < - 1" using word_order.not_eq_extremum by blast
  then show ?case using for_loop_decreases by simp
qed

declare alloc_contig_loop.simps [simp del]

definition pmm_alloc_contiguous_pages :: "u64 \<Rightarrow> pmm \<Rightarrow> (u64 \<times> pmm) option" where
  "pmm_alloc_contiguous_pages n s = (if n = 0 then Some (0, s) else alloc_contig_loop n 0 s)"

function free_contig_loop :: "u64 \<Rightarrow> u64 \<Rightarrow> u64 \<Rightarrow> pmm \<Rightarrow> pmm" where
  "free_contig_loop page_index n j s =
     (if j < n \<and> page_index + j < total_pages s
      then free_contig_loop page_index n (j + 1)
        (if bitmap_test s (page_index + j)
         then (bitmap_clear (page_index + j) s)\<lparr>used_pages := used_pages s - 1\<rparr> else s)
      else s)"
  by pat_completeness auto
termination
  by (relation "measure (\<lambda>(p, n, j, s). unat n - unat j)") (auto simp: for_loop_decreases)

declare free_contig_loop.simps [simp del]

definition pmm_free_contiguous :: "u64 \<Rightarrow> u64 \<Rightarrow> pmm \<Rightarrow> pmm" where
  "pmm_free_contiguous ptr n s =
     (if ptr = 0 \<or> n = 0 then s
      else (let page_index = ptr div PAGE_SIZE in
        if page_index \<ge> total_pages s then s else free_contig_loop page_index n 0 s))"

definition pmm_free_page :: "u64 \<Rightarrow> pmm \<Rightarrow> pmm" where
  "pmm_free_page ptr s =
     (let page_index = ptr div PAGE_SIZE in
      if page_index < total_pages s \<and> bitmap_test s page_index
      then (bitmap_clear page_index s)\<lparr>used_pages := used_pages s - 1\<rparr> else s)"

definition pmm_get_total_memory :: "pmm \<Rightarrow> u64" where
  "pmm_get_total_memory s = total_pages s * PAGE_SIZE"

definition pmm_get_used_memory :: "pmm \<Rightarrow> u64" where
  "pmm_get_used_memory s = used_pages s * PAGE_SIZE"

definition pmm_get_free_memory :: "pmm \<Rightarrow> u64" where
  "pmm_get_free_memory s = (total_pages s - used_pages s) * PAGE_SIZE"

section \<open>Initialisation\<close>

definition mmap_entry_size :: "memory \<Rightarrow> u64 \<Rightarrow> u32" where "mmap_entry_size m t = rd32 m (t + 8)"
definition entry_base :: "memory \<Rightarrow> u64 \<Rightarrow> u64" where "entry_base m e = rd64 m e"
definition entry_length :: "memory \<Rightarrow> u64 \<Rightarrow> u64" where "entry_length m e = rd64 m (e + 8)"
definition entry_type :: "memory \<Rightarrow> u64 \<Rightarrow> u32" where "entry_type m e = rd32 m (e + 16)"
definition MULTIBOOT_MEMORY_AVAILABLE :: u32 where "MULTIBOOT_MEMORY_AVAILABLE = 1"

definition pmm_next_tag :: "memory \<Rightarrow> u64 \<Rightarrow> u64" where
  "pmm_next_tag m tag = (let sz = tag_size m tag in tag + ucast ((sz + 7) AND NOT 7))"

partial_function (option) find_mmap_loop :: "memory \<Rightarrow> u64 \<Rightarrow> u64 option" where
  "find_mmap_loop m tag =
     (if tag_type m tag = MULTIBOOT_TAG_TYPE_END then Some 0
      else if tag_type m tag = MULTIBOOT_TAG_TYPE_MMAP then Some tag
      else find_mmap_loop m (pmm_next_tag m tag))"

definition mmap_usable :: "memory \<Rightarrow> u64 \<Rightarrow> bool" where
  "mmap_usable m t \<longleftrightarrow> t \<noteq> 0 \<and> tag_size m t \<ge> 16 \<and> mmap_entry_size m t \<ge> 24"

text \<open>The loop over the entries, which the code runs twice with different bodies.\<close>

partial_function (option) mmap_loop ::
  "(u64 \<Rightarrow> 'a \<Rightarrow> 'a) \<Rightarrow> u64 \<Rightarrow> u64 \<Rightarrow> u64 \<Rightarrow> 'a \<Rightarrow> 'a option" where
  "mmap_loop body esz lim p acc =
     (if p + esz \<le> lim then mmap_loop body esz lim (p + esz) (body p acc) else Some acc)"

definition mmap_fold :: "(u64 \<Rightarrow> 'a \<Rightarrow> 'a) \<Rightarrow> memory \<Rightarrow> u64 \<Rightarrow> 'a \<Rightarrow> 'a option" where
  "mmap_fold body m t acc =
     (if mmap_usable m t
      then mmap_loop body (ucast (mmap_entry_size m t)) (t + ucast (tag_size m t)) (t + 16) acc
      else Some acc)"

definition max_addr_body :: "memory \<Rightarrow> u64 \<Rightarrow> u64 \<Rightarrow> u64" where
  "max_addr_body m e max_addr =
     (if entry_type m e = MULTIBOOT_MEMORY_AVAILABLE
      then (let end_addr = entry_base m e + entry_length m e in
        if end_addr > max_addr then end_addr else max_addr)
      else max_addr)"

function clear_pages :: "u64 \<Rightarrow> u64 \<Rightarrow> pmm \<Rightarrow> pmm" where
  "clear_pages j end_page s =
     (if j < end_page
      then clear_pages (j + 1) end_page
        ((bitmap_clear j s)\<lparr>used_pages := used_pages (bitmap_clear j s) - 1\<rparr>)
      else s)"
  by pat_completeness auto
termination
  by (relation "measure (\<lambda>(j, n, s). unat n - unat j)") (auto simp: for_loop_decreases)

declare clear_pages.simps [simp del]

definition clear_body :: "memory \<Rightarrow> u64 \<Rightarrow> pmm \<Rightarrow> pmm" where
  "clear_body m e s =
     (if entry_type m e = MULTIBOOT_MEMORY_AVAILABLE
      then (let start_page = entry_base m e div PAGE_SIZE;
                end_page = (entry_base m e + entry_length m e) div PAGE_SIZE in
        clear_pages start_page end_page s)
      else s)"

text \<open>\<open>if (!bitmap_test(i)) { bitmap_set(i); used_pages++; }\<close> and the loops around it.\<close>

definition reserve_page :: "u64 \<Rightarrow> pmm \<Rightarrow> pmm" where
  "reserve_page i s =
     (if \<not> bitmap_test s i then (bitmap_set i s)\<lparr>used_pages := used_pages s + 1\<rparr> else s)"

function reserve_pages :: "u64 \<Rightarrow> u64 \<Rightarrow> pmm \<Rightarrow> pmm" where
  "reserve_pages i n s = (if i < n then reserve_pages (i + 1) n (reserve_page i s) else s)"
  by pat_completeness auto
termination
  by (relation "measure (\<lambda>(i, n, s). unat n - unat i)") (auto simp: for_loop_decreases)

declare reserve_pages.simps [simp del]

partial_function (option) reserve_fb_loop :: "u64 \<Rightarrow> u64 \<Rightarrow> pmm \<Rightarrow> pmm option" where
  "reserve_fb_loop fb_end a s =
     (if a < fb_end
      then reserve_fb_loop fb_end (a + PAGE_SIZE)
        (if a div PAGE_SIZE < total_pages s then reserve_page (a div PAGE_SIZE) s else s)
      else Some s)"

definition reserve_framebuffer :: "vbe_mode_info option \<Rightarrow> pmm \<Rightarrow> pmm option" where
  "reserve_framebuffer vbe s =
     (case vbe of None \<Rightarrow> Some s
      | Some v \<Rightarrow>
        if vbe_framebuffer v \<noteq> 0 \<and> vbe_height v > 0
        then (let fb_base = vbe_framebuffer v;
                  fb_size = ucast (vbe_pitch v) * ucast (vbe_height v) in
          if fb_size \<noteq> 0
          then reserve_fb_loop (fb_base + fb_size) (fb_base AND NOT (PAGE_SIZE - 1)) s
          else Some s)
        else Some s)"

definition bitmap_fill :: "u64 \<Rightarrow> pmm \<Rightarrow> pmm" where
  "bitmap_fill pages s =
     (let size = (if pages mod 8 \<noteq> 0 then pages div 8 + 1 else pages div 8) in
      \<lparr>bitmap = (\<lambda>i. if i < size then 0xFF else bitmap s i), total_pages = pages,
       used_pages = pages, bitmap_size = size\<rparr>)"

text \<open>
  \<open>pmm_init\<close>: the linker symbols \<open>_kernel_start\<close> and \<open>_kernel_end\<close> are parameters; the
  information structure lies outside the bitmap. \<open>None\<close>: one of the walks does not end.
\<close>

definition pmm_init :: "u64 \<Rightarrow> u64 \<Rightarrow> memory \<Rightarrow> u64 \<Rightarrow> pmm \<Rightarrow> pmm option" where
  "pmm_init kernel_start kernel_end m mbi_phys s0 =
     do {
       mmap_tag \<leftarrow> find_mmap_loop m (mbi_phys + 8);
       max_addr \<leftarrow> mmap_fold (max_addr_body m) m mmap_tag 0;
       let pages = max_addr div PAGE_SIZE;
       let pages = (if pages = 0 then 1 else pages);
       s \<leftarrow> mmap_fold (clear_body m) m mmap_tag (bitmap_fill pages s0);
       let kernel_start_page = kernel_start div PAGE_SIZE;
       let kernel_end_page = (kernel_end + bitmap_size s) div PAGE_SIZE + 1;
       let s = reserve_pages kernel_start_page kernel_end_page s;
       let s = reserve_pages 0 (0x100000 div PAGE_SIZE) s;
       vbe \<leftarrow> multiboot_fill_vbe m mbi_phys;
       reserve_framebuffer vbe s
     }"

section \<open>Bit-level facts\<close>

lemma bitmap_test_bit: "bitmap_test s i \<longleftrightarrow> bit (bitmap s (i div 8)) (unat (i mod 8))"
  by (simp only: bitmap_test_def drop_and_one)

lemma unat_mod8_less: "unat (i mod (8 :: u64)) < 8"
  by (simp add: unat_mod)

lemma page_index_eq_iff:
  "(i :: u64) = j \<longleftrightarrow> i div 8 = j div 8 \<and> unat (i mod 8) = unat (j mod 8)"
  by (metis div_mult_mod_eq word_unat_eq_iff)

lemma bitmap_test_set [simp]: "bitmap_test (bitmap_set i s) j \<longleftrightarrow> j = i \<or> bitmap_test s j"
  by (auto simp: bitmap_test_bit bitmap_set_def bit_or_single [OF unat_mod8_less]
      page_index_eq_iff [of j i])

lemma bitmap_test_clear [simp]: "bitmap_test (bitmap_clear i s) j \<longleftrightarrow> j \<noteq> i \<and> bitmap_test s j"
  by (auto simp: bitmap_test_bit bitmap_clear_def bit_and_not_single [OF unat_mod8_less]
      page_index_eq_iff [of j i])

lemma bitmap_test_used_pages [simp]: "bitmap_test (s\<lparr>used_pages := n\<rparr>) i = bitmap_test s i"
  by (simp add: bitmap_test_def)

lemma bitmap_frame [simp]:
  "total_pages (bitmap_set i s) = total_pages s" "total_pages (bitmap_clear i s) = total_pages s"
  "used_pages (bitmap_set i s) = used_pages s" "used_pages (bitmap_clear i s) = used_pages s"
  "bitmap_size (bitmap_set i s) = bitmap_size s" "bitmap_size (bitmap_clear i s) = bitmap_size s"
  by (simp_all add: bitmap_set_def bitmap_clear_def)

section \<open>What the loops do\<close>

definition used_set :: "pmm \<Rightarrow> u64 set" where
  "used_set s = {i. i < total_pages s \<and> bitmap_test s i}"

lemma used_set_set: "i < total_pages s \<Longrightarrow> used_set (bitmap_set i s) = insert i (used_set s)"
  by (auto simp: used_set_def)

lemma used_set_clear: "used_set (bitmap_clear i s) = used_set s - {i}"
  by (auto simp: used_set_def)

lemma used_set_used_pages [simp]: "used_set (s\<lparr>used_pages := n\<rparr>) = used_set s"
  by (simp add: used_set_def)

text \<open>The count agrees with the bitmap.\<close>

definition counted :: "pmm \<Rightarrow> bool" where
  "counted s \<longleftrightarrow> unat (used_pages s) = card (used_set s)"

lemma inj_unat: "inj_on unat (A :: 'a::len word set)"
  by (simp add: inj_on_def word_unat_eq_iff)

lemma card_used_set_le: "card (used_set s) \<le> unat (total_pages s)"
proof -
  have "unat ` used_set s \<subseteq> {..<unat (total_pages s)}"
    by (auto simp: used_set_def word_less_nat_alt)
  then have "card (unat ` used_set s) \<le> card {..<unat (total_pages s)}"
    by (intro card_mono) auto
  then show ?thesis by (simp add: card_image inj_unat)
qed

lemma counted_set:
  assumes "counted s" and "i < total_pages s" and "\<not> bitmap_test s i"
  shows "counted ((bitmap_set i s)\<lparr>used_pages := used_pages s + 1\<rparr>)"
proof -
  have "i \<notin> used_set s" using assms(3) by (simp add: used_set_def)
  then have c: "card (used_set (bitmap_set i s)) = Suc (card (used_set s))"
    by (simp add: used_set_set [OF assms(2)])
  then have "used_pages s < total_pages s"
    using card_used_set_le [of "bitmap_set i s"] assms(1)
    by (simp add: counted_def word_less_nat_alt)
  then show ?thesis
    using assms(1) c unat_Suc_less [of "used_pages s" "total_pages s"] by (simp add: counted_def)
qed

lemma counted_clear:
  assumes "counted s" and "i < total_pages s" and "bitmap_test s i"
  shows "counted ((bitmap_clear i s)\<lparr>used_pages := used_pages s - 1\<rparr>)"
proof -
  have i: "i \<in> used_set s" using assms(2,3) by (simp add: used_set_def)
  then have "card (used_set s) \<noteq> 0" by (auto simp: card_eq_0_iff)
  then have "used_pages s \<noteq> 0" using assms(1) by (auto simp: counted_def)
  then have "unat (used_pages s - 1) = unat (used_pages s) - 1" by (rule unat_minus_one)
  then show ?thesis using assms(1) i by (simp add: counted_def used_set_clear)
qed

lemma alloc_page_loop_cases:
  obtains (found) p where "i \<le> p" "p < total_pages s" "\<not> bitmap_test s p"
      "\<forall>q. i \<le> q \<and> q < p \<longrightarrow> bitmap_test s q"
      "alloc_page_loop i s = (p * PAGE_SIZE, (bitmap_set p s)\<lparr>used_pages := used_pages s + 1\<rparr>)"
  | (full) "\<forall>q. i \<le> q \<and> q < total_pages s \<longrightarrow> bitmap_test s q" "alloc_page_loop i s = (0, s)"
proof (induction i s arbitrary: thesis rule: alloc_page_loop.induct)
  case (1 i s)
  note found = "1.prems"(1) and full = "1.prems"(2) and eq = alloc_page_loop.simps [of i s]
  show ?case
  proof (cases "i < total_pages s")
    case False
    then show ?thesis using full eq by force
  next
    case lt: True
    show ?thesis
    proof (cases "bitmap_test s i")
      case False
      with lt eq show ?thesis by (intro found [of i]) auto
    next
      case used: True
      have next_le: "i + 1 \<le> q \<longleftrightarrow> i < q" for q using lt by (rule word_plus_one_le_iff)
      have step: "bitmap_test s q" if "i + 1 \<le> q \<longrightarrow> bitmap_test s q" and "i \<le> q" for q
        using that used next_le by (cases "q = i") auto
      show ?thesis
      proof (rule "1.IH" [OF lt])
        show "\<not> \<not> bitmap_test s i" using used by simp
      next
        fix p
        assume "i + 1 \<le> p" and "p < total_pages s" and "\<not> bitmap_test s p"
          and "\<forall>q. i + 1 \<le> q \<and> q < p \<longrightarrow> bitmap_test s q"
          and "alloc_page_loop (i + 1) s =
            (p * PAGE_SIZE, (bitmap_set p s)\<lparr>used_pages := used_pages s + 1\<rparr>)"
        then show ?thesis
          using lt used eq step next_le by (intro found [of p]) (auto simp: less_imp_le)
      next
        assume "\<forall>q. i + 1 \<le> q \<and> q < total_pages s \<longrightarrow> bitmap_test s q"
          and "alloc_page_loop (i + 1) s = (0, s)"
        then show ?thesis using lt used eq step by (intro full) auto
      qed
    qed
  qed
qed

lemma range_free_iff:
  "range_free s start n j \<longleftrightarrow> (\<forall>k. j \<le> k \<and> k < n \<longrightarrow> \<not> bitmap_test s (start + k))"
proof (induction s start n j rule: range_free.induct)
  case (1 s start n j)
  show ?case
  proof (cases "j < n")
    case True
    then have "j \<le> k \<longleftrightarrow> k = j \<or> j + 1 \<le> k" for k
      using word_plus_one_le_iff [OF True, of k] by auto
    with True 1 show ?thesis by (subst range_free.simps) auto
  qed (subst range_free.simps, auto)
qed

lemma mark_range_frame [simp]:
  "total_pages (mark_range start n j s) = total_pages s"
  "used_pages (mark_range start n j s) = used_pages s"
proof (induction start n j s rule: mark_range.induct)
  case (1 start n j s)
  { case 1 show ?case using "1.IH" by (subst mark_range.simps) auto }
  { case 2 show ?case using "1.IH" by (subst mark_range.simps) auto }
qed

lemma mark_range_test:
  "bitmap_test (mark_range start n j s) p \<longleftrightarrow>
   bitmap_test s p \<or> (\<exists>k. j \<le> k \<and> k < n \<and> p = start + k)"
proof (induction start n j s rule: mark_range.induct)
  case (1 start n j s)
  show ?case
  proof (cases "j < n")
    case True
    then have "j \<le> k \<longleftrightarrow> k = j \<or> j + 1 \<le> k" for k
      using word_plus_one_le_iff [OF True, of k] by auto
    with True 1 show ?thesis by (subst mark_range.simps) auto
  qed (subst mark_range.simps, auto)
qed

text \<open>The pages of a range that does not wrap.\<close>

definition page_range :: "u64 \<Rightarrow> u64 \<Rightarrow> u64 set" where
  "page_range start n = {p. start \<le> p \<and> unat p < unat start + unat n}"

lemma page_range_offsets:
  assumes "unat start + unat n \<le> 2 ^ 64"
  shows "(\<exists>k<n. p = start + k) \<longleftrightarrow> p \<in> page_range start n"
proof
  assume "\<exists>k<n. p = start + k"
  then obtain k where k: "k < n" "p = start + k" by blast
  then have "unat k < unat n" by (simp add: word_less_nat_alt)
  then have "unat (start + k) = unat start + unat k"
    using assms by (intro unat_add_lem [THEN iffD1]) simp
  with k show "p \<in> page_range start n"
    by (simp add: page_range_def word_le_nat_alt word_less_nat_alt)
next
  assume "p \<in> page_range start n"
  then have p: "start \<le> p" "unat p < unat start + unat n" by (auto simp: page_range_def)
  then have "unat (p - start) = unat p - unat start" by (simp add: unat_sub)
  then have "p - start < n" using p by (simp add: word_less_nat_alt word_le_nat_alt)
  then show "\<exists>k<n. p = start + k" by (intro exI [of _ "p - start"]) simp
qed

lemma card_page_range:
  assumes "unat start + unat n \<le> 2 ^ 64"
  shows "card (page_range start n) = unat n"
proof -
  have "unat ` page_range start n = {unat start..<unat start + unat n}"
  proof (intro equalityI subsetI)
    fix x assume "x \<in> {unat start..<unat start + unat n}"
    then have x: "unat start \<le> x" "x < unat start + unat n" by auto
    then have "unat (of_nat x :: u64) = x" using assms by simp
    with x show "x \<in> unat ` page_range start n"
      by (intro image_eqI [of _ _ "of_nat x"]) (auto simp: page_range_def word_le_nat_alt)
  qed (auto simp: page_range_def word_le_nat_alt)
  then have "card (unat ` page_range start n) = unat n" by simp
  then show ?thesis by (simp add: card_image inj_unat)
qed

text \<open>
  The search for a contiguous range: with fewer than \<open>2 ^ 64 - 1\<close> pages it ends, with the
  lowest start whose \<open>n\<close> pages are all free, or with \<open>NULL\<close> and an unchanged state.
\<close>

lemma alloc_contig_loop_cases:
  assumes "total_pages s < - 1" and "unat start + unat n < 2 ^ 64" and "n \<noteq> 0"
  obtains (found) p where "start \<le> p" "unat p + unat n \<le> unat (total_pages s)"
      "\<forall>q \<in> page_range p n. \<not> bitmap_test s q"
      "\<forall>r. start \<le> r \<and> r < p \<longrightarrow> (\<exists>q \<in> page_range r n. bitmap_test s q)"
      "alloc_contig_loop n start s = Some (p * PAGE_SIZE,
        (mark_range p n 0 s)\<lparr>used_pages := used_pages s + n\<rparr>)"
  | (none) "\<forall>r. start \<le> r \<and> unat r + unat n \<le> unat (total_pages s) \<longrightarrow>
        (\<exists>q \<in> page_range r n. bitmap_test s q)"
      "alloc_contig_loop n start s = Some (0, s)"
  using assms
proof (induction n start s arbitrary: thesis rule: alloc_contig_loop.induct)
  case (1 n start s)
  note found = "1.prems"(1) and none = "1.prems"(2) and eq = alloc_contig_loop.simps [of n start s]
  have sum: "unat (start + n) = unat start + unat n"
    using "1.prems"(4) by (intro unat_add_lem [THEN iffD1]) simp
  have off: "range_free s r n 0 \<longleftrightarrow> (\<forall>q \<in> page_range r n. \<not> bitmap_test s q)"
    if "unat r + unat n \<le> 2 ^ 64" for r
    unfolding Ball_def page_range_offsets [OF that, symmetric] by (auto simp: range_free_iff)
  show ?case
  proof (cases "start + n \<le> total_pages s")
    case False
    then have "unat (total_pages s) < unat start + unat n"
      using sum by (simp add: word_le_nat_alt)
    then show ?thesis
      using eq False by (intro none) (auto simp: word_le_nat_alt)
  next
    case le: True
    then have le': "unat start + unat n \<le> unat (total_pages s)" using sum by (simp add: word_le_nat_alt)
    show ?thesis
    proof (cases "range_free s start n 0")
      case True
      with eq le le' off [of start] "1.prems"(4) show ?thesis by (intro found [of start]) auto
    next
      case busy: False
      have lt: "start < - 1"
        using le' "1.prems"(3,5) by (auto simp: word_less_nat_alt unat_eq_0)
      then have ne: "start \<noteq> - 1" by auto
      have suc: "unat (start + 1) = Suc (unat start)" by (rule unat_Suc_less [OF lt])
      have "unat (total_pages s) < 2 ^ 64 - 1"
        using "1.prems"(3) by (simp add: word_less_nat_alt unsigned_minus_1_eq_mask mask_eq_exp_minus_1)
      then have bound: "unat (start + 1) + unat n < 2 ^ 64" using suc le' by simp
      have step: "\<exists>q \<in> page_range r n. bitmap_test s q"
        if "start + 1 \<le> r \<longrightarrow> (\<exists>q \<in> page_range r n. bitmap_test s q)" and "start \<le> r" for r
        using that busy off [of start] "1.prems"(4) word_plus_one_le_iff [OF lt, of r]
        by (cases "r = start") auto
      have eq': "alloc_contig_loop n start s = alloc_contig_loop n (start + 1) s"
        using eq le busy ne by simp
      show ?thesis
      proof (rule "1.IH" [OF le busy ne _ _ "1.prems"(3) bound "1.prems"(5)])
        fix p
        assume "start + 1 \<le> p" and "unat p + unat n \<le> unat (total_pages s)"
          and "\<forall>q \<in> page_range p n. \<not> bitmap_test s q"
          and "\<forall>r. start + 1 \<le> r \<and> r < p \<longrightarrow> (\<exists>q \<in> page_range r n. bitmap_test s q)"
          and "alloc_contig_loop n (start + 1) s =
            Some (p * PAGE_SIZE, (mark_range p n 0 s)\<lparr>used_pages := used_pages s + n\<rparr>)"
        then show ?thesis
          using eq' step word_plus_one_le_iff [OF lt, of p]
          by (intro found [of p]) auto
      next
        assume "\<forall>r. start + 1 \<le> r \<and> unat r + unat n \<le> unat (total_pages s) \<longrightarrow>
            (\<exists>q \<in> page_range r n. bitmap_test s q)"
          and "alloc_contig_loop n (start + 1) s = Some (0, s)"
        then show ?thesis using eq' step by (intro none) auto
      qed
    qed
  qed
qed

section \<open>The allocator as an interface\<close>

text \<open>
  What a client of a page allocator relies on. The laws mention only the set of frames that
  exist and the set of frames in use.
\<close>

locale page_allocator =
  fixes invar :: "'s \<Rightarrow> bool" and frames :: "'s \<Rightarrow> 'p set" and used :: "'s \<Rightarrow> 'p set"
    and alloc :: "'s \<Rightarrow> 'p option \<times> 's" and free :: "'p \<Rightarrow> 's \<Rightarrow> 's"
  assumes alloc_Some: "\<lbrakk>invar s; alloc s = (Some p, s')\<rbrakk> \<Longrightarrow>
      invar s' \<and> p \<in> frames s \<and> p \<notin> used s \<and> used s' = insert p (used s) \<and> frames s' = frames s"
    and alloc_None: "\<lbrakk>invar s; alloc s = (None, s')\<rbrakk> \<Longrightarrow> s' = s \<and> frames s \<subseteq> used s"
    and free_used: "\<lbrakk>invar s; p \<in> frames s; p \<in> used s\<rbrakk> \<Longrightarrow>
      invar (free p s) \<and> used (free p s) = used s - {p} \<and> frames (free p s) = frames s"
begin

lemma free_alloc:
  assumes "invar s" and "alloc s = (Some p, s')"
  shows "used (free p s') = used s"
  using alloc_Some [OF assms] free_used [of s' p] by auto

lemma alloc_after_free:
  assumes "invar s" and "p \<in> frames s" and "p \<in> used s"
  shows "fst (alloc (free p s)) \<noteq> None"
proof
  assume "fst (alloc (free p s)) = None"
  then obtain s' where "alloc (free p s) = (None, s')" by (cases "alloc (free p s)") auto
  with alloc_None [of "free p s" s'] free_used [OF assms] assms show False by auto
qed

text \<open>A client that owns \<open>live\<close>, beside frames in use by others.\<close>

definition owns :: "'p set \<Rightarrow> 'p set \<Rightarrow> 's \<Rightarrow> bool" where
  "owns others live s \<longleftrightarrow>
     invar s \<and> others \<inter> live = {} \<and> live \<subseteq> frames s \<and> used s = others \<union> live"

lemma owns_alloc:
  assumes "owns others live s" and "alloc s = (Some p, s')"
  shows "p \<notin> live \<and> p \<notin> others \<and> owns others (insert p live) s'"
  using assms alloc_Some [of s p s'] unfolding owns_def by auto

lemma owns_free:
  assumes "owns others live s" and "p \<in> live"
  shows "owns others (live - {p}) (free p s)"
  using assms free_used [of s p] unfolding owns_def by auto

end

definition alloc_opt :: "pmm \<Rightarrow> u64 option \<times> pmm" where
  "alloc_opt s = (case pmm_alloc_page s of (p, s') \<Rightarrow> (if p = 0 then None else Some p, s'))"

text \<open>
  The invariant after \<open>pmm_init\<close>: page 0 is in use, so no page has the address \<open>NULL\<close>; page
  addresses fit 64 bits; the count of pages in use agrees with the bitmap.
\<close>

definition pmm_ok :: "pmm \<Rightarrow> bool" where
  "pmm_ok s \<longleftrightarrow> total_pages s \<le> 2 ^ 52 \<and> 0 < total_pages s \<and> bitmap_test s 0 \<and> counted s"

definition page_addrs :: "pmm \<Rightarrow> u64 set" where
  "page_addrs s = (\<lambda>p. p * PAGE_SIZE) ` {p. 0 < p \<and> p < total_pages s}"

definition used_addrs :: "pmm \<Rightarrow> u64 set" where
  "used_addrs s = (\<lambda>p. p * PAGE_SIZE) ` used_set s"

lemma page_addr_div:
  assumes "p < (2 ^ 52 :: u64)"
  shows "p * PAGE_SIZE div PAGE_SIZE = p"
proof -
  have p: "unat p < 2 ^ 52" using assms by (simp add: word_less_nat_alt)
  then have "unat (p * PAGE_SIZE) = unat p * 4096"
    by (simp add: unat_word_ariths PAGE_SIZE_def)
  then show ?thesis by (simp add: word_unat_eq_iff unat_div PAGE_SIZE_def)
qed

lemma page_addr_eq_iff:
  assumes "p < (2 ^ 52 :: u64)" and "q < 2 ^ 52"
  shows "p * PAGE_SIZE = q * PAGE_SIZE \<longleftrightarrow> p = q"
  using page_addr_div assms by metis

lemma page_addr_nonzero: "0 < p \<Longrightarrow> p < (2 ^ 52 :: u64) \<Longrightarrow> p * PAGE_SIZE \<noteq> 0"
  using page_addr_eq_iff [of p 0] by auto

lemma pmm_alloc_page_cases:
  assumes "pmm_ok s"
  obtains (found) p where "0 < p" "p < total_pages s" "p * PAGE_SIZE \<noteq> 0" "\<not> bitmap_test s p"
      "\<forall>q<p. bitmap_test s q"
      "pmm_alloc_page s = (p * PAGE_SIZE, (bitmap_set p s)\<lparr>used_pages := used_pages s + 1\<rparr>)"
  | (full) "\<forall>q<total_pages s. bitmap_test s q" "pmm_alloc_page s = (0, s)"
proof (cases rule: alloc_page_loop_cases [of 0 s])
  case loop: (found p)
  with assms have "p \<noteq> 0" by (auto simp: pmm_ok_def)
  then have pos: "0 < p" by (simp add: word_neq_0_conv)
  then have "p * PAGE_SIZE \<noteq> 0"
    using loop assms by (intro page_addr_nonzero) (auto simp: pmm_ok_def)
  then show ?thesis using loop pos by (intro found [of p]) (auto simp: pmm_alloc_page_def)
next
  case loop: full
  then show ?thesis by (intro full) (auto simp: pmm_alloc_page_def)
qed

lemma pmm_ok_set:
  assumes "pmm_ok s" and "i < total_pages s" and "\<not> bitmap_test s i"
  shows "pmm_ok ((bitmap_set i s)\<lparr>used_pages := used_pages s + 1\<rparr>)"
  using assms counted_set [of s i] by (auto simp: pmm_ok_def)

lemma pmm_ok_clear:
  assumes "pmm_ok s" and "i < total_pages s" and "0 < i" and "bitmap_test s i"
  shows "pmm_ok ((bitmap_clear i s)\<lparr>used_pages := used_pages s - 1\<rparr>)"
  using assms counted_clear [of s i] by (auto simp: pmm_ok_def)

interpretation pm: page_allocator pmm_ok page_addrs used_addrs alloc_opt pmm_free_page
proof (unfold_locales, goal_cases)
  case (1 s p s')
  from 1(1) show ?case
  proof (cases rule: pmm_alloc_page_cases)
    case (found q)
    then have "p = q * PAGE_SIZE" and s': "s' = (bitmap_set q s)\<lparr>used_pages := used_pages s + 1\<rparr>"
      using 1(2) by (auto simp: alloc_opt_def)
    moreover have "q * PAGE_SIZE \<notin> used_addrs s"
    proof
      assume "q * PAGE_SIZE \<in> used_addrs s"
      then obtain r where "r \<in> used_set s" "q * PAGE_SIZE = r * PAGE_SIZE"
        by (auto simp: used_addrs_def)
      moreover from this have "r < 2 ^ 52" "q < 2 ^ 52"
        using 1(1) found(2) by (auto simp: pmm_ok_def used_set_def)
      ultimately show False using page_addr_eq_iff [of q r] found(4) by (auto simp: used_set_def)
    qed
    ultimately show ?thesis
      using found pmm_ok_set [OF 1(1)] by (auto simp: page_addrs_def used_addrs_def used_set_set)
  qed (use 1 in \<open>auto simp: alloc_opt_def\<close>)
next
  case (2 s s')
  from 2(1) show ?case
    by (cases rule: pmm_alloc_page_cases)
      (use 2 in \<open>auto simp: alloc_opt_def page_addrs_def used_addrs_def used_set_def\<close>)
next
  case (3 s p)
  then obtain q where q: "0 < q" "q < total_pages s" "p = q * PAGE_SIZE"
    by (auto simp: page_addrs_def)
  have less: "r < 2 ^ 52" if "r < total_pages s" for r using that 3(1) by (auto simp: pmm_ok_def)
  have div_q: "p div PAGE_SIZE = q" using q less page_addr_div by auto
  obtain r where r: "r \<in> used_set s" "p = r * PAGE_SIZE" using 3(3) by (auto simp: used_addrs_def)
  then have "r = q" using q less page_addr_eq_iff by (auto simp: used_set_def)
  then have "bitmap_test s q" using r by (simp add: used_set_def)
  then have f: "pmm_free_page p s = (bitmap_clear q s)\<lparr>used_pages := used_pages s - 1\<rparr>"
    using q div_q by (simp add: pmm_free_page_def)
  have "(\<lambda>p. p * PAGE_SIZE) ` (used_set s - {q}) = (\<lambda>p. p * PAGE_SIZE) ` used_set s - {p}"
    using q less page_addr_eq_iff by (auto simp: used_set_def)
  then show ?case
    using f q pmm_ok_clear [OF 3(1) q(2,1)] \<open>bitmap_test s q\<close>
    by (auto simp: used_addrs_def page_addrs_def used_set_clear)
qed

section \<open>Contiguous ranges\<close>

lemma page_range_below:
  assumes "unat start + unat n \<le> unat t"
  shows "page_range start n \<subseteq> {p. p < t}"
  using assms by (auto simp: page_range_def word_less_nat_alt)

lemma range_no_wrap: "unat start + unat n \<le> unat (t :: u64) \<Longrightarrow> unat start + unat (n :: u64) \<le> 2 ^ 64"
  using unat_u64_less [of t] by simp

lemma page_range_image:
  assumes "unat start + unat n \<le> unat (t :: u64)"
  shows "page_range start n = (\<lambda>k. start + k) ` {k. k < n}"
  using page_range_offsets [OF range_no_wrap [OF assms]] by (auto simp: image_iff)

lemma mark_range_used:
  assumes "unat start + unat n \<le> unat (total_pages s)"
  shows "used_set (mark_range start n 0 s) = used_set s \<union> page_range start n"
  using page_range_below [OF assms] by (auto simp: used_set_def mark_range_test page_range_image [OF assms])

lemma counted_mark_range:
  assumes "counted s" and "unat start + unat n \<le> unat (total_pages s)"
    and "\<forall>q \<in> page_range start n. \<not> bitmap_test s q"
  shows "counted ((mark_range start n 0 s)\<lparr>used_pages := used_pages s + n\<rparr>)"
proof -
  let ?s = "(mark_range start n 0 s)\<lparr>used_pages := used_pages s + n\<rparr>"
  have "used_set s \<inter> page_range start n = {}" using assms(3) by (auto simp: used_set_def)
  then have "card (used_set ?s) = card (used_set s) + unat n"
    using mark_range_used [OF assms(2)] card_page_range [OF range_no_wrap [OF assms(2)]]
    by (simp add: card_Un_disjoint)
  moreover from this have "unat (used_pages s) + unat n < 2 ^ 64"
    using card_used_set_le [of ?s] assms(1) unat_u64_less [of "total_pages s"]
    by (simp add: counted_def)
  then have "unat (used_pages s + n) = unat (used_pages s) + unat n"
    by (intro unat_add_lem [THEN iffD1]) simp
  ultimately show ?thesis using assms(1) by (simp add: counted_def)
qed

lemma free_contig_loop_spec:
  assumes "unat start + unat n \<le> unat (total_pages s)"
  shows "total_pages (free_contig_loop start n j s) = total_pages s \<and>
    (counted s \<longrightarrow> counted (free_contig_loop start n j s)) \<and>
    (\<forall>q. bitmap_test (free_contig_loop start n j s) q \<longleftrightarrow>
      bitmap_test s q \<and> \<not> (\<exists>k. j \<le> k \<and> k < n \<and> q = start + k))"
  using assms
proof (induction start n j s rule: free_contig_loop.induct)
  case (1 start n j s)
  show ?case
  proof (cases "j < n")
    case False
    then show ?thesis by (subst (1 2 3) free_contig_loop.simps) auto
  next
    case True
    let ?s = "if bitmap_test s (start + j)
      then (bitmap_clear (start + j) s)\<lparr>used_pages := used_pages s - 1\<rparr> else s"
    have "unat j < unat n" using True by (simp add: word_less_nat_alt)
    moreover from this have "unat (start + j) = unat start + unat j"
      using "1.prems" unat_u64_less [of "total_pages s"] by (intro unat_add_lem [THEN iffD1]) simp
    ultimately have below: "start + j < total_pages s" using "1.prems" by (simp add: word_less_nat_alt)
    have eq: "free_contig_loop start n j s = free_contig_loop start n (j + 1) ?s"
      using below True by (subst free_contig_loop.simps) simp
    have split: "j \<le> k \<longleftrightarrow> k = j \<or> j + 1 \<le> k" for k
      using word_plus_one_le_iff [OF True, of k] by auto
    show ?thesis
      unfolding eq using "1.IH" "1.prems" below True split counted_clear [of s "start + j"] by auto
  qed
qed

lemma pmm_free_contiguous_range:
  assumes "unat p + unat n \<le> unat (total_pages s)" and "0 < p" and "p < 2 ^ 52" and "n \<noteq> 0"
  shows "used_set (pmm_free_contiguous (p * PAGE_SIZE) n s) = used_set s - page_range p n"
    and "counted s \<Longrightarrow> counted (pmm_free_contiguous (p * PAGE_SIZE) n s)"
proof -
  have "0 < unat n" using assms(4) by (simp add: unat_gt_0)
  then have "p < total_pages s" using assms(1) by (simp add: word_less_nat_alt)
  then have f: "pmm_free_contiguous (p * PAGE_SIZE) n s = free_contig_loop p n 0 s"
    using assms page_addr_nonzero page_addr_div by (simp add: pmm_free_contiguous_def)
  show "used_set (pmm_free_contiguous (p * PAGE_SIZE) n s) = used_set s - page_range p n"
    using free_contig_loop_spec [OF assms(1)] by (auto simp: f used_set_def page_range_image [OF assms(1)])
  show "counted s \<Longrightarrow> counted (pmm_free_contiguous (p * PAGE_SIZE) n s)"
    using free_contig_loop_spec [OF assms(1)] by (simp add: f)
qed

text \<open>
  C14: \<open>pmm_alloc_contiguous_pages\<close> always returns. It returns the lowest range of \<open>n\<close> free
  pages and marks exactly that range, and a \<open>pmm_free_contiguous\<close> of the result gives back
  exactly the former set of pages in use; or it returns \<open>NULL\<close>, changes nothing, and no range of
  \<open>n\<close> free pages exists. In both cases the count of used pages stays exact.
\<close>

theorem pmm_alloc_contiguous_first_fit:
  assumes "pmm_ok s" and "n \<noteq> 0" and "n \<le> 2 ^ 52"
  shows "\<exists>a s'. pmm_alloc_contiguous_pages n s = Some (a, s') \<and> pmm_ok s' \<and>
    (if a = 0
     then s' = s \<and> (\<forall>r. unat r + unat n \<le> unat (total_pages s) \<longrightarrow>
            (\<exists>q \<in> page_range r n. bitmap_test s q))
     else (\<exists>p. a = p * PAGE_SIZE \<and> unat p + unat n \<le> unat (total_pages s) \<and>
            used_set s \<inter> page_range p n = {} \<and> used_set s' = used_set s \<union> page_range p n \<and>
            (\<forall>r<p. \<exists>q \<in> page_range r n. bitmap_test s q) \<and>
            used_set (pmm_free_contiguous a n s') = used_set s \<and>
            pmm_ok (pmm_free_contiguous a n s')))"
proof -
  have ok: "total_pages s \<le> 2 ^ 52" "bitmap_test s 0" "counted s" "0 < total_pages s"
    using assms(1) by (auto simp: pmm_ok_def)
  then have lim: "total_pages s < - 1" by (rule_tac le_less_trans [OF ok(1)]) simp
  have n: "unat (0 :: u64) + unat n < 2 ^ 64"
    using unat_u64_less [of n] by simp
  have eq: "pmm_alloc_contiguous_pages n s = alloc_contig_loop n 0 s"
    using assms(2) by (simp add: pmm_alloc_contiguous_pages_def)
  show ?thesis
    using lim n assms(2)
  proof (cases rule: alloc_contig_loop_cases)
    case none
    then show ?thesis using assms(1) eq by auto
  next
    case (found p)
    let ?s = "(mark_range p n 0 s)\<lparr>used_pages := used_pages s + n\<rparr>"
    have npos: "0 < unat n" using assms(2) by (simp add: unat_gt_0)
    then have "p \<in> page_range p n" by (simp add: page_range_def)
    then have "p \<noteq> 0" using found(3) ok(2) by auto
    then have pos: "0 < p" by (simp add: word_neq_0_conv)
    have p: "p < 2 ^ 52"
      using found(2) npos ok(1) by (simp add: word_less_nat_alt word_le_nat_alt)
    have used: "used_set ?s = used_set s \<union> page_range p n"
      using mark_range_used [OF found(2)] by simp
    have disj: "used_set s \<inter> page_range p n = {}" using found(3) by (auto simp: used_set_def)
    have ok': "pmm_ok ?s"
      using ok counted_mark_range [OF ok(3) found(2,3)] by (simp add: pmm_ok_def mark_range_test)
    have fc: "used_set (pmm_free_contiguous (p * PAGE_SIZE) n ?s) = used_set s"
      "counted (pmm_free_contiguous (p * PAGE_SIZE) n ?s)"
      using pmm_free_contiguous_range [of p n ?s] found(2) pos p assms(2) used disj ok'
      by (auto simp: pmm_ok_def)
    have "0 \<in> used_set s" using ok by (simp add: used_set_def)
    moreover have "total_pages (pmm_free_contiguous (p * PAGE_SIZE) n ?s) = total_pages s"
      using free_contig_loop_spec [of p n ?s 0] page_addr_div [OF p] found(2)
      by (simp add: pmm_free_contiguous_def)
    ultimately have "pmm_ok (pmm_free_contiguous (p * PAGE_SIZE) n ?s)"
      using fc ok by (auto simp: pmm_ok_def used_set_def)
    then show ?thesis
      using eq found(2,4,5) page_addr_nonzero [OF pos p] ok' used disj fc
      by (intro exI [of _ "p * PAGE_SIZE"] exI [of _ ?s]) auto
  qed
qed

section \<open>Initialisation\<close>

text \<open>
  The loop over the entries of a memory map is a fold over the entry addresses, provided the
  map does not end at the top of the address space.
\<close>

definition entry_addrs :: "u64 \<Rightarrow> u64 \<Rightarrow> nat \<Rightarrow> u64 list" where
  "entry_addrs p esz n = map (\<lambda>k. p + of_nat k * esz) [0..<n]"

lemma entry_addrs_Suc: "entry_addrs p esz (Suc n) = p # entry_addrs (p + esz) esz n"
  unfolding entry_addrs_def
  by (subst upt_conv_Cons) (auto simp: map_Suc_upt [symmetric] algebra_simps simp del: upt_Suc)

lemma mmap_loop_fold:
  assumes "0 < unat esz" and "unat lim + unat esz < 2 ^ 64" and "unat p \<le> unat lim"
    and "n = (unat lim - unat p) div unat esz"
  shows "mmap_loop body esz lim p acc = Some (fold body (entry_addrs p esz n) acc)"
  using assms(3,4)
proof (induction n arbitrary: p acc)
  case 0
  then have "unat lim - unat p < unat esz" using assms(1) by (simp add: div_eq_0_iff)
  moreover have "unat (p + esz) = unat p + unat esz"
    using 0 assms(2) by (intro unat_add_lem [THEN iffD1]) simp
  ultimately have "\<not> p + esz \<le> lim" using 0 by (simp add: word_le_nat_alt)
  then show ?case by (subst mmap_loop.simps) (simp add: entry_addrs_def)
next
  case (Suc n)
  have sum: "unat (p + esz) = unat p + unat esz"
    using Suc.prems assms(2) by (intro unat_add_lem [THEN iffD1]) simp
  have "unat esz \<le> unat lim - unat p"
    using Suc.prems(2) by (metis div_less nat.simps(3) not_le)
  moreover from this have "n = (unat lim - unat (p + esz)) div unat esz"
    using Suc.prems(2) assms(1) sum by (simp add: le_div_geq diff_diff_left)
  moreover have le: "unat (p + esz) \<le> unat lim"
    using calculation(1) sum Suc.prems(1) by simp
  ultimately have "mmap_loop body esz lim (p + esz) (body p acc) =
      Some (fold body (entry_addrs (p + esz) esz n) (body p acc))"
    by (intro Suc.IH)
  moreover have "p + esz \<le> lim" using le by (simp add: word_le_nat_alt)
  ultimately show ?case by (subst mmap_loop.simps) (simp add: entry_addrs_Suc)
qed

lemma clear_pages_spec:
  "total_pages (clear_pages j n s) = total_pages s \<and> bitmap_size (clear_pages j n s) = bitmap_size s \<and>
   (\<forall>q. bitmap_test (clear_pages j n s) q \<longleftrightarrow> bitmap_test s q \<and> \<not> (j \<le> q \<and> q < n))"
proof (induction j n s rule: clear_pages.induct)
  case (1 j n s)
  show ?case
  proof (cases "j < n")
    case True
    then have "j \<le> k \<longleftrightarrow> k = j \<or> j + 1 \<le> k" for k
      using word_plus_one_le_iff [OF True, of k] by auto
    moreover have "clear_pages j n s =
        clear_pages (j + 1) n ((bitmap_clear j s)\<lparr>used_pages := used_pages s - 1\<rparr>)"
      using True by (subst clear_pages.simps) simp
    ultimately show ?thesis using 1 True by auto
  next
    case False
    moreover from this have "clear_pages j n s = s" by (subst clear_pages.simps) simp
    ultimately show ?thesis by auto
  qed
qed

lemma reserve_page_test [simp]: "bitmap_test (reserve_page i s) q \<longleftrightarrow> q = i \<or> bitmap_test s q"
  by (auto simp: reserve_page_def)

lemma reserve_page_frame [simp]:
  "total_pages (reserve_page i s) = total_pages s" "bitmap_size (reserve_page i s) = bitmap_size s"
  by (simp_all add: reserve_page_def bitmap_set_def)

lemma counted_reserve_page: "counted s \<Longrightarrow> i < total_pages s \<Longrightarrow> counted (reserve_page i s)"
  using counted_set by (simp add: reserve_page_def)

lemma reserve_pages_spec:
  "total_pages (reserve_pages i n s) = total_pages s \<and>
   (\<forall>q. bitmap_test (reserve_pages i n s) q \<longleftrightarrow> bitmap_test s q \<or> (i \<le> q \<and> q < n)) \<and>
   (counted s \<and> n \<le> total_pages s \<longrightarrow> counted (reserve_pages i n s))"
proof (induction i n s rule: reserve_pages.induct)
  case (1 i n s)
  show ?case
  proof (cases "i < n")
    case True
    then have "i \<le> k \<longleftrightarrow> k = i \<or> i + 1 \<le> k" for k
      using word_plus_one_le_iff [OF True, of k] by auto
    moreover have "reserve_pages i n s = reserve_pages (i + 1) n (reserve_page i s)"
      using True by (subst reserve_pages.simps) simp
    ultimately show ?thesis using 1 True by (auto simp: counted_reserve_page)
  next
    case False
    moreover from this have "reserve_pages i n s = s" by (subst reserve_pages.simps) simp
    ultimately show ?thesis by auto
  qed
qed

lemma counted_clear_pages:
  assumes "counted s" and "\<forall>q. j \<le> q \<and> q < n \<longrightarrow> q \<in> used_set s"
  shows "counted (clear_pages j n s)"
  using assms
proof (induction j n s rule: clear_pages.induct)
  case (1 j n s)
  show ?case
  proof (cases "j < n")
    case True
    let ?s = "(bitmap_clear j s)\<lparr>used_pages := used_pages s - 1\<rparr>"
    have "j \<in> used_set s" using 1(3) True by simp
    then have "counted ?s" using 1(2) by (intro counted_clear) (auto simp: used_set_def)
    moreover have "\<forall>q. j + 1 \<le> q \<and> q < n \<longrightarrow> q \<in> used_set ?s"
      using 1(3) word_plus_one_le_iff [OF True] by (auto simp: used_set_clear)
    ultimately have "counted (clear_pages (j + 1) n ?s)" using 1(1) [OF True] by simp
    then show ?thesis using True by (subst clear_pages.simps) simp
  next
    case False
    then show ?thesis using 1(2) by (subst clear_pages.simps) simp
  qed
qed

text \<open>The pages an available entry releases, and the framebuffer's pages.\<close>

definition page_span :: "memory \<Rightarrow> u64 \<Rightarrow> u64 set" where
  "page_span m e =
     (if entry_type m e = MULTIBOOT_MEMORY_AVAILABLE
      then {q. entry_base m e div PAGE_SIZE \<le> q \<and> q < (entry_base m e + entry_length m e) div PAGE_SIZE}
      else {})"

fun disjoint_spans :: "memory \<Rightarrow> u64 list \<Rightarrow> bool" where
  "disjoint_spans m [] \<longleftrightarrow> True"
| "disjoint_spans m (e # es) \<longleftrightarrow>
     (\<forall>f \<in> set es. page_span m e \<inter> page_span m f = {}) \<and> disjoint_spans m es"

lemma clear_body_spec:
  "total_pages (clear_body m e s) = total_pages s \<and> bitmap_size (clear_body m e s) = bitmap_size s \<and>
   (\<forall>q. bitmap_test (clear_body m e s) q \<longleftrightarrow> bitmap_test s q \<and> q \<notin> page_span m e)"
  using clear_pages_spec by (auto simp: clear_body_def page_span_def Let_def)

lemma counted_clear_body:
  assumes "counted s" and "page_span m e \<subseteq> used_set s"
  shows "counted (clear_body m e s)"
  using assms by (auto simp: clear_body_def page_span_def Let_def intro!: counted_clear_pages)

lemma clear_fold_spec:
  "total_pages (fold (clear_body m) es s) = total_pages s \<and>
   bitmap_size (fold (clear_body m) es s) = bitmap_size s \<and>
   (\<forall>q. bitmap_test (fold (clear_body m) es s) q \<longleftrightarrow>
     bitmap_test s q \<and> q \<notin> \<Union> (page_span m ` set es))"
  using clear_body_spec by (induction es arbitrary: s) auto

lemma counted_clear_fold:
  assumes "counted s" and "\<forall>e \<in> set es. page_span m e \<subseteq> used_set s" and "disjoint_spans m es"
  shows "counted (fold (clear_body m) es s)"
  using assms
proof (induction es arbitrary: s)
  case (Cons e es)
  have "used_set (clear_body m e s) = used_set s - page_span m e"
    using clear_body_spec by (auto simp: used_set_def)
  then have "\<forall>f \<in> set es. page_span m f \<subseteq> used_set (clear_body m e s)"
    using Cons.prems by fastforce
  then show ?case using Cons.prems by (auto intro!: Cons.IH counted_clear_body)
qed simp

lemma max_addr_fold_mono: "a \<le> fold (max_addr_body m) es a"
proof (induction es arbitrary: a)
  case (Cons e es)
  have "a \<le> max_addr_body m e a" by (auto simp: max_addr_body_def Let_def)
  also have "\<dots> \<le> fold (max_addr_body m) es (max_addr_body m e a)" by (rule Cons.IH)
  finally show ?case by simp
qed simp

lemma max_addr_fold_bound:
  assumes "e \<in> set es" and "entry_type m e = MULTIBOOT_MEMORY_AVAILABLE"
  shows "entry_base m e + entry_length m e \<le> fold (max_addr_body m) es a"
  using assms(1)
proof (induction es arbitrary: a)
  case (Cons f es)
  show ?case
  proof (cases "e = f")
    case True
    then have "entry_base m e + entry_length m e \<le> max_addr_body m f a"
      using assms(2) by (auto simp: max_addr_body_def Let_def)
    then show ?thesis using max_addr_fold_mono [of "max_addr_body m f a" m es] by simp
  qed (use Cons in auto)
qed simp

text \<open>The framebuffer loop visits every page from the first to the last one it touches.\<close>

lemma reserve_fb_loop_spec:
  assumes "unat fb_end + 4096 \<le> 2 ^ 64" and "unat a = 4096 * k"
  shows "\<exists>s'. reserve_fb_loop fb_end a s = Some s' \<and> total_pages s' = total_pages s \<and>
    (counted s \<longrightarrow> counted s') \<and>
    (\<forall>q. bitmap_test s' q \<longleftrightarrow> bitmap_test s q \<or>
      (q < total_pages s \<and> k \<le> unat q \<and> 4096 * unat q < unat fb_end))"
  using assms(2)
proof (induction "unat fb_end - 4096 * k" arbitrary: a k s rule: less_induct)
  case less
  show ?case
  proof (cases "a < fb_end")
    case False
    then have "unat fb_end \<le> 4096 * k" using less.prems by (simp add: word_less_nat_alt)
    then show ?thesis using False by (subst reserve_fb_loop.simps) force
  next
    case True
    let ?s = "if a div PAGE_SIZE < total_pages s then reserve_page (a div PAGE_SIZE) s else s"
    have lt: "4096 * k < unat fb_end" using True less.prems by (simp add: word_less_nat_alt)
    have next_a: "unat (a + PAGE_SIZE) = 4096 * Suc k"
    proof -
      have "unat a + unat PAGE_SIZE < 2 ^ 64" using lt less.prems assms(1) by (simp add: PAGE_SIZE_def)
      then have "unat (a + PAGE_SIZE) = unat a + unat PAGE_SIZE"
        by (intro unat_add_lem [THEN iffD1]) simp
      then show ?thesis using less.prems by (simp add: PAGE_SIZE_def)
    qed
    have page: "unat (a div PAGE_SIZE) = k" using less.prems by (simp add: unat_div PAGE_SIZE_def)
    have q_eq: "q = a div PAGE_SIZE \<longleftrightarrow> unat q = k" for q using page by (metis word_unat_eq_iff)
    have rec: "reserve_fb_loop fb_end a s = reserve_fb_loop fb_end (a + PAGE_SIZE) ?s"
      using True by (subst reserve_fb_loop.simps) simp
    have "unat fb_end - 4096 * Suc k < unat fb_end - 4096 * k" using lt by simp
    from less.hyps [OF this next_a, of ?s] obtain s' where
      s': "reserve_fb_loop fb_end (a + PAGE_SIZE) ?s = Some s'" "total_pages s' = total_pages ?s"
      "counted ?s \<longrightarrow> counted s'"
      "\<forall>q. bitmap_test s' q \<longleftrightarrow> bitmap_test ?s q \<or>
        (q < total_pages ?s \<and> Suc k \<le> unat q \<and> 4096 * unat q < unat fb_end)"
      by blast
    have tot: "total_pages ?s = total_pages s" by simp
    have step: "bitmap_test ?s q \<longleftrightarrow> bitmap_test s q \<or> (q < total_pages s \<and> unat q = k)" for q
      using q_eq [of q] by (cases "q = a div PAGE_SIZE") auto
    have "bitmap_test s' q \<longleftrightarrow> bitmap_test s q \<or>
        (q < total_pages s \<and> k \<le> unat q \<and> 4096 * unat q < unat fb_end)" for q
      unfolding s'(4) [rule_format, of q] step tot using lt by (auto simp: Suc_le_eq le_less)
    moreover have "counted s \<longrightarrow> counted s'" using s'(3) counted_reserve_page by auto
    ultimately show ?thesis using rec s'(1) s'(2) [unfolded tot] by auto
  qed
qed
lemma find_mmap_loop_chain:
  "tag_chain m t ts \<Longrightarrow> find_mmap_loop m t =
     Some (case find (\<lambda>t. tag_type m t = MULTIBOOT_TAG_TYPE_MMAP) ts of None \<Rightarrow> 0 | Some t \<Rightarrow> t)"
proof (induction ts arbitrary: t)
  case Nil
  then show ?case by (simp add: find_mmap_loop.simps)
next
  case (Cons x xs)
  then show ?case
    by (subst find_mmap_loop.simps) (auto simp: pmm_next_tag_def next_tag_def Let_def)
qed

text \<open>A memory map whose entries can be walked without wrapping around the address space.\<close>

definition mmap_wf :: "memory \<Rightarrow> u64 \<Rightarrow> bool" where
  "mmap_wf m t \<longleftrightarrow> mmap_usable m t \<and>
     unat t + unat (tag_size m t) + unat (mmap_entry_size m t) < 2 ^ 64"

definition mmap_entries :: "memory \<Rightarrow> u64 \<Rightarrow> u64 list" where
  "mmap_entries m t = entry_addrs (t + 16) (ucast (mmap_entry_size m t))
     ((unat (tag_size m t) - 16) div unat (mmap_entry_size m t))"

lemma mmap_fold_entries:
  assumes "mmap_wf m t"
  shows "mmap_fold body m t acc = Some (fold body (mmap_entries m t) acc)"
proof -
  let ?esz = "ucast (mmap_entry_size m t) :: u64" and ?lim = "t + ucast (tag_size m t)"
  have u: "mmap_usable m t" and b: "unat t + unat (tag_size m t) + unat (mmap_entry_size m t) < 2 ^ 64"
    and s16: "16 \<le> unat (tag_size m t)" and e24: "24 \<le> unat (mmap_entry_size m t)"
    using assms by (auto simp: mmap_wf_def mmap_usable_def word_le_nat_alt)
  have lim: "unat ?lim = unat t + unat (tag_size m t)"
    using b unat_add_lem [of t "ucast (tag_size m t)"] by simp
  have p: "unat (t + 16) = unat t + 16"
    using b s16 unat_add_lem [of t 16] by simp
  have "mmap_loop body ?esz ?lim (t + 16) acc = Some (fold body (mmap_entries m t) acc)"
    unfolding mmap_entries_def using b s16 e24 lim p by (intro mmap_loop_fold) simp_all
  then show ?thesis using u by (simp add: mmap_fold_def)
qed

lemma page_span_bound:
  assumes "e \<in> set es" and "pages = fold (max_addr_body m) es 0 div PAGE_SIZE"
  shows "page_span m e \<subseteq> {q. q < (if pages = 0 then 1 else pages)}"
proof
  fix q assume q: "q \<in> page_span m e"
  then have "q < (entry_base m e + entry_length m e) div PAGE_SIZE"
    and "entry_type m e = MULTIBOOT_MEMORY_AVAILABLE"
    by (auto simp: page_span_def split: if_splits)
  moreover from this have "(entry_base m e + entry_length m e) div PAGE_SIZE \<le> pages"
    unfolding assms(2) using max_addr_fold_bound [OF assms(1)]
    by (simp add: word_le_nat_alt unat_div div_le_mono)
  ultimately show "q \<in> {q. q < (if pages = 0 then 1 else pages)}" by auto
qed

lemma byte_full: "k < 8 \<Longrightarrow> bit (0xFF :: u8) k"
proof -
  have "(0xFF :: u8) = - 1" by simp
  then show "k < 8 \<Longrightarrow> bit (0xFF :: u8) k" by (simp only: bit_minus_1_iff) simp
qed

lemma ceil_div8:
  assumes "(q :: nat) < p"
  shows "q div 8 < (if p mod 8 \<noteq> 0 then p div 8 + 1 else p div 8)"
proof -
  have d: "8 * (q div 8) + q mod 8 = q" "8 * (p div 8) + p mod 8 = p" "p mod 8 < 8" by simp_all
  then have "q div 8 < p div 8 + 1" using assms by linarith
  moreover have "q div 8 < p div 8" if "p mod 8 = 0" using assms d that by linarith
  ultimately show ?thesis by simp
qed

lemma bitmap_fill_spec:
  assumes "0 < pages"
  shows "total_pages (bitmap_fill pages s) = pages" and "used_set (bitmap_fill pages s) = {q. q < pages}"
    and "counted (bitmap_fill pages s)"
proof -
  have "q div 8 < (if pages mod 8 \<noteq> 0 then pages div 8 + 1 else pages div 8)" if "q < pages" for q
  proof -
    have q: "unat q < unat pages" using that by (simp add: word_less_nat_alt)
    have m: "pages mod 8 = 0 \<longleftrightarrow> unat pages mod 8 = 0"
      by (simp add: word_unat_eq_iff unat_mod)
    have "unat pages div 8 < 2 ^ 64 - 1" using unat_u64_less [of pages] by simp
    then have d: "unat (pages div 8 + 1) = unat pages div 8 + 1"
      using unat_add_lem [of "pages div 8" 1] by (simp add: unat_div)
    have "unat q div 8 < (if unat pages mod 8 \<noteq> 0 then unat pages div 8 + 1 else unat pages div 8)"
      using q by (rule ceil_div8)
    then show ?thesis using m d by (simp add: word_less_nat_alt unat_div split: if_splits)
  qed
  then have bit: "bitmap_test (bitmap_fill pages s) q" if "q < pages" for q
    using that unat_mod8_less [of q] byte_full
    by (simp add: bitmap_test_bit bitmap_fill_def Let_def)
  show "total_pages (bitmap_fill pages s) = pages" by (simp add: bitmap_fill_def Let_def)
  then show u: "used_set (bitmap_fill pages s) = {q. q < pages}" using bit by (auto simp: used_set_def)
  have "page_range 0 pages = {q. q < pages}"
    by (auto simp: page_range_def word_less_nat_alt)
  then have "card {q. q < pages} = unat pages"
    using card_page_range [of 0 pages] unat_u64_less [of pages] by simp
  then show "counted (bitmap_fill pages s)"
    using u by (simp add: counted_def bitmap_fill_def Let_def)
qed

text \<open>The pages of the framebuffer that \<open>pmm_init\<close> withholds from allocation.\<close>

definition fb_bytes :: "vbe_mode_info \<Rightarrow> nat" where
  "fb_bytes v = unat (vbe_pitch v) * unat (vbe_height v)"

definition fb_pages :: "vbe_mode_info option \<Rightarrow> u64 set" where
  "fb_pages vbe = (case vbe of None \<Rightarrow> {}
     | Some v \<Rightarrow> if vbe_framebuffer v = 0 \<or> fb_bytes v = 0 then {}
         else {q. unat (vbe_framebuffer v) div 4096 \<le> unat q \<and>
                  4096 * unat q < unat (vbe_framebuffer v) + fb_bytes v})"

definition fb_fits :: "vbe_mode_info option \<Rightarrow> bool" where
  "fb_fits vbe \<longleftrightarrow> (case vbe of None \<Rightarrow> True
     | Some v \<Rightarrow> unat (vbe_framebuffer v) + fb_bytes v + 4096 \<le> 2 ^ 64)"

lemma fb_size: "unat (ucast (vbe_pitch v) * ucast (vbe_height v) :: u64) = fb_bytes v"
proof -
  have "unat (vbe_pitch v) < 2 ^ 32" and "unat (vbe_height v) < 2 ^ 16"
    by (rule order_less_le_trans [OF unsigned_less], simp)+
  then have "unat (vbe_pitch v) * unat (vbe_height v) < 2 ^ 32 * 2 ^ 16"
    by (intro mult_strict_mono) auto
  then show ?thesis by (simp add: unat_word_ariths fb_bytes_def)
qed

lemma reserve_framebuffer_spec:
  assumes "fb_fits vbe"
  shows "\<exists>s'. reserve_framebuffer vbe s = Some s' \<and> total_pages s' = total_pages s \<and>
    (counted s \<longrightarrow> counted s') \<and>
    (\<forall>q. bitmap_test s' q \<longleftrightarrow> bitmap_test s q \<or> (q < total_pages s \<and> q \<in> fb_pages vbe))"
proof (cases vbe)
  case None
  then show ?thesis by (simp add: reserve_framebuffer_def fb_pages_def)
next
  case (Some v)
  let ?size = "ucast (vbe_pitch v) * ucast (vbe_height v) :: u64"
  have zero: "?size = 0 \<longleftrightarrow> fb_bytes v = 0" by (simp add: fb_size [symmetric] unat_eq_0)
  show ?thesis
  proof (cases "vbe_framebuffer v = 0 \<or> fb_bytes v = 0")
    case True
    then show ?thesis using Some zero by (auto simp: reserve_framebuffer_def fb_pages_def Let_def)
  next
    case False
    then have "vbe_height v \<noteq> 0" by (auto simp: fb_bytes_def)
    then have h: "0 < vbe_height v" by (simp add: word_neq_0_conv)
    have fit: "unat (vbe_framebuffer v) + fb_bytes v + 4096 \<le> 2 ^ 64"
      using assms Some by (simp add: fb_fits_def)
    then have lim: "unat (vbe_framebuffer v + ?size) = unat (vbe_framebuffer v) + fb_bytes v"
      using unat_add_lem [of "vbe_framebuffer v" ?size] by (simp add: fb_size)
    have "PAGE_SIZE - 1 = mask 12" by (simp add: PAGE_SIZE_def mask_eq_exp_minus_1)
    then have al: "unat (vbe_framebuffer v AND NOT (PAGE_SIZE - 1)) =
        4096 * (unat (vbe_framebuffer v) div 4096)"
      using unat_align [of "vbe_framebuffer v" 12] by simp
    have "reserve_framebuffer vbe s =
        reserve_fb_loop (vbe_framebuffer v + ?size) (vbe_framebuffer v AND NOT (PAGE_SIZE - 1)) s"
      using Some False zero h by (simp add: reserve_framebuffer_def Let_def)
    with reserve_fb_loop_spec [OF _ al, of "vbe_framebuffer v + ?size" s] lim fit False Some
    show ?thesis by (simp add: fb_pages_def)
  qed
qed


definition demo_mmap :: memory where
  "demo_mmap = wr_bytes (\<lambda>_. 0) 8
     ([6, 0, 0, 0, 40, 0, 0, 0, 24, 0, 0, 0, 0, 0, 0, 0] @ le_list 8 (0x100000 :: u64) @
      le_list 8 (0x100000 :: u64) @ [1, 0, 0, 0, 0, 0, 0, 0])"

definition demo_pmm :: pmm where
  "demo_pmm = \<lparr>bitmap = (\<lambda>_. 0)(0 := 1), total_pages = 4, used_pages = 1, bitmap_size = 1\<rparr>"


lemma demo_pmm_ok: "pmm_ok demo_pmm"
proof -
  have "bitmap_test demo_pmm q \<longleftrightarrow> q = 0" if "q < 4" for q
  proof -
    have "q = 0 \<or> q = 1 \<or> q = 2 \<or> q = 3" using that by (auto simp: word_less_nat_alt word_unat_eq_iff)
    moreover have "bitmap_test demo_pmm 0" "\<not> bitmap_test demo_pmm 1" "\<not> bitmap_test demo_pmm 2"
      "\<not> bitmap_test demo_pmm 3" by code_simp+
    ultimately show ?thesis by auto
  qed
  then have "used_set demo_pmm = {0}" by (auto simp: used_set_def demo_pmm_def)
  moreover have "bitmap_test demo_pmm 0" by code_simp
  ultimately show ?thesis by (simp add: pmm_ok_def counted_def demo_pmm_def)
qed

theorem pmm_alloc_contiguous_first_fit_witness:
  "\<exists>s'. pmm_alloc_contiguous_pages 2 demo_pmm = Some (0x1000, s') \<and> pmm_ok s' \<and>
     used_set (pmm_free_contiguous 0x1000 2 s') = used_set demo_pmm"
proof -
  have "map_option fst (pmm_alloc_contiguous_pages 2 demo_pmm) = Some 0x1000" by code_simp
  then show ?thesis using pmm_alloc_contiguous_first_fit [OF demo_pmm_ok, of 2] by auto
qed

text \<open>
  A client of the allocator: it allocates, keeps the set of pages it was given, and frees
  pages of that set.
\<close>

inductive pmm_run :: "pmm \<Rightarrow> u64 set \<Rightarrow> pmm \<Rightarrow> bool" for s0 where
  start: "pmm_run s0 {} s0"
| alloc: "\<lbrakk>pmm_run s0 live s; pmm_alloc_page s = (p, s'); p \<noteq> 0\<rbrakk> \<Longrightarrow> pmm_run s0 (insert p live) s'"
| full: "\<lbrakk>pmm_run s0 live s; pmm_alloc_page s = (0, s')\<rbrakk> \<Longrightarrow> pmm_run s0 live s'"
| free: "\<lbrakk>pmm_run s0 live s; p \<in> live\<rbrakk> \<Longrightarrow> pmm_run s0 (live - {p}) (pmm_free_page p s)"

lemma pmm_run_owns:
  assumes "pmm_run s0 live s" and "pmm_ok s0"
  shows "pm.owns (used_addrs s0) live s"
  using assms
proof (induction rule: pmm_run.induct)
  case start
  then show ?case by (simp add: pm.owns_def)
next
  case (alloc live s p s')
  then show ?case using pm.owns_alloc [of "used_addrs s0" live s p s'] by (simp add: alloc_opt_def)
next
  case (full live s s')
  then have "s' = s" using pm.alloc_None [of s s'] by (simp add: alloc_opt_def pm.owns_def)
  then show ?case using full by simp
next
  case (free live s p)
  then show ?case by (simp add: pm.owns_free)
qed

text \<open>
  C1: whatever a client does, the pages it holds are disjoint from the pages in use before it
  started, the pages in use are exactly those two sets together, and the next page it is given
  is in neither: no physical page ever has two owners.
\<close>

theorem pmm_no_page_shared:
  assumes "pmm_run s0 live s" and "pmm_ok s0"
  shows "pmm_ok s \<and> used_addrs s = used_addrs s0 \<union> live \<and> used_addrs s0 \<inter> live = {} \<and>
    (\<forall>p s'. pmm_alloc_page s = (p, s') \<longrightarrow> p = 0 \<or> p \<notin> used_addrs s0 \<and> p \<notin> live)"
proof -
  have o: "pm.owns (used_addrs s0) live s" using assms by (rule pmm_run_owns)
  have "p \<notin> used_addrs s0 \<and> p \<notin> live" if "pmm_alloc_page s = (p, s')" "p \<noteq> 0" for p s'
    using pm.owns_alloc [OF o, of p s'] that by (simp add: alloc_opt_def)
  then show ?thesis using o by (auto simp: pm.owns_def)
qed

theorem pmm_no_page_shared_witness:
  "used_addrs (snd (pmm_alloc_page demo_pmm)) = used_addrs demo_pmm \<union> {0x1000} \<and>
   0x1000 \<notin> used_addrs demo_pmm"
proof -
  have p: "fst (pmm_alloc_page demo_pmm) = 0x1000" by code_simp
  then have "pmm_alloc_page demo_pmm = (0x1000, snd (pmm_alloc_page demo_pmm))"
    by (metis prod.collapse)
  then have "pmm_run demo_pmm {0x1000} (snd (pmm_alloc_page demo_pmm))"
    by (rule pmm_run.alloc [OF pmm_run.start]) simp
  note r = pmm_no_page_shared [OF this demo_pmm_ok, THEN conjunct2]
  show ?thesis using r [THEN conjunct1] r [THEN conjunct2, THEN conjunct1] by simp
qed

end
