(* ===== verification/Vmm.thy ===== *)
theory Vmm
  imports Pmm
begin

text \<open>
  Virtual memory, \<open>src/kernel/vmm.c\<close> and \<open>vmm_cow.c\<close>: four-level page tables in physical
  memory, read and written as 64-bit entries. \<open>machine\<close> is the part of the processor the
  code touches, memory and CR3; \<open>invlpg\<close> and reloads of CR3 act on the TLB only, which the
  model does not have.
\<close>

record machine =
  mem :: memory
  cr3 :: u64

definition PAGE_PRESENT :: u64 where "PAGE_PRESENT = 1"
definition PAGE_WRITE :: u64 where "PAGE_WRITE = 2"
definition PAGE_USER :: u64 where "PAGE_USER = 4"
definition PAGE_NX :: u64 where "PAGE_NX = 0x8000000000000000"
definition PD_PS :: u64 where "PD_PS = 0x80"

lemmas page_flag_defs = PAGE_PRESENT_def PAGE_WRITE_def PAGE_USER_def PAGE_NX_def PD_PS_def

definition PML4_INDEX :: "u64 \<Rightarrow> u64" where "PML4_INDEX addr = drop_bit 39 addr AND 0x1FF"
definition PDPT_INDEX :: "u64 \<Rightarrow> u64" where "PDPT_INDEX addr = drop_bit 30 addr AND 0x1FF"
definition PD_INDEX :: "u64 \<Rightarrow> u64" where "PD_INDEX addr = drop_bit 21 addr AND 0x1FF"
definition PT_INDEX :: "u64 \<Rightarrow> u64" where "PT_INDEX addr = drop_bit 12 addr AND 0x1FF"

text \<open>\<open>table[index]\<close> for \<open>uint64_t *table\<close>, and the table an entry points to.\<close>

definition cell :: "u64 \<Rightarrow> u64 \<Rightarrow> u64" where "cell table index = table + index * 8"
definition ent :: "machine \<Rightarrow> u64 \<Rightarrow> u64 \<Rightarrow> u64" where
  "ent s table index = rd64 (mem s) (cell table index)"
definition set_ent :: "u64 \<Rightarrow> u64 \<Rightarrow> u64 \<Rightarrow> machine \<Rightarrow> machine" where
  "set_ent table index v s = s\<lparr>mem := wr64 (mem s) (cell table index) v\<rparr>"
definition next_table :: "u64 \<Rightarrow> u64" where "next_table e = e AND NOT 0xFFF"

definition vmm_get_current_pml4 :: "machine \<Rightarrow> u64" where "vmm_get_current_pml4 s = cr3 s"
definition vmm_set_pml4 :: "u64 \<Rightarrow> machine \<Rightarrow> machine" where "vmm_set_pml4 pml4 s = s\<lparr>cr3 := pml4\<rparr>"
definition vmm_init :: "machine \<Rightarrow> machine" where "vmm_init s = s"

section \<open>Checks on user ranges\<close>

definition vmm_page_has_flags :: "machine \<Rightarrow> u64 \<Rightarrow> u64 \<Rightarrow> bool" where
  "vmm_page_has_flags s virt need_pte_flags =
     (let pml4 = vmm_get_current_pml4 s;
          pml4e = ent s pml4 (PML4_INDEX virt) in
      if pml4e AND PAGE_PRESENT = 0 then False
      else (let pdpte = ent s (next_table pml4e) (PDPT_INDEX virt) in
        if pdpte AND PAGE_PRESENT = 0 then False
        else (let pde = ent s (next_table pdpte) (PD_INDEX virt) in
          if pde AND PAGE_PRESENT = 0 then False
          else (let m = PAGE_PRESENT OR PAGE_USER OR need_pte_flags in
            if pde AND PD_PS \<noteq> 0 then pde AND m = m
            else (let pte = ent s (next_table pde) (PT_INDEX virt) in pte AND m = m)))))"

definition vmm_page_user_readable :: "machine \<Rightarrow> u64 \<Rightarrow> bool" where
  "vmm_page_user_readable s virt = vmm_page_has_flags s virt 0"

definition vmm_page_user_writable :: "machine \<Rightarrow> u64 \<Rightarrow> bool" where
  "vmm_page_user_writable s virt = vmm_page_has_flags s virt PAGE_WRITE"

text \<open>
  The loop of both range checks, over its page test. It is partial: if the range reaches
  the last page of the address space, \<open>pg += PAGE_SIZE\<close> wraps and the loop starts over.
\<close>

partial_function (option) page_loop :: "(u64 \<Rightarrow> bool) \<Rightarrow> u64 \<Rightarrow> u64 \<Rightarrow> bool option" where
  "page_loop ok last_page pg =
     (if pg \<le> last_page
      then if \<not> ok pg then Some False else page_loop ok last_page (pg + PAGE_SIZE)
      else Some True)"

definition user_range_check :: "(u64 \<Rightarrow> bool) \<Rightarrow> u64 \<Rightarrow> u64 \<Rightarrow> bool option" where
  "user_range_check ok addr len =
     (if len = 0 then Some True
      else if addr + len < addr then Some False
      else (let last = addr + len - 1;
                first_page = addr AND NOT (PAGE_SIZE - 1);
                last_page = last AND NOT (PAGE_SIZE - 1) in
        page_loop ok last_page first_page))"

definition vmm_user_range_readable :: "machine \<Rightarrow> u64 \<Rightarrow> u64 \<Rightarrow> bool option" where
  "vmm_user_range_readable s addr len = user_range_check (vmm_page_user_readable s) addr len"

definition vmm_user_range_writable :: "machine \<Rightarrow> u64 \<Rightarrow> u64 \<Rightarrow> bool option" where
  "vmm_user_range_writable s addr len = user_range_check (vmm_page_user_writable s) addr len"

section \<open>Opening a 2 MiB region to user mode\<close>

definition vmm_grant_user_2mb_region :: "u64 \<Rightarrow> bool \<Rightarrow> machine \<Rightarrow> machine" where
  "vmm_grant_user_2mb_region virt user_writable s =
     (let pml4 = vmm_get_current_pml4 s; i4 = PML4_INDEX virt; pml4e = ent s pml4 i4 in
      if pml4e AND PAGE_PRESENT = 0 then s
      else (let s = set_ent pml4 i4 (pml4e OR PAGE_USER) s;
                pdpt = next_table pml4e; i3 = PDPT_INDEX virt; pdpte = ent s pdpt i3 in
        if pdpte AND PAGE_PRESENT = 0 then s
        else (let s = set_ent pdpt i3 (pdpte OR PAGE_USER) s;
                  pd = next_table pdpte; idx = PD_INDEX virt in
          if ent s pd idx AND PAGE_PRESENT \<noteq> 0
          then (let e = ent s pd idx;
                    e = e AND NOT PAGE_NX;
                    e = e OR PAGE_USER;
                    e = (if user_writable then e OR PAGE_WRITE else e AND NOT PAGE_WRITE) in
            set_ent pd idx e s)
          else s)))"

definition vmm_flush_tlb_all :: "machine \<Rightarrow> machine" where
  "vmm_flush_tlb_all s = s\<lparr>cr3 := vmm_get_current_pml4 s\<rparr>"

section \<open>Mapping\<close>

text \<open>These routines also allocate pages; their state is a machine with the allocator.\<close>

definition get_next_level ::
    "u64 \<Rightarrow> u64 \<Rightarrow> u64 \<Rightarrow> machine \<times> pmm \<Rightarrow> u64 \<times> (machine \<times> pmm)" where
  "get_next_level current_level index flags sp =
     (case sp of (s, p) \<Rightarrow>
      if ent s current_level index AND PAGE_PRESENT = 0
      then (case pmm_alloc_page p of (new_page, p) \<Rightarrow>
        if new_page = 0 then (0, (s, p))
        else (let s = s\<lparr>mem := wr_bytes (mem s) new_page (replicate 4096 0)\<rparr>;
                  s = set_ent current_level index (new_page OR flags OR PAGE_PRESENT) s in
          (next_table (ent s current_level index), (s, p))))
      else (next_table (ent s current_level index), (s, p)))"

definition vmm_map :: "u64 \<Rightarrow> u64 \<Rightarrow> u64 \<Rightarrow> u64 \<Rightarrow> machine \<times> pmm \<Rightarrow> machine \<times> pmm" where
  "vmm_map pml4_phys virt phys flags sp =
     (case get_next_level pml4_phys (PML4_INDEX virt) flags sp of (pdpt, sp) \<Rightarrow>
      if pdpt = 0 then sp
      else case get_next_level pdpt (PDPT_INDEX virt) flags sp of (pd, sp) \<Rightarrow>
      if pd = 0 then sp
      else case get_next_level pd (PD_INDEX virt) flags sp of (pt, (s, p)) \<Rightarrow>
      if pt = 0 then (s, p)
      else (set_ent pt (PT_INDEX virt) ((phys AND NOT 0xFFF) OR flags OR PAGE_PRESENT) s, p))"

definition vmm_unmap :: "u64 \<Rightarrow> u64 \<Rightarrow> machine \<Rightarrow> machine" where
  "vmm_unmap pml4_phys virt s =
     (if ent s pml4_phys (PML4_INDEX virt) AND PAGE_PRESENT = 0 then s
      else (let pdpt = next_table (ent s pml4_phys (PML4_INDEX virt)) in
        if ent s pdpt (PDPT_INDEX virt) AND PAGE_PRESENT = 0 then s
        else (let pd = next_table (ent s pdpt (PDPT_INDEX virt)) in
          if ent s pd (PD_INDEX virt) AND PAGE_PRESENT = 0 then s
          else (let pt = next_table (ent s pd (PD_INDEX virt)) in
            set_ent pt (PT_INDEX virt) 0 s))))"

definition vmm_create_address_space :: "machine \<times> pmm \<Rightarrow> u64 \<times> (machine \<times> pmm)" where
  "vmm_create_address_space sp =
     (case sp of (s, p) \<Rightarrow>
      case pmm_alloc_page p of (new_pml4, p) \<Rightarrow>
        if new_pml4 = 0 then (0, (s, p))
        else (let current_pml4 = vmm_get_current_pml4 s in
          (new_pml4, (fold (\<lambda>i s. set_ent new_pml4 (of_nat i) (ent s current_pml4 (of_nat i)) s)
                        [0..<512] s, p))))"

definition vmm_mark_process_cow :: "u64 \<Rightarrow> machine \<Rightarrow> machine" where
  "vmm_mark_process_cow pml4_phys s = s"

definition vmm_try_handle_cow_fault :: "u64 \<Rightarrow> u64 \<Rightarrow> int" where
  "vmm_try_handle_cow_fault fault_addr err_code = -1"

section \<open>The page tests look at pages\<close>

lemma page_align_mask: "PAGE_SIZE - 1 = mask 12"
  by (simp add: PAGE_SIZE_def mask_eq_exp_minus_1)

lemma drop_bit_page: "12 \<le> k \<Longrightarrow> drop_bit k (x AND NOT (mask 12)) = drop_bit k (x :: u64)"
  by (rule bit_eqI) (auto simp: bit_simps dest: bit_imp_le_length)

lemma index_page:
  "PML4_INDEX (x AND NOT (PAGE_SIZE - 1)) = PML4_INDEX x"
  "PDPT_INDEX (x AND NOT (PAGE_SIZE - 1)) = PDPT_INDEX x"
  "PD_INDEX (x AND NOT (PAGE_SIZE - 1)) = PD_INDEX x"
  "PT_INDEX (x AND NOT (PAGE_SIZE - 1)) = PT_INDEX x"
  unfolding PML4_INDEX_def PDPT_INDEX_def PD_INDEX_def PT_INDEX_def page_align_mask
  by (simp_all only: drop_bit_page)

lemma vmm_page_has_flags_page:
  "vmm_page_has_flags s (x AND NOT (PAGE_SIZE - 1)) f = vmm_page_has_flags s x f"
  by (simp only: vmm_page_has_flags_def index_page)

text \<open>The loop, over the pages with numbers \<open>k, \<dots>, n\<close>.\<close>

lemma page_loop_pages:
  assumes "unat last_page = 4096 * n" and "4096 * n + 4096 < 2 ^ 64"
    and "unat pg = 4096 * k" and "k \<le> n + 1"
  shows "page_loop ok last_page pg = Some (\<forall>j. k \<le> j \<and> j \<le> n \<longrightarrow> ok (of_nat (4096 * j)))"
  using assms(3,4)
proof (induction "n + 1 - k" arbitrary: k pg)
  case 0
  then have "\<not> pg \<le> last_page" using assms(1) by (simp add: word_le_nat_alt)
  then show ?case using 0 by (subst page_loop.simps) auto
next
  case (Suc d)
  then have k: "k \<le> n" by simp
  then have le: "pg \<le> last_page" using assms(1) Suc.prems by (simp add: word_le_nat_alt)
  have "unat pg + unat PAGE_SIZE < 2 ^ 64" using k assms(2) Suc.prems by (simp add: PAGE_SIZE_def)
  then have nxt: "unat (pg + PAGE_SIZE) = 4096 * (k + 1)"
    using unat_add_lem [of pg PAGE_SIZE] Suc.prems by (simp add: PAGE_SIZE_def)
  have pg: "pg = of_nat (4096 * k)"
    using Suc.prems(1) by (metis word_unat_eq_iff unat_of_nat_u64 unat_u64_less)
  have IH: "page_loop ok last_page (pg + PAGE_SIZE) =
      Some (\<forall>j. k + 1 \<le> j \<and> j \<le> n \<longrightarrow> ok (of_nat (4096 * j)))"
    using Suc.hyps(2) k by (intro Suc.hyps(1) [OF _ nxt]) auto
  have "(\<forall>j. k \<le> j \<and> j \<le> n \<longrightarrow> ok (of_nat (4096 * j))) \<longleftrightarrow>
      ok pg \<and> (\<forall>j. k + 1 \<le> j \<and> j \<le> n \<longrightarrow> ok (of_nat (4096 * j)))"
    unfolding pg using k by (metis Suc_eq_plus1 Suc_leD le_antisym not_less_eq_eq order_refl)
  then show ?case using le IH by (subst page_loop.simps) auto
qed
lemma page_of_nat: "x AND NOT (PAGE_SIZE - 1) = of_nat (4096 * (unat x div 4096))"
proof -
  have "4096 * (unat x div 4096) < 2 ^ 64"
    using unat_u64_less [of x] by (rule order_le_less_trans [rotated]) simp
  then have "unat (of_nat (4096 * (unat x div 4096)) :: u64) = 4096 * (unat x div 4096)"
    by (rule unat_of_nat_u64)
  moreover have "(2 :: nat) ^ 12 = 4096" by simp
  ultimately show ?thesis
    using unat_align [of x 12] by (simp only: word_unat_eq_iff page_align_mask)
qed

lemma user_range_check_iff:
  assumes page: "\<And>x. ok (x AND NOT (PAGE_SIZE - 1)) = ok x"
    and fit: "unat addr + unat len + 4096 \<le> 2 ^ 64"
  shows "user_range_check ok addr len = Some (\<forall>k<len. ok (addr + k))"
proof (cases "len = 0")
  case True
  then show ?thesis by (simp add: user_range_check_def)
next
  case False
  then have len: "0 < unat len" by (simp add: unat_gt_0)
  have offs: "unat (addr + k) = unat addr + unat k" if "k < len" for k
    using that fit unat_add_lem [of addr k] by (simp add: word_less_nat_alt)
  have sum: "unat (addr + len) = unat addr + unat len"
    using fit unat_add_lem [of addr len] by simp
  then have no_wrap: "\<not> addr + len < addr" by (simp add: word_less_nat_alt)
  have "len - 1 < len" using False len by (simp add: word_less_nat_alt unat_minus_one)
  then have last: "unat (addr + len - 1) = unat addr + unat len - 1"
    using offs [of "len - 1"] False len by (simp add: unat_minus_one add_diff_eq [symmetric])
  let ?f = "unat addr div 4096" and ?n = "(unat addr + unat len - 1) div 4096"
  have al: "unat (x AND NOT (PAGE_SIZE - 1)) = 4096 * (unat x div 4096)" for x
    using unat_align [of x 12] by (simp only: page_align_mask) simp
  have "user_range_check ok addr len =
      page_loop ok ((addr + len - 1) AND NOT (PAGE_SIZE - 1)) (addr AND NOT (PAGE_SIZE - 1))"
    using False no_wrap by (simp add: user_range_check_def Let_def)
  also have "\<dots> = Some (\<forall>j. ?f \<le> j \<and> j \<le> ?n \<longrightarrow> ok (of_nat (4096 * j)))"
    using fit len last al by (intro page_loop_pages) (auto simp: div_le_mono le_SucI)
  also have "(\<forall>j. ?f \<le> j \<and> j \<le> ?n \<longrightarrow> ok (of_nat (4096 * j))) \<longleftrightarrow> (\<forall>k<len. ok (addr + k))"
  proof (intro iffI allI impI)
    fix k assume pages: "\<forall>j. ?f \<le> j \<and> j \<le> ?n \<longrightarrow> ok (of_nat (4096 * j))" and k: "k < len"
    have "unat k \<le> unat len - 1" using k by (simp add: word_less_nat_alt)
    then have "?f \<le> unat (addr + k) div 4096 \<and> unat (addr + k) div 4096 \<le> ?n"
      using offs [OF k] len by (auto intro!: div_le_mono)
    then show "ok (addr + k)" using pages page [of "addr + k"] by (simp add: page_of_nat)
  next
    fix j assume bytes: "\<forall>k<len. ok (addr + k)" and j: "?f \<le> j \<and> j \<le> ?n"
    have range: "unat addr < 4096 * j + 4096" "4096 * j \<le> unat addr + unat len - 1"
    proof -
      have "unat addr = 4096 * ?f + unat addr mod 4096" "unat addr mod 4096 < 4096" by simp_all
      then show "unat addr < 4096 * j + 4096" using j by linarith
      show "4096 * j \<le> unat addr + unat len - 1"
        using j div_times_less_eq_dividend [of "unat addr + unat len - 1" 4096] by linarith
    qed
    define k where "k = max (4096 * j) (unat addr) - unat addr"
    have k: "k < unat len" "(unat addr + k) div 4096 = j"
      using range len by (auto simp: k_def max_def)
    then have kl: "of_nat k < len" using unat_u64_less [of len] by (simp add: word_less_nat_alt)
    then have "unat (addr + of_nat k) div 4096 = j"
      using offs [OF kl] k unat_u64_less [of len] by simp
    then show "ok (of_nat (4096 * j))"
      using bytes kl page [of "addr + of_nat k"] by (simp add: page_of_nat)
  qed
  finally show ?thesis .
qed


text \<open>Tables for a witness: one 2 MiB page at 0x400000 through tables at 0x1000, 0x2000, 0x3000.\<close>

definition demo_tables :: "u64 \<Rightarrow> machine" where
  "demo_tables pde = \<lparr>mem = wr64 (wr64 (wr64 (\<lambda>_. 0) 0x1000 0x2003) 0x2000 0x3003) 0x3010 pde,
     cr3 = 0x1000\<rparr>"


section \<open>The table entries as a store\<close>

lemma aligned_plus8: "8 dvd unat t \<Longrightarrow> 8 dvd unat (t + i * 8 :: u64)"
  by (auto simp: unat_word_ariths intro!: dvd_mod dvd_add)

lemma next_table_aligned: "8 dvd unat (next_table e)"
proof -
  have "(0xFFF :: u64) = mask 12" by (simp add: mask_eq_exp_minus_1)
  then have "unat (next_table e) = 4096 * (unat e div 4096)"
    using unat_align [of e 12] by (simp only: next_table_def) simp
  then show ?thesis by (auto simp: dvd_def)
qed

lemma cell_aligned: "8 dvd unat t \<Longrightarrow> 8 dvd unat (cell t i)"
  by (simp add: cell_def aligned_plus8)

lemma ent_set_ent_same [simp]: "ent (set_ent t i v s) t i = v"
  by (simp add: ent_def set_ent_def mem_simps)

lemma ent_set_ent_other:
  assumes "8 dvd unat t" and "8 dvd unat u" and "cell t i \<noteq> cell u j"
  shows "ent (set_ent u j v s) t i = ent s t i"
  using separate_aligned8 [OF cell_aligned cell_aligned, OF assms]
  by (simp add: ent_def set_ent_def rd64_wr64_separate)

lemma cr3_set_ent [simp]: "cr3 (set_ent t i v s) = cr3 s"
  by (simp add: set_ent_def)

text \<open>
  The three entries on the path to a 2 MiB page, and what the processor requires of them:
  every entry present and open to user mode, and the last one a large page.
\<close>

record path2m =
  p4e :: u64
  p3e :: u64
  p2e :: u64

definition path_of :: "machine \<Rightarrow> u64 \<Rightarrow> path2m" where
  "path_of s virt =
     (let e4 = ent s (cr3 s) (PML4_INDEX virt);
          e3 = ent s (next_table e4) (PDPT_INDEX virt);
          e2 = ent s (next_table e3) (PD_INDEX virt) in
      \<lparr>p4e = e4, p3e = e3, p2e = e2\<rparr>)"

definition path_present :: "path2m \<Rightarrow> bool" where
  "path_present p \<longleftrightarrow> p4e p AND PAGE_PRESENT \<noteq> 0 \<and> p3e p AND PAGE_PRESENT \<noteq> 0 \<and>
     p2e p AND PAGE_PRESENT \<noteq> 0 \<and> p2e p AND PD_PS \<noteq> 0"

definition path_user :: "path2m \<Rightarrow> bool" where
  "path_user p \<longleftrightarrow> path_present p \<and> p4e p AND PAGE_USER \<noteq> 0 \<and> p3e p AND PAGE_USER \<noteq> 0 \<and>
     p2e p AND PAGE_USER \<noteq> 0"

text \<open>The three entries are different cells of memory.\<close>

definition path_distinct :: "machine \<Rightarrow> u64 \<Rightarrow> bool" where
  "path_distinct s virt \<longleftrightarrow>
     (let p = path_of s virt;
          c4 = cell (cr3 s) (PML4_INDEX virt);
          c3 = cell (next_table (p4e p)) (PDPT_INDEX virt);
          c2 = cell (next_table (p3e p)) (PD_INDEX virt) in
      8 dvd unat (cr3 s) \<and> c4 \<noteq> c3 \<and> c4 \<noteq> c2 \<and> c3 \<noteq> c2)"

lemma next_table_user: "next_table (e OR PAGE_USER) = next_table e"
  unfolding next_table_def PAGE_USER_def
proof -
  have "(4 :: u64) AND NOT 0xFFF = 0" by simp
  then show "(e OR 4) AND NOT 0xFFF = e AND NOT (0xFFF :: u64)"
    by (simp add: bit.conj_disj_distrib2)
qed

lemma grant_path:
  assumes "path_present (path_of s virt)" and "path_distinct s virt"
  shows "path_of (vmm_grant_user_2mb_region virt w s) virt =
    \<lparr>p4e = p4e (path_of s virt) OR PAGE_USER, p3e = p3e (path_of s virt) OR PAGE_USER,
     p2e = (let e = (p2e (path_of s virt) AND NOT PAGE_NX) OR PAGE_USER in
            if w then e OR PAGE_WRITE else e AND NOT PAGE_WRITE)\<rparr>"
proof -
  define e4 where "e4 = ent s (cr3 s) (PML4_INDEX virt)"
  define e3 where "e3 = ent s (next_table e4) (PDPT_INDEX virt)"
  define e2 where "e2 = ent s (next_table e3) (PD_INDEX virt)"
  have p: "path_of s virt = \<lparr>p4e = e4, p3e = e3, p2e = e2\<rparr>"
    by (simp add: path_of_def e4_def e3_def e2_def Let_def)
  have d: "8 dvd unat (cr3 s)" "cell (cr3 s) (PML4_INDEX virt) \<noteq> cell (next_table e4) (PDPT_INDEX virt)"
    "cell (cr3 s) (PML4_INDEX virt) \<noteq> cell (next_table e3) (PD_INDEX virt)"
    "cell (next_table e4) (PDPT_INDEX virt) \<noteq> cell (next_table e3) (PD_INDEX virt)"
    using assms(2) by (simp_all add: path_distinct_def p Let_def)
  note other = ent_set_ent_other [OF d(1) next_table_aligned] ent_set_ent_other [OF next_table_aligned d(1)]
    ent_set_ent_other [OF next_table_aligned next_table_aligned]
  show ?thesis
    using assms(1) d
    by (simp add: p path_present_def vmm_grant_user_2mb_region_def vmm_get_current_pml4_def Let_def
        e4_def [symmetric] e3_def [symmetric] e2_def [symmetric] other path_of_def next_table_user)
qed

lemma has_flags_path:
  assumes "path_present (path_of s virt)"
  shows "vmm_page_has_flags s virt f \<longleftrightarrow>
    p2e (path_of s virt) AND (PAGE_PRESENT OR PAGE_USER OR f) = PAGE_PRESENT OR PAGE_USER OR f"
  using assms
  by (simp add: path_present_def path_of_def vmm_page_has_flags_def vmm_get_current_pml4_def Let_def)

lemma flag_eqs:
  "PAGE_PRESENT = 2 ^ 0" "PAGE_WRITE = 2 ^ 1" "PAGE_USER = 2 ^ 2" "PD_PS = 2 ^ 7" "PAGE_NX = 2 ^ 63"
  by (simp_all add: page_flag_defs)

lemma flag_bit_iff [simp]:
  "bit PAGE_PRESENT n \<longleftrightarrow> n = 0" "bit PAGE_WRITE n \<longleftrightarrow> n = 1" "bit PAGE_USER n \<longleftrightarrow> n = 2"
  "bit PD_PS n \<longleftrightarrow> n = 7" "bit PAGE_NX n \<longleftrightarrow> n = 63"
  unfolding flag_eqs bit_exp_iff by auto

lemma flag_bits:
  "(e AND PAGE_PRESENT \<noteq> 0) = bit e 0" "(e AND PAGE_WRITE \<noteq> 0) = bit e 1"
  "(e AND PAGE_USER \<noteq> 0) = bit e 2" "(e AND PD_PS \<noteq> 0) = bit e 7"
  unfolding flag_eqs and_exp_eq_0_iff_not_bit by auto

lemma all_flags_iff: "e AND m = m \<longleftrightarrow> (\<forall>n. bit m n \<longrightarrow> bit e n)" for e m :: u64
proof
  assume "e AND m = m"
  then have "bit (e AND m) n = bit m n" for n by simp
  then show "\<forall>n. bit m n \<longrightarrow> bit e n" by (auto simp: bit_and_iff)
qed (auto intro!: bit_eqI simp: bit_and_iff)

text \<open>
  C18: \<open>vmm_grant_user_2mb_region\<close> opens a present 2 MiB page to user mode on every level of
  the path. Afterwards every address of the page passes the read check, it passes the write
  check exactly when the page was granted writable, and execution is no longer disabled.
\<close>

theorem vmm_grant_opens_region:
  assumes "path_present (path_of s virt)" and "path_distinct s virt"
    and "s' = vmm_grant_user_2mb_region virt w s"
    and "PML4_INDEX x = PML4_INDEX virt" "PDPT_INDEX x = PDPT_INDEX virt" "PD_INDEX x = PD_INDEX virt"
  shows "path_user (path_of s' x) \<and> vmm_page_user_readable s' x \<and>
    (vmm_page_user_writable s' x \<longleftrightarrow> w) \<and> p2e (path_of s' x) AND PAGE_NX = 0 \<and>
    (\<forall>n. n \<notin> {1, 2, 63} \<longrightarrow> bit (p2e (path_of s' x)) n = bit (p2e (path_of s virt)) n)"
proof -
  have same: "path_of s' x = path_of s' virt" using assms(4-6) by (simp add: path_of_def)
  note p = grant_path [OF assms(1,2), of w, folded assms(3)]
  have pres: "bit (p4e (path_of s virt)) 0" "bit (p3e (path_of s virt)) 0"
    "bit (p2e (path_of s virt)) 0" "bit (p2e (path_of s virt)) 7"
    using assms(1) by (simp_all add: path_present_def flag_bits)
  let ?e = "p2e (path_of s' virt)"
  have e: "bit ?e n = (if n = 1 then w else if n = 2 then True else if n = 63 then False
      else bit (p2e (path_of s virt)) n)" for n
    unfolding p by (auto simp: Let_def bit_simps dest: bit_imp_le_length)
  have present: "path_present (path_of s' x)" and user: "path_user (path_of s' x)"
    using pres e unfolding same path_user_def path_present_def flag_bits
    by (auto simp: p bit_simps)
  have need: "(\<forall>n. bit (PAGE_PRESENT OR PAGE_USER OR f) n \<longrightarrow> bit ?e n) \<longleftrightarrow>
      (\<forall>n. bit f n \<longrightarrow> bit ?e n)" for f
    using e pres by (auto simp: bit_simps)
  have flags: "vmm_page_has_flags s' x f \<longleftrightarrow> (\<forall>n. bit f n \<longrightarrow> bit ?e n)" for f
    unfolding has_flags_path [OF present] all_flags_iff same by (rule need)
  have "?e AND PAGE_NX = 0" by (rule bit_eqI) (simp add: e bit_and_iff)
  then show ?thesis
    using user flags e unfolding same vmm_page_user_readable_def vmm_page_user_writable_def
    by auto
qed

lemma cr3_demo: "cr3 (demo_tables pde) = 0x1000"
  by (simp add: demo_tables_def)

theorem vmm_grant_opens_region_witness:
  "vmm_page_user_readable (vmm_grant_user_2mb_region 0x400000 False (demo_tables 0x400083)) 0x500000 \<and>
   \<not> vmm_page_user_writable (vmm_grant_user_2mb_region 0x400000 False (demo_tables 0x400083)) 0x500000"
proof -
  have h: "path_of (demo_tables 0x400083) 0x400000 = \<lparr>p4e = 0x2003, p3e = 0x3003, p2e = 0x400083\<rparr>"
    "PML4_INDEX 0x500000 = PML4_INDEX 0x400000" "PDPT_INDEX 0x500000 = PDPT_INDEX 0x400000"
    "PD_INDEX 0x500000 = PD_INDEX 0x400000"
    "cell 0x1000 (PML4_INDEX 0x400000) = 0x1000" "cell (next_table 0x2003) (PDPT_INDEX 0x400000) = 0x2000"
    "cell (next_table 0x3003) (PD_INDEX 0x400000) = 0x3010"
    by code_simp+
  have d: "path_present (path_of (demo_tables 0x400083) 0x400000)"
    "path_distinct (demo_tables 0x400083) 0x400000"
    using h(5-7) by (simp_all add: h(1) path_present_def page_flag_defs path_distinct_def cr3_demo)
  show ?thesis using vmm_grant_opens_region [OF d refl h(2-4), of False] by blast
qed


end
