(* ===== verification/Klog.thy ===== *)
theory Klog
  imports CLib
begin

text \<open>
  The number printers of \<open>src/kernel/main.c\<close>. Console output is the string of the characters
  passed to \<open>putchar\<close>, in order.
\<close>

definition hex_digit :: "u64 \<Rightarrow> char" where
  "hex_digit v = ''0123456789ABCDEF'' ! unat v"

definition puts_hex :: "u64 \<Rightarrow> string" where
  "puts_hex n = ''0x'' @ map (\<lambda>i. hex_digit (drop_bit i n AND 0xF)) (rev (map (\<lambda>k. 4 * k) [0..<16]))"

function dec_buf :: "u64 \<Rightarrow> string" where
  "dec_buf n = (if n > 0 then char_of_byte (ucast (n mod 10) + 48) # dec_buf (n div 10) else [])"
  by pat_completeness auto
termination
proof (relation "measure unat", simp, goal_cases)
  case (1 n)
  then have "unat n \<noteq> 0" by (simp add: word_less_nat_alt)
  then show ?case by (simp add: unat_div)
qed

declare dec_buf.simps [simp del]

definition puts_dec :: "u64 \<Rightarrow> string" where
  "puts_dec n = (if n = 0 then ''0'' else rev (dec_buf n))"

section \<open>Decimal output\<close>

fun dec_value :: "string \<Rightarrow> nat" where
  "dec_value [] = 0"
| "dec_value (c # cs) = (of_char c - 48) + 10 * dec_value cs"

lemma digit_char: "k < 10 \<Longrightarrow> of_char (char_of_byte (of_nat k + 48)) = (k + 48 :: nat)"
proof -
  assume k: "k < 10"
  then have "unat (of_nat k + 48 :: u8) = k + 48"
    by (simp add: unat_word_ariths unat_of_nat take_bit_nat_eq_self)
  then show ?thesis using k by (simp add: char_of_byte_def)
qed

lemma digit_of_mod: "of_char (char_of_byte (ucast (n mod 10) + 48)) = (unat (n :: u64) mod 10 + 48 :: nat)"
proof -
  have "unat n mod 10 = unat (n mod 10)" by (simp add: unat_mod)
  then have d: "ucast (n mod 10) = (of_nat (unat n mod 10) :: u8)" by (simp only: of_nat_unat)
  show ?thesis unfolding d by (rule digit_char) simp
qed

lemma dec_value_dec_buf: "dec_value (dec_buf n) = unat n"
proof (induction n rule: dec_buf.induct)
  case (1 n)
  show ?case
  proof (cases "n > 0")
    case True
    then show ?thesis using 1 digit_of_mod [of n] by (subst dec_buf.simps) (simp add: unat_div)
  next
    case False
    then show ?thesis by (subst dec_buf.simps) (simp add: word_less_nat_alt)
  qed
qed

lemma length_dec_buf: "unat n < 10 ^ k \<Longrightarrow> length (dec_buf n) \<le> k"
proof (induction k arbitrary: n)
  case 0
  then show ?case by (subst dec_buf.simps) (simp add: word_less_nat_alt)
next
  case (Suc k)
  then have "unat (n div 10) < 10 ^ k" by (simp add: unat_div less_mult_imp_div_less mult.commute)
  then show ?case using Suc.IH by (subst dec_buf.simps) simp
qed

definition is_digit :: "char \<Rightarrow> bool" where
  "is_digit c \<longleftrightarrow> 48 \<le> (of_char c :: nat) \<and> (of_char c :: nat) \<le> 57"

lemma dec_buf_digits: "list_all is_digit (dec_buf n)"
proof (induction n rule: dec_buf.induct)
  case (1 n)
  have "unat n mod 10 < 10" by simp
  then have "is_digit (char_of_byte (ucast (n mod 10) + 48))"
    unfolding is_digit_def digit_of_mod by linarith
  then show ?case using 1 by (subst dec_buf.simps) simp
qed

lemma dec_buf_last: "n \<noteq> 0 \<Longrightarrow> of_char (last (dec_buf n)) \<noteq> (48 :: nat)"
proof (induction n rule: dec_buf.induct)
  case (1 n)
  show ?case
  proof (cases "n div 10 = 0")
    case True
    then have "unat (n div 10) = 0" by simp
    then have "unat n div 10 = 0" by (simp add: unat_div)
    then have "unat n mod 10 = unat n" by simp
    moreover have "unat n \<noteq> 0" using 1(2) by (simp add: unat_eq_0)
    moreover have "dec_buf n = [char_of_byte (ucast (n mod 10) + 48)]"
      using True 1(2) dec_buf.simps [of 0] by (subst dec_buf.simps) (simp add: word_neq_0_conv)
    ultimately show ?thesis using digit_of_mod [of n] by simp
  next
    case False
    then have "dec_buf (n div 10) \<noteq> []" by (subst dec_buf.simps) (simp add: word_neq_0_conv)
    then show ?thesis using 1 False by (subst dec_buf.simps) (simp add: word_neq_0_conv)
  qed
qed

text \<open>
  C26: \<open>puts_dec\<close> prints the decimal representation of the number: every character is a digit,
  most significant first, their value is the number, there is no leading zero except for the
  single character printed for zero, and the 20-byte buffer is large enough for every 64-bit
  number.
\<close>

theorem puts_dec_correct:
  "list_all is_digit (puts_dec n) \<and> dec_value (rev (puts_dec n)) = unat n \<and> puts_dec n \<noteq> [] \<and>
   (hd (puts_dec n) = CHR ''0'') = (puts_dec n = ''0'') \<and> (puts_dec n = ''0'') = (n = 0) \<and>
   length (dec_buf n) \<le> 20"
proof -
  have "unat n < 10 ^ 20" using unat_u64_less [of n] by simp
  then have len: "length (dec_buf n) \<le> 20" by (rule length_dec_buf)
  have ne: "dec_buf n \<noteq> []" if "n \<noteq> 0"
    using that by (subst dec_buf.simps) (simp add: word_neq_0_conv)
  have hd: "hd (puts_dec n) \<noteq> CHR ''0''" if "n \<noteq> 0"
    using dec_buf_last [OF that] that by (auto simp: puts_dec_def hd_rev)
  then have "puts_dec n \<noteq> ''0''" if "n \<noteq> 0" using that by fastforce
  then show ?thesis
    using dec_value_dec_buf [of n] dec_buf_digits [of n] ne hd len
    by (cases "n = 0") (simp_all add: puts_dec_def is_digit_def)
qed

end
