(* ===== verification/Proc.thy ===== *)
theory Proc
  imports Vmm Klog
begin

text \<open>
  Processes and the scheduler, \<open>src/kernel/process.c\<close> and \<open>sched.c\<close>. The task table is a list
  of \<open>MAX_TASKS\<close> records; a \<open>proc_t *\<close> into the table is the slot's number, \<open>None\<close> for \<open>NULL\<close>.
  The scheduler only relabels slots: no code of the kernel switches stacks, and neither does
  the model.
\<close>

definition MAX_TASKS :: nat where "MAX_TASKS = 16"
definition MAX_MSG_PAYLOAD :: nat where "MAX_MSG_PAYLOAD = 48"

datatype proc_state =
    PROC_STATE_FREE | PROC_STATE_READY | PROC_STATE_RUNNING | PROC_STATE_BLOCKED
  | PROC_STATE_SENDING | PROC_STATE_RECEIVING | PROC_STATE_SLEEPING | PROC_STATE_EXITED
  | PROC_STATE_WAITING_REPLY | PROC_STATE_USER_SLOT

record message =
  sender :: u64
  mtype :: u64
  payload :: "u8 list"

record proc =
  pid :: u64
  ppid :: u64
  state :: proc_state
  rsp :: u64
  stack_base :: u64
  pml4_phys :: u64
  exit_code :: int
  exited :: bool
  wait_target :: u64
  wait_result_pid :: u64
  wait_result_status :: int
  user_entry :: u64
  user_stack_top :: u64
  vm_flags :: u64
  open_files :: u64
  msg_buffer :: message
  next_in_queue :: "nat option"
  sender_queue :: "nat option"
  msg_pending :: bool

text \<open>
  The kernel state these files share: the machine, the page allocator, the fields of
  \<open>scheduler_t sched\<close>, \<open>chaseros_active_user_pid\<close> and \<open>g_sched_context_switches\<close>.
\<close>

record kcore =
  mach :: machine
  kpmm :: pmm
  tasks :: "proc list"
  current_task_idx :: nat
  task_count :: int
  chaseros_active_user_pid :: u64
  g_sched_context_switches :: u64

definition task :: "kcore \<Rightarrow> nat \<Rightarrow> proc" where "task k i = tasks k ! i"

definition upd_task :: "nat \<Rightarrow> (proc \<Rightarrow> proc) \<Rightarrow> kcore \<Rightarrow> kcore" where
  "upd_task i f k = k\<lparr>tasks := (tasks k)[i := f (tasks k ! i)]\<rparr>"

text \<open>A loop over the table that stops at the first slot with a property.\<close>

definition first_slot :: "(proc \<Rightarrow> bool) \<Rightarrow> kcore \<Rightarrow> nat option" where
  "first_slot P k = find (\<lambda>i. P (task k i)) [0..<MAX_TASKS]"

section \<open>process.c\<close>

definition process_clear_runtime :: "proc \<Rightarrow> proc" where
  "process_clear_runtime p = p\<lparr>ppid := 0, exit_code := 0, exited := False, wait_target := 0,
     wait_result_pid := 0, wait_result_status := 0, user_entry := 0, user_stack_top := 0,
     vm_flags := 0, open_files := 0, sender_queue := None, next_in_queue := None,
     msg_pending := False\<rparr>"

definition process_tasks :: "kcore \<Rightarrow> proc list" where "process_tasks k = tasks k"

definition process_sched_ready_count :: "kcore \<Rightarrow> u32" where
  "process_sched_ready_count k =
     fold (\<lambda>i n. if state (task k i) = PROC_STATE_READY then n + 1 else n) [0..<MAX_TASKS] 0"

definition get_current_process :: "kcore \<Rightarrow> nat" where
  "get_current_process k = current_task_idx k"

definition process_init :: "kcore \<Rightarrow> kcore" where
  "process_init k =
     (let k = fold (\<lambda>i. upd_task i (\<lambda>p. process_clear_runtime (p\<lparr>state := PROC_STATE_FREE\<rparr>)))
                [0..<MAX_TASKS] k;
          k = upd_task 0 (\<lambda>p. process_clear_runtime (p\<lparr>pid := 0, state := PROC_STATE_RUNNING,
                pml4_phys := vmm_get_current_pml4 (mach k)\<rparr>)) k in
      k\<lparr>current_task_idx := 0, task_count := 1\<rparr>)"

definition process_find_by_pid :: "u64 \<Rightarrow> kcore \<Rightarrow> nat option" where
  "process_find_by_pid p k = first_slot (\<lambda>t. state t \<noteq> PROC_STATE_FREE \<and> pid t = p) k"

text \<open>\<open>*(--stack_top) = v\<close> for each value in turn; the result is the final \<open>stack_top\<close>.\<close>

fun push_words :: "u64 list \<Rightarrow> u64 \<Rightarrow> memory \<Rightarrow> u64 \<times> memory" where
  "push_words [] sp m = (sp, m)"
| "push_words (v # vs) sp m = push_words vs (sp - 8) (wr64 m (sp - 8) v)"

definition init_kernel_stack :: "nat \<Rightarrow> u64 \<Rightarrow> kcore \<Rightarrow> kcore" where
  "init_kernel_stack i entry k =
     (case pmm_alloc_page (kpmm k) of (base, pm) \<Rightarrow>
       let top = base + 4096;
           (sp, m) = push_words ([0x10, top - 8, 0x202, 0x08, entry, 0, 0] @ replicate 15 0)
                       top (mem (mach k));
           k = k\<lparr>kpmm := pm, mach := (mach k)\<lparr>mem := m\<rparr>\<rparr> in
       upd_task i (\<lambda>p. p\<lparr>stack_base := base, rsp := sp,
         pml4_phys := vmm_get_current_pml4 (mach k)\<rparr>) k)"

definition bump_task_count :: "nat \<Rightarrow> kcore \<Rightarrow> kcore" where
  "bump_task_count i k = (if int i + 1 > task_count k then k\<lparr>task_count := int i + 1\<rparr> else k)"

definition process_alloc_user :: "u64 \<Rightarrow> kcore \<Rightarrow> nat option \<times> kcore" where
  "process_alloc_user pp k =
     (case first_slot (\<lambda>t. state t = PROC_STATE_FREE) k of
        None \<Rightarrow> (None, k)
      | Some i \<Rightarrow>
          (Some i, bump_task_count i
            (upd_task i (\<lambda>p. (process_clear_runtime (p\<lparr>pid := of_nat i, ppid := pp,
               state := PROC_STATE_READY, pml4_phys := vmm_get_current_pml4 (mach k)\<rparr>))
               \<lparr>pid := of_nat i, ppid := pp\<rparr>) k)))"

definition process_create :: "u64 \<Rightarrow> kcore \<Rightarrow> nat option \<times> kcore" where
  "process_create entry k =
     (case first_slot (\<lambda>t. state t = PROC_STATE_FREE) k of
        None \<Rightarrow> (None, k)
      | Some i \<Rightarrow>
          (let k = upd_task i (\<lambda>p. (process_clear_runtime (p\<lparr>pid := of_nat i, ppid := 0,
                     state := PROC_STATE_READY\<rparr>))\<lparr>pid := of_nat i\<rparr>) k;
               k = init_kernel_stack i entry k in
           (Some i, k\<lparr>task_count := task_count k + 1\<rparr>)))"

definition process_spawn_kernel_at_pid :: "u64 \<Rightarrow> u64 \<Rightarrow> kcore \<Rightarrow> nat option \<times> kcore" where
  "process_spawn_kernel_at_pid p entry k =
     (let idx = sint (ucast p :: i32) in
      if idx \<le> 0 \<or> idx \<ge> int MAX_TASKS \<or> entry = 0 then (None, k)
      else (let i = nat idx in
        if state (task k i) \<noteq> PROC_STATE_FREE then (None, k)
        else (let k = upd_task i (\<lambda>t. (process_clear_runtime (t\<lparr>pid := p, ppid := 0,
                        state := PROC_STATE_READY\<rparr>))\<lparr>pid := p\<rparr>) k;
                  k = init_kernel_stack i entry k in
          (Some i, bump_task_count i k))))"

definition process_bind_user_slot_ex :: "u64 \<Rightarrow> u64 \<Rightarrow> kcore \<Rightarrow> kcore" where
  "process_bind_user_slot_ex p pp k =
     (let idx = sint (ucast p :: i32) in
      if idx \<le> 0 \<or> idx \<ge> int MAX_TASKS then k
      else (let i = nat idx in
        if state (task k i) \<noteq> PROC_STATE_FREE \<and> pid (task k i) \<noteq> p then k
        else bump_task_count i (upd_task i (\<lambda>t.
          (process_clear_runtime (t\<lparr>pid := p, ppid := pp, state := PROC_STATE_USER_SLOT,
             pml4_phys := vmm_get_current_pml4 (mach k), stack_base := 0, rsp := 0\<rparr>))
          \<lparr>pid := p, ppid := pp, state := PROC_STATE_USER_SLOT,
           pml4_phys := vmm_get_current_pml4 (mach k)\<rparr>) k)))"

definition process_bind_user_slot :: "u64 \<Rightarrow> kcore \<Rightarrow> kcore" where
  "process_bind_user_slot p k = process_bind_user_slot_ex p 0 k"

definition process_mark_exit :: "nat option \<Rightarrow> int \<Rightarrow> kcore \<Rightarrow> kcore" where
  "process_mark_exit p status k =
     (case p of None \<Rightarrow> k
      | Some i \<Rightarrow>
        let k = upd_task i (\<lambda>t. t\<lparr>exit_code := status, exited := True, state := PROC_STATE_EXITED\<rparr>) k;
            k = (if pid (task k i) = chaseros_active_user_pid k
                 then k\<lparr>chaseros_active_user_pid := 0\<rparr> else k) in
        (case process_find_by_pid (ppid (task k i)) k of
           None \<Rightarrow> k
         | Some j \<Rightarrow>
           if state (task k j) = PROC_STATE_BLOCKED \<and>
              (wait_target (task k j) = 0 \<or> wait_target (task k j) = pid (task k i))
           then upd_task j (\<lambda>t. t\<lparr>wait_result_pid := pid (task k i), wait_result_status := status,
                  state := PROC_STATE_READY\<rparr>) k
           else k))"

text \<open>The out-parameters \<open>out_pid\<close> and \<open>out_status\<close> are the returned pair.\<close>

definition process_reap_child :: "nat option \<Rightarrow> u64 \<Rightarrow> kcore \<Rightarrow> (u64 \<times> int) option \<times> kcore" where
  "process_reap_child parent target_pid k =
     (case parent of None \<Rightarrow> (None, k)
      | Some par \<Rightarrow>
        (case first_slot (\<lambda>p. state p \<noteq> PROC_STATE_FREE \<and> ppid p = pid (task k par) \<and>
                \<not> (target_pid \<noteq> 0 \<and> pid p \<noteq> target_pid) \<and> exited p) k of
           None \<Rightarrow> (None, k)
         | Some i \<Rightarrow>
           let p = task k i;
               k = (if stack_base p \<noteq> 0 then k\<lparr>kpmm := pmm_free_page (stack_base p) (kpmm k)\<rparr> else k) in
           (Some (pid p, exit_code p),
            upd_task i (\<lambda>t. process_clear_runtime (t\<lparr>state := PROC_STATE_FREE\<rparr>)) k)))"

definition process_current_task_for_ipc :: "kcore \<Rightarrow> nat" where
  "process_current_task_for_ipc k =
     (case process_find_by_pid (chaseros_active_user_pid k) k of
        Some u \<Rightarrow>
          if chaseros_active_user_pid k \<noteq> 0 \<and>
             (state (task k u) = PROC_STATE_USER_SLOT \<or> state (task k u) = PROC_STATE_WAITING_REPLY \<or>
              state (task k u) = PROC_STATE_SENDING)
          then u else get_current_process k
      | None \<Rightarrow> get_current_process k)"

definition process_ipc_wake_from_receive :: "nat \<Rightarrow> kcore \<Rightarrow> kcore" where
  "process_ipc_wake_from_receive p k =
     (if state (task k p) \<noteq> PROC_STATE_RECEIVING then k
      else if pid (task k p) = chaseros_active_user_pid k \<and> chaseros_active_user_pid k \<noteq> 0
      then upd_task p (\<lambda>t. t\<lparr>state := PROC_STATE_USER_SLOT\<rparr>) k
      else upd_task p (\<lambda>t. t\<lparr>state := PROC_STATE_READY\<rparr>) k)"

definition process_ipc_wake_after_reply :: "nat \<Rightarrow> kcore \<Rightarrow> kcore" where
  "process_ipc_wake_after_reply peer k =
     (if state (task k peer) \<noteq> PROC_STATE_WAITING_REPLY then k
      else if pid (task k peer) = chaseros_active_user_pid k \<and> chaseros_active_user_pid k \<noteq> 0
      then upd_task peer (\<lambda>t. t\<lparr>state := PROC_STATE_USER_SLOT\<rparr>) k
      else upd_task peer (\<lambda>t. t\<lparr>state := PROC_STATE_READY\<rparr>) k)"

text \<open>
  The scan of \<open>schedule\<close> walks the slots cyclically until a READY slot or \<open>old_idx\<close>. The test
  \<open>old_idx < MAX_TASKS\<close> is an invariant of the table, and makes the walk total.
\<close>

definition scan_dist :: "nat \<Rightarrow> nat \<Rightarrow> nat" where
  "scan_dist old_idx i =
     (if i < MAX_TASKS then (if i \<le> old_idx then old_idx - i else old_idx + MAX_TASKS - i) else MAX_TASKS)"

lemma scan_dist_step:
  assumes "i \<noteq> old_idx" and "old_idx < MAX_TASKS"
  shows "scan_dist old_idx ((i + 1) mod MAX_TASKS) < scan_dist old_idx i"
proof (cases "i < 15")
  case True
  then show ?thesis using assms by (auto simp: scan_dist_def MAX_TASKS_def)
next
  case False
  then show ?thesis using assms by (cases "i = 15") (auto simp: scan_dist_def MAX_TASKS_def)
qed

function sched_scan :: "kcore \<Rightarrow> nat \<Rightarrow> nat \<Rightarrow> nat" where
  "sched_scan k old_idx next_idx =
     (if state (task k next_idx) \<noteq> PROC_STATE_READY \<and> next_idx \<noteq> old_idx \<and> old_idx < MAX_TASKS
      then sched_scan k old_idx ((next_idx + 1) mod MAX_TASKS)
      else next_idx)"
  by pat_completeness auto
termination
  by (relation "measure (\<lambda>(k, old_idx, i). scan_dist old_idx i)") (use scan_dist_step in auto)

declare sched_scan.simps [simp del]

definition schedule :: "kcore \<Rightarrow> kcore" where
  "schedule k =
     (let old_idx = current_task_idx k;
          next_idx = sched_scan k old_idx ((old_idx + 1) mod MAX_TASKS) in
      if state (task k next_idx) = PROC_STATE_READY
      then (let k = (if state (task k old_idx) = PROC_STATE_RUNNING
                     then upd_task old_idx (\<lambda>t. t\<lparr>state := PROC_STATE_READY\<rparr>) k else k);
                k = upd_task next_idx (\<lambda>t. t\<lparr>state := PROC_STATE_RUNNING\<rparr>) k in
        k\<lparr>current_task_idx := next_idx, g_sched_context_switches := g_sched_context_switches k + 1\<rparr>)
      else k)"

section \<open>sched.c\<close>

definition sched_init :: "kcore \<Rightarrow> kcore" where "sched_init k = k\<lparr>g_sched_context_switches := 0\<rparr>"
definition sched_on_timer_tick :: "kcore \<Rightarrow> kcore" where "sched_on_timer_tick k = schedule k"
definition sched_yield :: "kcore \<Rightarrow> kcore" where "sched_yield k = schedule k"
definition sched_context_switches :: "kcore \<Rightarrow> u64" where
  "sched_context_switches k = g_sched_context_switches k"
definition sched_ready_kernel_threads :: "kcore \<Rightarrow> u32" where
  "sched_ready_kernel_threads k = process_sched_ready_count k"

fun sched_state_name :: "proc_state \<Rightarrow> string" where
  "sched_state_name PROC_STATE_FREE = ''free''"
| "sched_state_name PROC_STATE_READY = ''ready''"
| "sched_state_name PROC_STATE_RUNNING = ''run''"
| "sched_state_name PROC_STATE_BLOCKED = ''blocked''"
| "sched_state_name PROC_STATE_SENDING = ''sending''"
| "sched_state_name PROC_STATE_RECEIVING = ''rcv''"
| "sched_state_name PROC_STATE_SLEEPING = ''sleep''"
| "sched_state_name PROC_STATE_EXITED = ''exit''"
| "sched_state_name PROC_STATE_WAITING_REPLY = ''waitreply''"
| "sched_state_name PROC_STATE_USER_SLOT = ''user''"

definition CHASEROS_SCHED_PID_IDLE :: u64 where "CHASEROS_SCHED_PID_IDLE = 0"
definition CHASEROS_SCHED_PID_USER :: u64 where "CHASEROS_SCHED_PID_USER = 2"
definition CHASEROS_SCHED_PID_IPC_FS :: u64 where "CHASEROS_SCHED_PID_IPC_FS = 3"

definition sched_pid_role :: "u64 \<Rightarrow> string" where
  "sched_pid_role p =
     (if p = CHASEROS_SCHED_PID_IDLE then ''idle''
      else if p = CHASEROS_SCHED_PID_USER then ''ring3''
      else if p = CHASEROS_SCHED_PID_IPC_FS then ''ipc-fs''
      else ''kthread'')"

definition newline :: string where "newline = [CHR 0x0A]"

definition task_line :: "kcore \<Rightarrow> nat \<Rightarrow> string" where
  "task_line k i =
     (if state (task k i) = PROC_STATE_FREE then []
      else puts_dec (of_nat i) @ ''     '' @ puts_dec (pid (task k i)) @ ''  '' @
        sched_state_name (state (task k i)) @ ''  '' @ sched_pid_role (pid (task k i)) @ newline)"

definition sched_print_task_table :: "kcore \<Rightarrow> string" where
  "sched_print_task_table k =
     ''Hybrid scheduler (IRQ0 RR; USER_SLOT not in RR)'' @ newline @
     ''  ctx_switches='' @ puts_dec (sched_context_switches k) @
     ''  ready_kernel_threads='' @ puts_dec (ucast (sched_ready_kernel_threads k)) @ newline @
     ''slot  pid  state        role'' @ newline @ concat (map (task_line k) [0..<MAX_TASKS])"

section \<open>The task table as a store\<close>

named_theorems task_simps \<open>reading the task table after an update\<close>

lemma task_upd [task_simps]:
  "i < length (tasks k) \<Longrightarrow> task (upd_task i f k) j = (if j = i then f (task k i) else task k j)"
  by (auto simp: task_def upd_task_def nth_list_update)

lemma upd_task_frame [simp]:
  "length (tasks (upd_task i f k)) = length (tasks k)"
  "current_task_idx (upd_task i f k) = current_task_idx k"
  "mach (upd_task i f k) = mach k" "kpmm (upd_task i f k) = kpmm k"
  "chaseros_active_user_pid (upd_task i f k) = chaseros_active_user_pid k"
  "g_sched_context_switches (upd_task i f k) = g_sched_context_switches k"
  "task_count (upd_task i f k) = task_count k"
  by (simp_all add: upd_task_def)

lemma task_frame [simp]:
  "task (k\<lparr>current_task_idx := c\<rparr>) i = task k i" "task (k\<lparr>task_count := n\<rparr>) i = task k i"
  "task (k\<lparr>g_sched_context_switches := w\<rparr>) i = task k i" "task (k\<lparr>kpmm := p\<rparr>) i = task k i"
  "task (k\<lparr>mach := m\<rparr>) i = task k i" "task (k\<lparr>chaseros_active_user_pid := w\<rparr>) i = task k i"
  by (simp_all add: task_def)

lemma clear_runtime_frame [simp]:
  "pid (process_clear_runtime p) = pid p" "state (process_clear_runtime p) = state p"
  "stack_base (process_clear_runtime p) = stack_base p"
  by (simp_all add: process_clear_runtime_def)

lemma first_slot_Some:
  "first_slot P k = Some i \<Longrightarrow> i < MAX_TASKS \<and> P (task k i) \<and> (\<forall>j<i. \<not> P (task k j))"
  unfolding first_slot_def find_Some_iff by (auto simp: nth_upt)

lemma first_slot_None: "first_slot P k = None \<longleftrightarrow> (\<forall>i<MAX_TASKS. \<not> P (task k i))"
  unfolding first_slot_def find_None_iff by auto

section \<open>Round robin\<close>

text \<open>The number of steps the scan takes from \<open>old_idx\<close> to slot \<open>j\<close>.\<close>

definition rr_pos :: "nat \<Rightarrow> nat \<Rightarrow> nat" where
  "rr_pos old_idx j = (if old_idx < j then j - old_idx else j + MAX_TASKS - old_idx)"

abbreviation ready :: "kcore \<Rightarrow> nat \<Rightarrow> bool" where
  "ready k i \<equiv> state (task k i) = PROC_STATE_READY"

lemma rr_pos_inj:
  "rr_pos old_idx i = rr_pos old_idx j \<Longrightarrow> i < MAX_TASKS \<Longrightarrow> j < MAX_TASKS \<Longrightarrow>
   old_idx < MAX_TASKS \<Longrightarrow> i = j"
  by (auto simp: rr_pos_def MAX_TASKS_def split: if_splits)

lemma rr_pos_next:
  assumes "i \<noteq> old_idx" and "i < MAX_TASKS" and "old_idx < MAX_TASKS"
  shows "rr_pos old_idx ((i + 1) mod MAX_TASKS) = rr_pos old_idx i + 1"
proof (cases "i < 15")
  case True
  then show ?thesis using assms by (auto simp: rr_pos_def MAX_TASKS_def)
next
  case False
  then have "i = 15" using assms by (simp add: MAX_TASKS_def)
  then show ?thesis using assms by (auto simp: rr_pos_def MAX_TASKS_def)
qed

lemma rr_pos_first: "old_idx < MAX_TASKS \<Longrightarrow> rr_pos old_idx ((old_idx + 1) mod MAX_TASKS) = 1"
  by (cases "old_idx = 15") (auto simp: rr_pos_def MAX_TASKS_def)

lemma rr_pos_ge1: "old_idx < MAX_TASKS \<Longrightarrow> 1 \<le> rr_pos old_idx j"
  by (auto simp: rr_pos_def)

lemma rr_pos_self: "j < MAX_TASKS \<Longrightarrow> i < MAX_TASKS \<Longrightarrow> j \<noteq> i \<Longrightarrow> rr_pos i j < rr_pos i i"
  by (auto simp: rr_pos_def)

lemma sched_scan_first:
  assumes "old_idx < MAX_TASKS" and "i < MAX_TASKS"
    and "\<forall>j<MAX_TASKS. rr_pos old_idx j < rr_pos old_idx i \<longrightarrow> \<not> ready k j"
    and "r = sched_scan k old_idx i"
  shows "r < MAX_TASKS \<and> (ready k r \<or> r = old_idx) \<and>
    (\<forall>j<MAX_TASKS. rr_pos old_idx j < rr_pos old_idx r \<longrightarrow> \<not> ready k j)"
  using assms
proof (induction k old_idx i rule: sched_scan.induct)
  case (1 k old_idx i)
  show ?case
  proof (cases "\<not> ready k i \<and> i \<noteq> old_idx")
    case True
    let ?i = "(i + 1) mod MAX_TASKS"
    have next_i: "rr_pos old_idx ?i = rr_pos old_idx i + 1" using True "1.prems" by (intro rr_pos_next) auto
    have "r = sched_scan k old_idx ?i"
      using "1.prems"(1,4) True by (subst (asm) sched_scan.simps) simp
    moreover have "\<forall>j<MAX_TASKS. rr_pos old_idx j < rr_pos old_idx ?i \<longrightarrow> \<not> ready k j"
      using "1.prems" True rr_pos_inj [of old_idx _ i] unfolding next_i
      by (metis Suc_eq_plus1 less_antisym)
    ultimately show ?thesis
      using True "1.prems"(1) by (intro "1.IH") (auto simp: MAX_TASKS_def)
  next
    case False
    then have "r = i" using "1.prems"(4) by (subst (asm) sched_scan.simps) auto
    then show ?thesis using "1.prems" False by blast
  qed
qed

lemmas sched_scan_start =
  sched_scan_first [where i = "(old_idx + 1) mod MAX_TASKS" for old_idx]

text \<open>The invariant of the task table.\<close>

definition sched_ok :: "kcore \<Rightarrow> bool" where
  "sched_ok k \<longleftrightarrow> length (tasks k) = MAX_TASKS \<and> current_task_idx k < MAX_TASKS \<and>
     (\<forall>i<MAX_TASKS. state (task k i) = PROC_STATE_RUNNING \<longrightarrow> i = current_task_idx k) \<and>
     (\<forall>i<MAX_TASKS. state (task k i) \<noteq> PROC_STATE_FREE \<longrightarrow> pid (task k i) = of_nat i)"

lemma schedule_cases:
  assumes "length (tasks k) = MAX_TASKS" and "current_task_idx k < MAX_TASKS"
  obtains (switch) r where "r < MAX_TASKS" "ready k r"
      "\<forall>j<MAX_TASKS. rr_pos (current_task_idx k) j < rr_pos (current_task_idx k) r \<longrightarrow> \<not> ready k j"
      "current_task_idx (schedule k) = r" "length (tasks (schedule k)) = MAX_TASKS"
      "g_sched_context_switches (schedule k) = g_sched_context_switches k + 1"
      "\<forall>j. task (schedule k) j =
        (if j = r then (task k r)\<lparr>state := PROC_STATE_RUNNING\<rparr>
         else if j = current_task_idx k \<and> state (task k j) = PROC_STATE_RUNNING
         then (task k j)\<lparr>state := PROC_STATE_READY\<rparr> else task k j)"
  | (idle) "\<forall>j<MAX_TASKS. \<not> ready k j" "schedule k = k"
proof -
  let ?c = "current_task_idx k"
  define r where "r = sched_scan k ?c ((?c + 1) mod MAX_TASKS)"
  have r_eq: "sched_scan k ?c (Suc ?c mod MAX_TASKS) = r" by (simp add: r_def)
  have first: "r < MAX_TASKS \<and> (ready k r \<or> r = ?c) \<and>
      (\<forall>j<MAX_TASKS. rr_pos ?c j < rr_pos ?c r \<longrightarrow> \<not> ready k j)"
  proof (rule sched_scan_first [OF assms(2) _ _ r_def])
    show "(?c + 1) mod MAX_TASKS < MAX_TASKS" by (simp add: MAX_TASKS_def)
    show "\<forall>j<MAX_TASKS. rr_pos ?c j < rr_pos ?c ((?c + 1) mod MAX_TASKS) \<longrightarrow> \<not> ready k j"
      using rr_pos_first [OF assms(2)] rr_pos_ge1 [OF assms(2)] by (metis not_le)
  qed
  show thesis
  proof (cases "ready k r")
    case True
    with first assms show thesis
      by (intro switch [of r]) (auto simp: schedule_def Let_def r_eq task_simps)
  next
    case False
    with first have "r = ?c" by blast
    then have "\<not> ready k j" if "j < MAX_TASKS" for j
      using first that False rr_pos_self [OF that assms(2)] by (cases "j = ?c") auto
    then show thesis using False by (intro idle) (auto simp: schedule_def Let_def r_eq)
  qed
qed


lemma sched_ok_schedule: "sched_ok k \<Longrightarrow> sched_ok (schedule k)"
proof -
  assume ok: "sched_ok k"
  then have "length (tasks k) = MAX_TASKS" "current_task_idx k < MAX_TASKS" by (auto simp: sched_ok_def)
  then show "sched_ok (schedule k)"
    by (cases rule: schedule_cases) (use ok in \<open>auto simp: sched_ok_def split: if_splits\<close>)
qed

lemma schedule_ready:
  assumes "sched_ok k" and "ready k i" and "i < MAX_TASKS"
  shows "current_task_idx (schedule k) = i \<or>
    (ready (schedule k) i \<and>
     rr_pos (current_task_idx (schedule k)) i < rr_pos (current_task_idx k) i)"
proof -
  have l: "length (tasks k) = MAX_TASKS" and c: "current_task_idx k < MAX_TASKS"
    using assms(1) by (auto simp: sched_ok_def)
  from l c show ?thesis
  proof (cases rule: schedule_cases)
    case (switch r)
    show ?thesis
    proof (cases "r = i")
      case False
      then have "rr_pos (current_task_idx k) r < rr_pos (current_task_idx k) i"
        using switch(1,3) assms(2,3) rr_pos_inj [OF _ assms(3) switch(1) c] by (metis linorder_neqE_nat)
      then have "rr_pos r i < rr_pos (current_task_idx k) i"
        using switch(1) assms(3) c False by (auto simp: rr_pos_def MAX_TASKS_def split: if_splits)
      then show ?thesis using switch(4,7) False assms(2) by auto
    qed (use switch in simp)
  qed (use assms in auto)
qed

lemma schedule_reaches:
  assumes "sched_ok k" and "ready k i" and "i < MAX_TASKS"
  shows "\<exists>n. 1 \<le> n \<and> n \<le> rr_pos (current_task_idx k) i \<and> current_task_idx ((schedule ^^ n) k) = i"
  using assms
proof (induction "rr_pos (current_task_idx k) i" arbitrary: k rule: less_induct)
  case less
  have c: "current_task_idx k < MAX_TASKS" using less.prems by (auto simp: sched_ok_def)
  from schedule_ready [OF less.prems] show ?case
  proof
    assume "current_task_idx (schedule k) = i"
    then show ?thesis using rr_pos_ge1 [OF c] by (intro exI [of _ 1]) auto
  next
    assume r: "ready (schedule k) i \<and>
      rr_pos (current_task_idx (schedule k)) i < rr_pos (current_task_idx k) i"
    then obtain n where "1 \<le> n" "n \<le> rr_pos (current_task_idx (schedule k)) i"
      "current_task_idx ((schedule ^^ n) (schedule k)) = i"
      using less.hyps [of "schedule k"] sched_ok_schedule [OF less.prems(1)] less.prems(3) by blast
    then show ?thesis using r by (intro exI [of _ "Suc n"]) (auto simp: funpow_swap1)
  qed
qed

text \<open>
  C8: no READY slot starves: after at most 16 calls of \<open>schedule\<close> it is the current one.
\<close>

theorem schedule_no_starvation:
  assumes "sched_ok k" and "i < MAX_TASKS" and "state (task k i) = PROC_STATE_READY"
  shows "\<exists>n. 1 \<le> n \<and> n \<le> MAX_TASKS \<and> current_task_idx ((schedule ^^ n) k) = i"
proof -
  have "current_task_idx k < MAX_TASKS" using assms(1) by (auto simp: sched_ok_def)
  then have "rr_pos (current_task_idx k) i \<le> MAX_TASKS" using assms(2) by (auto simp: rr_pos_def)
  moreover obtain n where "1 \<le> n" "n \<le> rr_pos (current_task_idx k) i"
    "current_task_idx ((schedule ^^ n) k) = i"
    using schedule_reaches [OF assms(1,3,2)] by blast
  ultimately show ?thesis by (intro exI [of _ n]) simp
qed

section \<open>The invariant of the task table\<close>

lemma sched_ok_upd:
  assumes "sched_ok k" and "i < MAX_TASKS" and "state (f (task k i)) \<noteq> PROC_STATE_RUNNING"
    and "state (f (task k i)) \<noteq> PROC_STATE_FREE \<Longrightarrow> pid (f (task k i)) = of_nat i"
  shows "sched_ok (upd_task i f k)"
  using assms by (auto simp: sched_ok_def task_simps)

lemma sched_ok_frame [simp]:
  "sched_ok (k\<lparr>task_count := n\<rparr>) = sched_ok k" "sched_ok (k\<lparr>kpmm := p\<rparr>) = sched_ok k"
  "sched_ok (k\<lparr>mach := m\<rparr>) = sched_ok k" "sched_ok (k\<lparr>chaseros_active_user_pid := w\<rparr>) = sched_ok k"
  by (simp_all add: sched_ok_def)

lemma sched_ok_bump [simp]: "sched_ok (bump_task_count i k) = sched_ok k"
  by (simp add: bump_task_count_def)

lemma sched_ok_task:
  "sched_ok k \<Longrightarrow> i < MAX_TASKS \<Longrightarrow> state (task k i) \<noteq> PROC_STATE_FREE \<Longrightarrow> pid (task k i) = of_nat i"
  by (simp add: sched_ok_def)

lemma sched_ok_init_stack:
  assumes "sched_ok k" and "i < MAX_TASKS" and "state (task k i) \<noteq> PROC_STATE_RUNNING"
  shows "sched_ok (init_kernel_stack i entry k)"
  using assms sched_ok_task [OF assms(1,2)]
  by (auto simp: init_kernel_stack_def Let_def split: prod.splits intro!: sched_ok_upd)

lemma truncated_pid:
  assumes "unat p < 2 ^ 31"
  shows "sint (ucast p :: i32) = int (unat p)"
proof -
  have "uint p < 2 ^ 31" using assms of_nat_less_iff [of "unat p" "2 ^ 31", where 'a = int] by simp
  then have "uint (ucast p :: i32) = uint p"
    by (simp add: unsigned_ucast_eq take_bit_int_eq_self)
  moreover have "- (2 ^ 31) \<le> uint p" by (rule order_trans [OF _ uint_ge_0]) simp
  then have "signed_take_bit 31 (uint p) = uint p"
    using \<open>uint p < 2 ^ 31\<close> by (rule signed_take_bit_int_eq_self)
  ultimately show ?thesis by (simp add: sint_uint)
qed

lemma slot_of_pid:
  assumes "unat p < 2 ^ 31" and "sint (ucast p :: i32) < int MAX_TASKS"
  shows "nat (sint (ucast p :: i32)) < MAX_TASKS" and "of_nat (nat (sint (ucast p :: i32))) = p"
proof -
  note t = truncated_pid [OF assms(1)]
  show "nat (sint (ucast p :: i32)) < MAX_TASKS"
    using assms(2) unfolding t by (simp only: nat_int of_nat_less_iff)
  show "of_nat (nat (sint (ucast p :: i32))) = p" unfolding t nat_int by simp
qed

lemma sched_ok_new_kthread:
  assumes "sched_ok k" and "i < MAX_TASKS" and "state (f (task k i)) = PROC_STATE_READY"
    and "pid (f (task k i)) = of_nat i"
  shows "sched_ok (init_kernel_stack i entry (upd_task i f k))"
proof (rule sched_ok_init_stack)
  show "sched_ok (upd_task i f k)" using assms by (intro sched_ok_upd) auto
  show "state (task (upd_task i f k) i) \<noteq> PROC_STATE_RUNNING"
    using assms by (simp add: sched_ok_def task_simps)
qed (rule assms)

lemma sched_ok_process_init:
  assumes "length (tasks k) = MAX_TASKS"
  shows "sched_ok (process_init k)"
proof -
  let ?f = "\<lambda>p. process_clear_runtime (p\<lparr>state := PROC_STATE_FREE\<rparr>)"
  have fold: "length (tasks (fold (\<lambda>i. upd_task i ?f) [0..<n] k)) = MAX_TASKS \<and>
      (\<forall>i<n. state (task (fold (\<lambda>i. upd_task i ?f) [0..<n] k) i) = PROC_STATE_FREE)" if "n \<le> MAX_TASKS" for n
    using that assms by (induction n) (auto simp: task_simps less_Suc_eq)
  show ?thesis
    using fold [of MAX_TASKS]
    by (auto simp: process_init_def Let_def sched_ok_def task_simps MAX_TASKS_def)
qed

lemma sched_ok_alloc_user: "sched_ok k \<Longrightarrow> sched_ok (snd (process_alloc_user pp k))"
  by (auto simp: process_alloc_user_def dest!: first_slot_Some intro!: sched_ok_upd split: option.splits)

lemma sched_ok_create: "sched_ok k \<Longrightarrow> sched_ok (snd (process_create entry k))"
  by (auto simp: process_create_def Let_def dest!: first_slot_Some intro!: sched_ok_new_kthread
      split: option.splits)

lemma sched_ok_spawn:
  assumes "sched_ok k" and "unat p < 2 ^ 31"
  shows "sched_ok (snd (process_spawn_kernel_at_pid p entry k))"
proof (cases "sint (ucast p :: i32) < int MAX_TASKS")
  case True
  define i where "i = nat (sint (ucast p :: i32))"
  have i: "i < MAX_TASKS" "p = of_nat i" using slot_of_pid [OF assms(2) True] by (simp_all only: i_def)
  show ?thesis
    unfolding process_spawn_kernel_at_pid_def Let_def i_def [symmetric]
    using assms(1) i by (auto intro!: sched_ok_new_kthread)
qed (simp add: process_spawn_kernel_at_pid_def assms(1) Let_def)

lemma sched_ok_bind:
  assumes "sched_ok k" and "unat p < 2 ^ 31"
  shows "sched_ok (process_bind_user_slot_ex p pp k)"
proof (cases "sint (ucast p :: i32) < int MAX_TASKS")
  case True
  define i where "i = nat (sint (ucast p :: i32))"
  have i: "i < MAX_TASKS" "p = of_nat i" using slot_of_pid [OF assms(2) True] by (simp_all only: i_def)
  show ?thesis
    unfolding process_bind_user_slot_ex_def Let_def i_def [symmetric]
    using assms(1) i by (auto intro!: sched_ok_upd)
qed (simp add: process_bind_user_slot_ex_def assms(1) Let_def)

lemma sched_ok_notify:
  assumes "sched_ok k" and "process_find_by_pid q k = Some j"
  shows "sched_ok (upd_task j (\<lambda>t. t\<lparr>wait_result_pid := w, wait_result_status := st,
    state := PROC_STATE_READY\<rparr>) k)"
  using assms
  by (auto simp: process_find_by_pid_def sched_ok_task dest!: first_slot_Some intro!: sched_ok_upd)

lemma sched_ok_mark_exit:
  assumes "sched_ok k" and "i < MAX_TASKS" and "state (task k i) \<noteq> PROC_STATE_FREE"
  shows "sched_ok (process_mark_exit (Some i) status k)"
proof -
  let ?k = "upd_task i (\<lambda>t. t\<lparr>exit_code := status, exited := True, state := PROC_STATE_EXITED\<rparr>) k"
  define k' where "k' = (if pid (task ?k i) = chaseros_active_user_pid ?k
    then ?k\<lparr>chaseros_active_user_pid := 0\<rparr> else ?k)"
  have "sched_ok k'"
    using assms sched_ok_task [OF assms] by (auto simp: k'_def intro!: sched_ok_upd)
  then show ?thesis
    unfolding process_mark_exit_def Let_def option.case k'_def [symmetric]
    by (auto intro: sched_ok_notify split: option.splits)
qed

lemma sched_ok_reap: "sched_ok k \<Longrightarrow> sched_ok (snd (process_reap_child parent target k))"
  by (auto simp: process_reap_child_def Let_def dest!: first_slot_Some intro!: sched_ok_upd
      split: option.splits)

lemma sched_ok_wake:
  assumes "sched_ok k" and "i < MAX_TASKS"
  shows "sched_ok (process_ipc_wake_from_receive i k)" "sched_ok (process_ipc_wake_after_reply i k)"
  using assms
  by (auto simp: process_ipc_wake_from_receive_def process_ipc_wake_after_reply_def sched_ok_task
      intro!: sched_ok_upd)
text \<open>
  The operations of \<open>process.c\<close> as steps. Slots are named by callers that obtained them from
  the table; process ids fit a C \<open>int\<close>.
\<close>

inductive proc_step :: "kcore \<Rightarrow> kcore \<Rightarrow> bool" where
  alloc_user: "proc_step k (snd (process_alloc_user pp k))"
| create: "proc_step k (snd (process_create entry k))"
| spawn: "unat p < 2 ^ 31 \<Longrightarrow> proc_step k (snd (process_spawn_kernel_at_pid p entry k))"
| bind: "unat p < 2 ^ 31 \<Longrightarrow> proc_step k (process_bind_user_slot_ex p pp k)"
| mark_exit: "i < MAX_TASKS \<Longrightarrow> state (task k i) \<noteq> PROC_STATE_FREE \<Longrightarrow>
    proc_step k (process_mark_exit (Some i) status k)"
| reap: "proc_step k (snd (process_reap_child parent target k))"
| wake_receive: "i < MAX_TASKS \<Longrightarrow> proc_step k (process_ipc_wake_from_receive i k)"
| wake_reply: "i < MAX_TASKS \<Longrightarrow> proc_step k (process_ipc_wake_after_reply i k)"
| tick: "proc_step k (sched_on_timer_tick k)"

lemma proc_step_ok: "proc_step k k' \<Longrightarrow> sched_ok k \<Longrightarrow> sched_ok k'"
  by (induction rule: proc_step.induct)
    (simp_all add: sched_ok_alloc_user sched_ok_create sched_ok_spawn sched_ok_bind
      sched_ok_mark_exit sched_ok_reap sched_ok_wake sched_on_timer_tick_def sched_ok_schedule)

lemma find_by_pid_slot:
  assumes "sched_ok k" and "i < MAX_TASKS" and "state (task k i) \<noteq> PROC_STATE_FREE"
  shows "process_find_by_pid (of_nat i) k = Some i"
proof (cases "process_find_by_pid (of_nat i) k")
  case None
  then show ?thesis
    using assms sched_ok_task [OF assms] by (auto simp: process_find_by_pid_def first_slot_None)
next
  case (Some j)
  then have j: "j < MAX_TASKS" "state (task k j) \<noteq> PROC_STATE_FREE" "pid (task k j) = of_nat i"
    by (auto simp: process_find_by_pid_def dest!: first_slot_Some)
  then have "(of_nat j :: u64) = of_nat i" using sched_ok_task [OF assms(1)] by simp
  then have "unat (of_nat j :: u64) = unat (of_nat i :: u64)" by simp
  then show ?thesis using j(1) assms(2) Some by (simp add: MAX_TASKS_def)
qed

text \<open>
  C4: from \<open>process_init\<close> on, whatever sequence of process operations and timer ticks runs,
  the table keeps its invariant: only the current slot is ever RUNNING, every process sits in
  the slot of its id, and looking a live process up by its id finds it.
\<close>

theorem process_table_invariant:
  assumes "length (tasks k0) = MAX_TASKS" and "proc_step\<^sup>*\<^sup>* (process_init k0) k"
  shows "sched_ok k \<and> (\<forall>i<MAX_TASKS. state (task k i) \<noteq> PROC_STATE_FREE \<longrightarrow>
    process_find_by_pid (pid (task k i)) k = Some i)"
proof -
  have "sched_ok k"
    using assms(2) by (induction rule: rtranclp_induct) (simp_all add: sched_ok_process_init assms(1) proc_step_ok)
  then show ?thesis using find_by_pid_slot sched_ok_task by simp
qed

definition blank_proc :: proc where
  "blank_proc = \<lparr>pid = 0, ppid = 0, state = PROC_STATE_FREE, rsp = 0, stack_base = 0, pml4_phys = 0,
     exit_code = 0, exited = False, wait_target = 0, wait_result_pid = 0, wait_result_status = 0,
     user_entry = 0, user_stack_top = 0, vm_flags = 0, open_files = 0,
     msg_buffer = \<lparr>sender = 0, mtype = 0, payload = replicate MAX_MSG_PAYLOAD 0\<rparr>,
     next_in_queue = None, sender_queue = None, msg_pending = False\<rparr>"

definition boot_kcore :: kcore where
  "boot_kcore = \<lparr>mach = \<lparr>mem = \<lambda>_. 0, cr3 = 0x1000\<rparr>, kpmm = demo_pmm,
     tasks = replicate MAX_TASKS blank_proc, current_task_idx = 0, task_count = 0,
     chaseros_active_user_pid = 0, g_sched_context_switches = 0\<rparr>"

lemma boot_kcore_tasks [simp]: "length (tasks boot_kcore) = MAX_TASKS"
  by (simp add: boot_kcore_def)

theorem process_table_invariant_witness:
  "sched_ok (snd (process_alloc_user 0 (process_init boot_kcore)))"
  using process_table_invariant [of boot_kcore "snd (process_alloc_user 0 (process_init boot_kcore))"]
    proc_step.alloc_user [of "process_init boot_kcore" 0] by auto

definition demo_kcore :: kcore where
  "demo_kcore = snd (process_alloc_user 0 (process_init boot_kcore))"

lemma demo_kcore_ok: "sched_ok demo_kcore"
  by (simp add: demo_kcore_def sched_ok_alloc_user sched_ok_process_init)

lemma demo_kcore_ready: "state (task demo_kcore 1) = PROC_STATE_READY"
  by code_simp


theorem schedule_no_starvation_witness:
  "\<exists>n. 1 \<le> n \<and> n \<le> MAX_TASKS \<and> current_task_idx ((schedule ^^ n) demo_kcore) = 1"
  using schedule_no_starvation [OF demo_kcore_ok _ demo_kcore_ready] by (simp add: MAX_TASKS_def)

section \<open>Exit and wait\<close>

lemma mark_exit_task:
  assumes "sched_ok k" and "c < MAX_TASKS"
  shows "task (process_mark_exit (Some c) status k) c =
      (task k c)\<lparr>exit_code := status, exited := True, state := PROC_STATE_EXITED\<rparr>"
    and "j \<noteq> c \<Longrightarrow> pid (task (process_mark_exit (Some c) status k) j) = pid (task k j)"
    and "j \<noteq> c \<Longrightarrow> (state (task (process_mark_exit (Some c) status k) j) = PROC_STATE_FREE) =
      (state (task k j) = PROC_STATE_FREE)"
    and "kpmm (process_mark_exit (Some c) status k) = kpmm k"
    and "process_find_by_pid (ppid (task k c)) k = Some j \<Longrightarrow> j \<noteq> c \<Longrightarrow> sched_ok k \<Longrightarrow>
      state (task k c) \<noteq> PROC_STATE_FREE \<Longrightarrow> state (task k j) = PROC_STATE_BLOCKED \<Longrightarrow>
      wait_target (task k j) \<in> {0, pid (task k c)} \<Longrightarrow>
      task (process_mark_exit (Some c) status k) j = (task k j)\<lparr>wait_result_pid := pid (task k c),
        wait_result_status := status, state := PROC_STATE_READY\<rparr>"
proof -
  let ?f = "\<lambda>t. t\<lparr>exit_code := status, exited := True, state := PROC_STATE_EXITED\<rparr>"
  have len: "length (tasks k) = MAX_TASKS" using assms(1) by (simp add: sched_ok_def)
  define k' where "k' = (if pid (task (upd_task c ?f k) c) = chaseros_active_user_pid (upd_task c ?f k)
    then (upd_task c ?f k)\<lparr>chaseros_active_user_pid := 0\<rparr> else upd_task c ?f k)"
  have k': "task k' j = (if j = c then ?f (task k c) else task k j)" "length (tasks k') = MAX_TASKS" for j
    using len assms(2) by (simp_all add: k'_def task_simps)
  have find: "process_find_by_pid q k' = Some j \<Longrightarrow> j < MAX_TASKS" for q j
    by (auto simp: process_find_by_pid_def dest: first_slot_Some)
  have run: "process_mark_exit (Some c) status k =
    (case process_find_by_pid (ppid (task k' c)) k' of None \<Rightarrow> k'
     | Some j \<Rightarrow> if state (task k' j) = PROC_STATE_BLOCKED \<and>
          (wait_target (task k' j) = 0 \<or> wait_target (task k' j) = pid (task k' c))
        then upd_task j (\<lambda>t. t\<lparr>wait_result_pid := pid (task k' c), wait_result_status := status,
               state := PROC_STATE_READY\<rparr>) k' else k')"
    unfolding process_mark_exit_def Let_def option.case k'_def [symmetric] ..
  show "task (process_mark_exit (Some c) status k) c = ?f (task k c)"
    unfolding run using find k' by (auto simp: task_simps split: option.splits)
  show "j \<noteq> c \<Longrightarrow> pid (task (process_mark_exit (Some c) status k) j) = pid (task k j)"
    unfolding run using find k' by (auto simp: task_simps split: option.splits)
  show "j \<noteq> c \<Longrightarrow> (state (task (process_mark_exit (Some c) status k) j) = PROC_STATE_FREE) =
      (state (task k j) = PROC_STATE_FREE)"
    unfolding run using find k' by (auto simp: task_simps split: option.splits)
  show "kpmm (process_mark_exit (Some c) status k) = kpmm k"
    unfolding run by (auto simp: k'_def split: option.splits)
  assume h: "process_find_by_pid (ppid (task k c)) k = Some j" "j \<noteq> c"
    "state (task k c) \<noteq> PROC_STATE_FREE" "state (task k j) = PROC_STATE_BLOCKED"
    "wait_target (task k j) \<in> {0, pid (task k c)}"
  have "process_find_by_pid q k' = process_find_by_pid q k" for q
    unfolding process_find_by_pid_def first_slot_def using h(3)
    by (intro arg_cong2 [where f = find] ext) (auto simp: k')
  with h(1) have "process_find_by_pid (ppid (task k c)) k' = Some j" by simp
  then show "task (process_mark_exit (Some c) status k) j = (task k j)\<lparr>wait_result_pid := pid (task k c),
        wait_result_status := status, state := PROC_STATE_READY\<rparr>"
    unfolding run using find [of "ppid (task k c)" j] k' h by (auto simp: task_simps)
qed

lemma slot_pid_inj: "i < MAX_TASKS \<Longrightarrow> j < MAX_TASKS \<Longrightarrow> (of_nat i :: u64) = of_nat j \<Longrightarrow> i = j"
proof -
  assume a: "i < MAX_TASKS" "j < MAX_TASKS" "(of_nat i :: u64) = of_nat j"
  then have "unat (of_nat i :: u64) = unat (of_nat j :: u64)" by simp
  then show "i = j" using a(1,2) by (simp add: MAX_TASKS_def)
qed

lemma slot_pid_nonzero: "i < MAX_TASKS \<Longrightarrow> 0 < i \<Longrightarrow> (of_nat i :: u64) \<noteq> 0"
  using slot_pid_inj [of i 0] by (auto simp: MAX_TASKS_def)

lemma reap_finds_child:
  assumes "sched_ok k" and "c < MAX_TASKS" and "0 < c" and "state (task k c) \<noteq> PROC_STATE_FREE"
    and "ppid (task k c) = pid (task k par)" and "exited (task k c)"
  shows "process_reap_child (Some par) (of_nat c) k =
    (Some (of_nat c, exit_code (task k c)),
     upd_task c (\<lambda>t. process_clear_runtime (t\<lparr>state := PROC_STATE_FREE\<rparr>))
       (if stack_base (task k c) \<noteq> 0
        then k\<lparr>kpmm := pmm_free_page (stack_base (task k c)) (kpmm k)\<rparr> else k))"
proof -
  have nz: "(of_nat c :: u64) \<noteq> 0" using assms(2,3) by (rule slot_pid_nonzero)
  have pidc: "pid (task k c) = of_nat c" using assms by (intro sched_ok_task)
  let ?P = "\<lambda>p. state p \<noteq> PROC_STATE_FREE \<and> ppid p = pid (task k par) \<and>
    \<not> ((of_nat c :: u64) \<noteq> 0 \<and> pid p \<noteq> of_nat c) \<and> exited p"
  have "first_slot ?P k = Some c"
  proof (cases "first_slot ?P k")
    case None
    then show ?thesis using assms pidc by (auto simp: first_slot_None)
  next
    case (Some j)
    then have "j < MAX_TASKS" "state (task k j) \<noteq> PROC_STATE_FREE" "pid (task k j) = of_nat c"
      using nz by (auto dest!: first_slot_Some)
    then have "process_find_by_pid (of_nat c) k = Some j"
      using find_by_pid_slot [OF assms(1)] sched_ok_task [OF assms(1)] by metis
    then show ?thesis using find_by_pid_slot [OF assms(1,2,4)] Some by simp
  qed
  then show ?thesis by (simp add: process_reap_child_def pidc Let_def)
qed

text \<open>
  C16: exit and wait fit together. When a process exits, a parent blocked on it becomes READY
  with the child's id and status; when the parent reaps it, it gets exactly that id and status
  once, the slot is FREE again and the kernel stack page goes back to the allocator.
\<close>

theorem exit_then_reap:
  assumes "sched_ok k" and "c < MAX_TASKS" and "0 < c" and "par < MAX_TASKS" and "par \<noteq> c"
    and "state (task k c) \<noteq> PROC_STATE_FREE" and "state (task k par) \<noteq> PROC_STATE_FREE"
    and "ppid (task k c) = pid (task k par)" and "k1 = process_mark_exit (Some c) status k"
  shows "(state (task k par) = PROC_STATE_BLOCKED \<and> wait_target (task k par) \<in> {0, of_nat c} \<longrightarrow>
      state (task k1 par) = PROC_STATE_READY \<and> wait_result_pid (task k1 par) = of_nat c \<and>
      wait_result_status (task k1 par) = status) \<and>
    (\<exists>k2. process_reap_child (Some par) (of_nat c) k1 = (Some (of_nat c, status), k2) \<and>
      sched_ok k2 \<and> state (task k2 c) = PROC_STATE_FREE \<and>
      fst (process_reap_child (Some par) (of_nat c) k2) = None \<and>
      kpmm k2 = (if stack_base (task k c) = 0 then kpmm k
                 else pmm_free_page (stack_base (task k c)) (kpmm k)))"
proof -
  have pidc: "pid (task k c) = of_nat c" and pidp: "pid (task k par) = of_nat par"
    using assms by (auto intro: sched_ok_task)
  note m = mark_exit_task [OF assms(1,2), where status = status, folded assms(9)]
  have ok1: "sched_ok k1" unfolding assms(9) using assms by (intro sched_ok_mark_exit)
  have wake: "process_find_by_pid (ppid (task k c)) k = Some par"
    using assms(1,4,7,8) pidp by (simp add: find_by_pid_slot)
  obtain k2 where k2: "process_reap_child (Some par) (of_nat c) k1 = (Some (of_nat c, status), k2)"
    "k2 = upd_task c (\<lambda>t. process_clear_runtime (t\<lparr>state := PROC_STATE_FREE\<rparr>))
       (if stack_base (task k c) \<noteq> 0
        then k1\<lparr>kpmm := pmm_free_page (stack_base (task k c)) (kpmm k1)\<rparr> else k1)"
    using reap_finds_child [OF ok1 assms(2,3), of par] m(1) m(2) [OF assms(5)] assms(8) by simp
  have ok2: "sched_ok k2" using sched_ok_reap [OF ok1, of "Some par" "of_nat c"] k2(1) by simp
  have free: "state (task k2 c) = PROC_STATE_FREE"
    using ok1 assms(2) unfolding k2(2) by (simp add: task_simps sched_ok_def)
  have "\<not> (state (task k2 i) \<noteq> PROC_STATE_FREE \<and> pid (task k2 i) = of_nat c)" if "i < MAX_TASKS" for i
    using that free sched_ok_task [OF ok2] slot_pid_inj [OF that assms(2)] by metis
  then have none: "fst (process_reap_child (Some par) (of_nat c) k2) = None"
    using slot_pid_nonzero [OF assms(2,3)]
    by (auto simp: process_reap_child_def Let_def first_slot_None split: option.splits)
  show ?thesis
    using m(5) [OF wake assms(5,1,6)] k2 ok2 free none m(4) pidc by auto
qed

definition demo_exit :: kcore where
  "demo_exit = snd (process_alloc_user 1 demo_kcore)"

theorem exit_then_reap_witness:
  "\<exists>k2. process_reap_child (Some 1) (of_nat 2) (process_mark_exit (Some 2) 7 demo_exit) =
     (Some (of_nat 2, 7), k2) \<and> state (task k2 2) = PROC_STATE_FREE"
proof -
  have ok: "sched_ok demo_exit" by (simp add: demo_exit_def sched_ok_alloc_user demo_kcore_ok)
  have s: "state (task demo_exit 2) = PROC_STATE_READY" "state (task demo_exit 1) = PROC_STATE_READY"
    "ppid (task demo_exit 2) = pid (task demo_exit 1)" by code_simp+
  show ?thesis using exit_then_reap [OF ok, of 2 1 _ 7, OF _ _ _ _ _ _ s(3) refl] s
    by (simp add: MAX_TASKS_def) blast
qed

end
