(* ===== verification/Ide.thy ===== *)
theory Ide
  imports CLib
begin

text \<open>
  The ATA PIO driver, \<open>src/kernel/drivers/ide.c\<close>. The port instructions of \<open>src/kernel/io.h\<close> act
  on a device whose state has any type: an \<open>io\<close> record gives the effect of each instruction.
  Routines run in the outcome monad over the device state; \<open>Err (-1)\<close> is the return code \<open>-1\<close>.
\<close>

record 'd io =
  io_inb :: "u16 \<Rightarrow> 'd \<Rightarrow> u8 \<times> 'd"
  io_inw :: "u16 \<Rightarrow> 'd \<Rightarrow> u16 \<times> 'd"
  io_outb :: "u16 \<Rightarrow> u8 \<Rightarrow> 'd \<Rightarrow> 'd"
  io_outw :: "u16 \<Rightarrow> u16 \<Rightarrow> 'd \<Rightarrow> 'd"

definition inb :: "'d io \<Rightarrow> u16 \<Rightarrow> ('d, u8) sm" where
  "inb io port d = (case io_inb io port d of (v, d') \<Rightarrow> (Ok v, d'))"
definition inw :: "'d io \<Rightarrow> u16 \<Rightarrow> ('d, u16) sm" where
  "inw io port d = (case io_inw io port d of (v, d') \<Rightarrow> (Ok v, d'))"
definition outb :: "'d io \<Rightarrow> u16 \<Rightarrow> u8 \<Rightarrow> ('d, unit) sm" where
  "outb io port v d = (Ok (), io_outb io port v d)"
definition outw :: "'d io \<Rightarrow> u16 \<Rightarrow> u16 \<Rightarrow> ('d, unit) sm" where
  "outw io port v d = (Ok (), io_outw io port v d)"

definition IDE_PRIMARY_IO :: u16 where "IDE_PRIMARY_IO = 0x1F0"
definition IDE_PRIMARY_CTRL :: u16 where "IDE_PRIMARY_CTRL = 0x3F6"
definition ide_base :: u16 where "ide_base = IDE_PRIMARY_IO"
definition ide_ctrl :: u16 where "ide_ctrl = IDE_PRIMARY_CTRL"

definition ATA_REG_DATA :: u16 where "ATA_REG_DATA = 0"
definition ATA_REG_FEATURES :: u16 where "ATA_REG_FEATURES = 1"
definition ATA_REG_SECCOUNT0 :: u16 where "ATA_REG_SECCOUNT0 = 2"
definition ATA_REG_LBA0 :: u16 where "ATA_REG_LBA0 = 3"
definition ATA_REG_LBA1 :: u16 where "ATA_REG_LBA1 = 4"
definition ATA_REG_LBA2 :: u16 where "ATA_REG_LBA2 = 5"
definition ATA_REG_DRIVE :: u16 where "ATA_REG_DRIVE = 6"
definition ATA_REG_STATUS :: u16 where "ATA_REG_STATUS = 7"
definition ATA_REG_COMMAND :: u16 where "ATA_REG_COMMAND = 7"
definition ATA_CMD_READ_PIO :: u8 where "ATA_CMD_READ_PIO = 0x20"
definition ATA_CMD_WRITE_PIO :: u8 where "ATA_CMD_WRITE_PIO = 0x30"
definition ATA_CMD_IDENTIFY :: u8 where "ATA_CMD_IDENTIFY = 0xEC"
definition ATA_CMD_IDENTIFY_PACKET :: u8 where "ATA_CMD_IDENTIFY_PACKET = 0xA1"
definition ATA_CMD_PACKET :: u8 where "ATA_CMD_PACKET = 0xA0"
definition ATA_STS_ERR :: u8 where "ATA_STS_ERR = 0x01"
definition ATA_STS_DRQ :: u8 where "ATA_STS_DRQ = 0x08"
definition ATA_STS_BSY :: u8 where "ATA_STS_BSY = 0x80"

lemmas ata_defs =
  IDE_PRIMARY_IO_def IDE_PRIMARY_CTRL_def ide_base_def ide_ctrl_def ATA_REG_DATA_def
  ATA_REG_FEATURES_def ATA_REG_SECCOUNT0_def ATA_REG_LBA0_def ATA_REG_LBA1_def ATA_REG_LBA2_def
  ATA_REG_DRIVE_def ATA_REG_STATUS_def ATA_REG_COMMAND_def ATA_CMD_READ_PIO_def
  ATA_CMD_WRITE_PIO_def ATA_CMD_IDENTIFY_def ATA_CMD_IDENTIFY_PACKET_def ATA_CMD_PACKET_def
  ATA_STS_ERR_def ATA_STS_DRQ_def ATA_STS_BSY_def

definition ide_delay :: "'d io \<Rightarrow> ('d, unit) sm" where
  "ide_delay io = bindS (inb io ide_ctrl) (\<lambda>_. retS ())"

text \<open>The polling loops, with their counter. The first one returns the status, or fails.\<close>

function wait_not_busy_loop :: "'d io \<Rightarrow> int \<Rightarrow> ('d, u8) sm" where
  "wait_not_busy_loop io i =
     (if i < 100000
      then bindS (inb io (ide_base + ATA_REG_STATUS)) (\<lambda>st.
        if st AND ATA_STS_BSY = 0 then retS st
        else bindS (ide_delay io) (\<lambda>_. wait_not_busy_loop io (i + 1)))
      else failS (-1))"
  by pat_completeness auto
termination by (relation "measure (\<lambda>(io, i). nat (100000 - i))") auto

definition ide_wait_not_busy :: "'d io \<Rightarrow> ('d, u8) sm" where
  "ide_wait_not_busy io = wait_not_busy_loop io 0"

function wait_drq_loop :: "'d io \<Rightarrow> int \<Rightarrow> ('d, unit) sm" where
  "wait_drq_loop io i =
     (if i < 100000
      then bindS (inb io (ide_base + ATA_REG_STATUS)) (\<lambda>st.
        if st AND ATA_STS_ERR \<noteq> 0 then failS (-1)
        else if st AND ATA_STS_DRQ \<noteq> 0 then retS ()
        else if st AND ATA_STS_BSY = 0 \<and> st AND ATA_STS_DRQ = 0 then failS (-1)
        else bindS (ide_delay io) (\<lambda>_. wait_drq_loop io (i + 1)))
      else failS (-1))"
  by pat_completeness auto
termination by (relation "measure (\<lambda>(io, i). nat (100000 - i))") auto

declare wait_not_busy_loop.simps [simp del] wait_drq_loop.simps [simp del]

definition ide_wait_drq :: "'d io \<Rightarrow> ('d, unit) sm" where
  "ide_wait_drq io = wait_drq_loop io 0"

text \<open>\<open>(void)f()\<close>: the result and the failure are ignored.\<close>

definition ignoreS :: "('s, 'a) sm \<Rightarrow> ('s, unit) sm" where
  "ignoreS m s = (case m s of (Oob, s') \<Rightarrow> (Oob, s') | (_, s') \<Rightarrow> (Ok (), s'))"

definition ide_init :: "'d io \<Rightarrow> ('d, unit) sm" where
  "ide_init io =
     bindS (outb io ide_ctrl 0x04) (\<lambda>_.
     bindS (ide_delay io) (\<lambda>_.
     bindS (outb io ide_ctrl 0x00) (\<lambda>_.
     bindS (ide_delay io) (\<lambda>_.
     ignoreS (ide_wait_not_busy io)))))"

definition ide_select :: "'d io \<Rightarrow> u8 \<Rightarrow> u32 \<Rightarrow> ('d, unit) sm" where
  "ide_select io drive lba_hi4 =
     bindS (errIf (drive > 1) (-1)) (\<lambda>_.
     let dh = 0xE0 OR push_bit 4 (drive AND 1) OR (ucast lba_hi4 AND 0x0F) in
     bindS (outb io (ide_base + ATA_REG_DRIVE) dh) (\<lambda>_. ide_delay io))"

text \<open>\<open>n\<close> words from the data port, and \<open>n\<close> words to it.\<close>

fun read_words :: "'d io \<Rightarrow> nat \<Rightarrow> ('d, u16 list) sm" where
  "read_words io 0 = retS []"
| "read_words io (Suc n) =
     bindS (inw io (ide_base + ATA_REG_DATA)) (\<lambda>w. bindS (read_words io n) (\<lambda>ws. retS (w # ws)))"

fun write_words :: "'d io \<Rightarrow> u16 list \<Rightarrow> ('d, unit) sm" where
  "write_words io [] = retS ()"
| "write_words io (w # ws) =
     bindS (outw io (ide_base + ATA_REG_DATA) w) (\<lambda>_. write_words io ws)"

definition ide_read_identify_words_cmd :: "'d io \<Rightarrow> u8 \<Rightarrow> u8 \<Rightarrow> ('d, u16 list) sm" where
  "ide_read_identify_words_cmd io drive cmd =
     bindS (ide_init io) (\<lambda>_.
     bindS (ide_select io drive 0) (\<lambda>_.
     bindS (outb io (ide_base + ATA_REG_SECCOUNT0) 0) (\<lambda>_.
     bindS (outb io (ide_base + ATA_REG_LBA0) 0) (\<lambda>_.
     bindS (outb io (ide_base + ATA_REG_LBA1) 0) (\<lambda>_.
     bindS (outb io (ide_base + ATA_REG_LBA2) 0) (\<lambda>_.
     bindS (outb io (ide_base + ATA_REG_COMMAND) cmd) (\<lambda>_.
     bindS (ide_delay io) (\<lambda>_.
     bindS (ide_wait_not_busy io) (\<lambda>st.
     bindS (errIf (st = 0xFF) (-1)) (\<lambda>_.
     bindS (errIf (st AND ATA_STS_ERR \<noteq> 0) (-1)) (\<lambda>_.
     bindS (ide_wait_drq io) (\<lambda>_.
     read_words io 256))))))))))))"

definition model_of_words :: "u16 list \<Rightarrow> u8 list" where
  "model_of_words buf =
     concat (map (\<lambda>i. let v = buf ! (27 + i) in [ucast (drop_bit 8 v), ucast (v AND 0xFF)]) [0..<20])"

definition ide_identify_packet :: "'d io \<Rightarrow> u8 \<Rightarrow> ('d, u8 list) sm" where
  "ide_identify_packet io drive =
     bindS (ide_read_identify_words_cmd io drive ATA_CMD_IDENTIFY_PACKET) (\<lambda>buf. retS (model_of_words buf))"

definition ide_identify :: "'d io \<Rightarrow> u8 \<Rightarrow> ('d, u8 list) sm" where
  "ide_identify io drive =
     bindS (ide_read_identify_words_cmd io drive ATA_CMD_IDENTIFY) (\<lambda>buf. retS (model_of_words buf))"

datatype ide_class = IDE_CLASS_NONE | IDE_CLASS_ATA | IDE_CLASS_ATAPI

text \<open>On failure of both commands the class is NONE and the model string is empty.\<close>

definition ide_probe_type :: "'d io \<Rightarrow> u8 \<Rightarrow> ('d, ide_class \<times> u8 list) sm" where
  "ide_probe_type io drive d =
     (case ide_identify io drive d of
        (Ok model, d) \<Rightarrow> (Ok (IDE_CLASS_ATA, model), d)
      | (Oob, d) \<Rightarrow> (Oob, d)
      | (Err _, d) \<Rightarrow>
          (case ide_identify_packet io drive d of
             (Ok model, d) \<Rightarrow> (Ok (IDE_CLASS_ATAPI, model), d)
           | (Oob, d) \<Rightarrow> (Oob, d)
           | (Err _, d) \<Rightarrow> (Err (-1), d)))"

text \<open>
  \<open>ide_do_rw\<close>: sector by sector, one command each. A buffer is a list of bytes; an access
  past its end is \<open>Oob\<close>. The result is the buffer after the transfer.
\<close>

fun bytes_of_words :: "u16 list \<Rightarrow> u8 list" where
  "bytes_of_words [] = []"
| "bytes_of_words (v # ws) = ucast v # ucast (drop_bit 8 v) # bytes_of_words ws"

fun words_of_bytes :: "u8 list \<Rightarrow> u16 list" where
  "words_of_bytes (b0 # b1 # bs) = (ucast b0 OR push_bit 8 (ucast b1)) # words_of_bytes bs"
| "words_of_bytes _ = []"

definition rw_command :: "'d io \<Rightarrow> u8 \<Rightarrow> u32 \<Rightarrow> bool \<Rightarrow> ('d, unit) sm" where
  "rw_command io drive cur writing =
     bindS (ide_select io drive (drop_bit 24 cur AND 0x0F)) (\<lambda>_.
     bindS (outb io (ide_base + ATA_REG_SECCOUNT0) 1) (\<lambda>_.
     bindS (outb io (ide_base + ATA_REG_LBA0) (ucast (cur AND 0xFF))) (\<lambda>_.
     bindS (outb io (ide_base + ATA_REG_LBA1) (ucast (drop_bit 8 cur AND 0xFF))) (\<lambda>_.
     bindS (outb io (ide_base + ATA_REG_LBA2) (ucast (drop_bit 16 cur AND 0xFF))) (\<lambda>_.
     bindS (outb io (ide_base + ATA_REG_COMMAND)
              (if writing then ATA_CMD_WRITE_PIO else ATA_CMD_READ_PIO)) (\<lambda>_.
     bindS (ide_delay io) (\<lambda>_.
     bindS (ide_wait_not_busy io) (\<lambda>_. retS ()))))))))"

definition rw_sector :: "'d io \<Rightarrow> u8 \<Rightarrow> u32 \<Rightarrow> bool \<Rightarrow> nat \<Rightarrow> u8 list \<Rightarrow> ('d, u8 list) sm" where
  "rw_sector io drive cur writing off buf =
     bindS (rw_command io drive cur writing) (\<lambda>_.
     bindS (ide_wait_drq io) (\<lambda>_.
     bindS
       (if off + 512 > length buf then oobS
        else if writing
        then bindS (write_words io (words_of_bytes (get_at off 512 buf))) (\<lambda>_.
             bindS (ide_wait_not_busy io) (\<lambda>_. retS buf))
        else bindS (read_words io 256) (\<lambda>ws. retS (put_at off (bytes_of_words ws) buf))) (\<lambda>buf.
     bindS (inb io (ide_base + ATA_REG_STATUS)) (\<lambda>st.
     bindS (errIf (st AND ATA_STS_ERR \<noteq> 0) (-1)) (\<lambda>_. retS buf)))))"

fun rw_loop :: "'d io \<Rightarrow> u8 \<Rightarrow> u32 \<Rightarrow> bool \<Rightarrow> nat \<Rightarrow> nat \<Rightarrow> u8 list \<Rightarrow> ('d, u8 list) sm" where
  "rw_loop io drive lba writing n 0 buf = retS buf"
| "rw_loop io drive lba writing n (Suc todo) buf =
     bindS (rw_sector io drive (lba + of_nat n) writing (512 * n) buf) (\<lambda>buf.
     rw_loop io drive lba writing (Suc n) todo buf)"

definition ide_do_rw :: "'d io \<Rightarrow> u8 \<Rightarrow> u32 \<Rightarrow> u32 \<Rightarrow> u8 list \<Rightarrow> bool \<Rightarrow> ('d, u8 list) sm" where
  "ide_do_rw io drive lba count buf writing =
     bindS (errIf (count = 0 \<or> count > 256) (-1)) (\<lambda>_.
     bindS (errIf (lba > 0x0FFFFFFF) (-1)) (\<lambda>_.
     rw_loop io drive lba writing 0 (unat count) buf))"

definition ide_read_sectors :: "'d io \<Rightarrow> u8 \<Rightarrow> u32 \<Rightarrow> u32 \<Rightarrow> u8 list \<Rightarrow> ('d, u8 list) sm" where
  "ide_read_sectors io drive lba count buf = ide_do_rw io drive lba count buf False"

definition ide_write_sectors :: "'d io \<Rightarrow> u8 \<Rightarrow> u32 \<Rightarrow> u32 \<Rightarrow> u8 list \<Rightarrow> ('d, unit) sm" where
  "ide_write_sectors io drive lba count buf =
     bindS (ide_do_rw io drive lba count buf True) (\<lambda>_. retS ())"

text \<open>The capacity that the identify words announce; 0 when they announce none.\<close>

definition capacity_of_words :: "u16 list \<Rightarrow> u64" where
  "capacity_of_words buf =
     (let n28 = ucast (buf ! 60) OR push_bit 16 (ucast (buf ! 61)) :: u64;
          n48 = (ucast (buf ! 100) OR push_bit 16 (ucast (buf ! 101)) OR push_bit 32 (ucast (buf ! 102))
                 OR push_bit 48 (ucast (buf ! 103))) AND 0xFFFFFFFFFFFF :: u64;
          lba48 = buf ! 83 AND 0x0400 \<noteq> 0 \<and> buf ! 86 AND 0x0400 \<noteq> 0
      in if lba48 \<and> n48 > 0 then n48
         else if n28 > 0 \<and> n28 \<le> 0x0FFFFFFF then n28
         else if n48 > 0 then n48
         else if n28 > 0 then n28 AND 0x0FFFFFFF
         else 0)"

definition ide_capacity_sectors :: "'d io \<Rightarrow> u8 \<Rightarrow> ('d, u32) sm" where
  "ide_capacity_sectors io drive d =
     (case ide_read_identify_words_cmd io drive ATA_CMD_IDENTIFY d of
        (Oob, d) \<Rightarrow> (Oob, d)
      | (ident, d) \<Rightarrow>
          (let total = (case ident of Ok buf \<Rightarrow> capacity_of_words buf | _ \<Rightarrow> 0) in
           bindS
             (if total = 0
              then bindS (ide_read_sectors io drive 0 1 (replicate 512 0)) (\<lambda>_. retS 16384)
              else retS total) (\<lambda>total.
           retS (ucast (if total > 0xFFFFFFFF then 0xFFFFFFFF else total))) d))"

text \<open>
  \<open>ide_atapi_packet\<close>. Without a data phase it polls for completion; otherwise it reads chunks
  of at most 2048 bytes, two bytes per word, so that a chunk of odd length stores one byte past
  its end. The buffer is a list of bytes; a store past its end is \<open>Oob\<close>.
\<close>

function packet_wait_loop :: "'d io \<Rightarrow> int \<Rightarrow> ('d, unit) sm" where
  "packet_wait_loop io n =
     (if n < 500000
      then bindS (inb io (ide_base + ATA_REG_STATUS)) (\<lambda>st.
        if st AND ATA_STS_ERR \<noteq> 0 then failS (-1)
        else if st AND ATA_STS_BSY = 0 then retS ()
        else bindS (ide_delay io) (\<lambda>_. packet_wait_loop io (n + 1)))
      else failS (-1))"
  by pat_completeness auto
termination by (relation "measure (\<lambda>(io, n). nat (500000 - n))") auto

declare packet_wait_loop.simps [simp del]

definition packet_chunk :: "'d io \<Rightarrow> nat \<Rightarrow> nat \<Rightarrow> u8 list \<Rightarrow> ('d, u8 list) sm" where
  "packet_chunk io got chunk buf =
     bindS (read_words io ((chunk + 1) div 2)) (\<lambda>ws.
     if got + 2 * ((chunk + 1) div 2) > length buf then oobS
     else retS (put_at got (bytes_of_words ws) buf))"

text \<open>The status is read again when the wait fails: an idle device ends the transfer.\<close>

function packet_data_loop :: "'d io \<Rightarrow> nat \<Rightarrow> nat \<Rightarrow> u8 list \<Rightarrow> ('d, nat \<times> u8 list) sm" where
  "packet_data_loop io left got buf d =
     (if left = 0 then (Ok (got, buf), d)
      else case ide_wait_drq io d of
        (Oob, d) \<Rightarrow> (Oob, d)
      | (Err _, d) \<Rightarrow>
          bindS (inb io (ide_base + ATA_REG_STATUS)) (\<lambda>st.
            if st AND ATA_STS_BSY = 0 \<and> st AND ATA_STS_DRQ = 0 then retS (got, buf)
            else failS (-1)) d
      | (Ok _, d) \<Rightarrow>
          let chunk = min left 2048 in
          (case packet_chunk io got chunk buf d of
             (Ok buf, d) \<Rightarrow> packet_data_loop io (left - chunk) (got + chunk) buf d
           | (Err e, d) \<Rightarrow> (Err e, d)
           | (Oob, d) \<Rightarrow> (Oob, d)))"
  by pat_completeness auto
termination by (relation "measure (\<lambda>(io, left, got, buf, d). left)") auto

declare packet_data_loop.simps [simp del]

text \<open>
  The result is the byte count and the buffer. \<open>buf = None\<close> is a null buffer, \<open>buf_sz\<close> the size
  the caller passes.
\<close>

definition ide_atapi_packet ::
  "'d io \<Rightarrow> u8 \<Rightarrow> u8 list \<Rightarrow> bool \<Rightarrow> u8 list option \<Rightarrow> u32 \<Rightarrow> ('d, nat \<times> u8 list) sm" where
  "ide_atapi_packet io drive cdb data_in buf buf_sz =
     bindS (errIf (drive > 1) (-1)) (\<lambda>_.
     bindS (errIf (data_in \<and> buf_sz > 0 \<and> buf = None) (-1)) (\<lambda>_.
     let byte_count = (if buf_sz = 0 then 8 else if buf_sz > 0xFFFE then 0xFFFE else ucast buf_sz :: u16) in
     bindS (ide_init io) (\<lambda>_.
     bindS (ide_select io drive 0) (\<lambda>_.
     bindS (outb io (ide_base + ATA_REG_FEATURES) 0) (\<lambda>_.
     bindS (outb io (ide_base + ATA_REG_SECCOUNT0) 0) (\<lambda>_.
     bindS (outb io (ide_base + ATA_REG_LBA0) 0) (\<lambda>_.
     bindS (outb io (ide_base + ATA_REG_LBA1) (ucast (byte_count AND 0xFF))) (\<lambda>_.
     bindS (outb io (ide_base + ATA_REG_LBA2) (ucast (drop_bit 8 byte_count))) (\<lambda>_.
     bindS (outb io (ide_base + ATA_REG_DRIVE) (0xE0 OR push_bit 4 (drive AND 1))) (\<lambda>_.
     bindS (ide_delay io) (\<lambda>_.
     bindS (outb io (ide_base + ATA_REG_COMMAND) ATA_CMD_PACKET) (\<lambda>_.
     bindS (ide_delay io) (\<lambda>_.
     bindS (ide_wait_drq io) (\<lambda>_.
     bindS (write_words io (words_of_bytes (take 12 cdb))) (\<lambda>_.
     if \<not> data_in \<or> buf_sz = 0 \<or> buf = None
     then bindS (packet_wait_loop io 0) (\<lambda>_. retS (0, case buf of None \<Rightarrow> [] | Some b \<Rightarrow> b))
     else bindS (packet_data_loop io (unat buf_sz) 0 (the buf)) (\<lambda>(got, b).
          bindS (ignoreS (ide_wait_not_busy io)) (\<lambda>_.
          bindS (inb io (ide_base + ATA_REG_STATUS)) (\<lambda>st.
          bindS (errIf (st AND ATA_STS_ERR \<noteq> 0) (-1)) (\<lambda>_. retS (got, b))))))))))))))))))))"

definition ide_atapi_inquiry :: "'d io \<Rightarrow> u8 \<Rightarrow> u8 list \<Rightarrow> u32 \<Rightarrow> ('d, nat \<times> u8 list) sm" where
  "ide_atapi_inquiry io drive buf buf_sz =
     bindS (errIf (buf_sz < 36) (-1)) (\<lambda>_.
     let cdb = (replicate 12 0)[0 := 0x12, 4 := ucast (if buf_sz > 255 then 255 else buf_sz)] in
     ide_atapi_packet io drive cdb True (Some buf) buf_sz)"

definition ide_atapi_read2048 :: "'d io \<Rightarrow> u8 \<Rightarrow> u32 \<Rightarrow> u8 list \<Rightarrow> ('d, u8 list) sm" where
  "ide_atapi_read2048 io drive lba_blk buf =
     (let cdb = (replicate 12 0)[0 := 0x28,
            2 := ucast (drop_bit 24 lba_blk AND 0xFF), 3 := ucast (drop_bit 16 lba_blk AND 0xFF),
            4 := ucast (drop_bit 8 lba_blk AND 0xFF), 5 := ucast (lba_blk AND 0xFF), 7 := 0, 8 := 1] in
      bindS (ide_atapi_packet io drive cdb True (Some buf) 2048) (\<lambda>(act, b).
      bindS (errIf (act \<noteq> 2048) (-1)) (\<lambda>_. retS b)))"


section \<open>A reference disk\<close>

text \<open>
  The behaviour of an ATA disk on the ports the driver uses: two drives of 512-byte sectors,
  the task file registers, and the data phase of a one-sector transfer. After a command and
  after the last word of a written sector the disk is busy for \<open>lat\<close> status reads. A command it
  does not know, or one for another number of sectors, is aborted.
\<close>

datatype phase = Idle | Reading "u16 list" | Writing "u16 list"

record ata =
  sectors :: "bool \<Rightarrow> u32 \<Rightarrow> u8 list"
  r_count :: u8
  r_lba0 :: u8
  r_lba1 :: u8
  r_lba2 :: u8
  r_dh :: u8
  phase :: phase
  busy :: nat
  aborted :: bool

definition ata_drive :: "ata \<Rightarrow> bool" where "ata_drive d = bit (r_dh d) 4"
definition ata_lba :: "ata \<Rightarrow> u32" where
  "ata_lba d = ucast (r_lba0 d) OR push_bit 8 (ucast (r_lba1 d)) OR push_bit 16 (ucast (r_lba2 d))
     OR push_bit 24 (ucast (r_dh d) AND 0xF)"

definition ata_status :: "ata \<Rightarrow> u8" where
  "ata_status d =
     (if busy d > 0 then 0x80
      else 0x40 OR (if phase d = Idle then 0 else 0x08) OR (if aborted d then 1 else 0))"

definition ata_command :: "nat \<Rightarrow> u8 \<Rightarrow> ata \<Rightarrow> ata" where
  "ata_command lat cmd d =
     (let d = d\<lparr>busy := lat, aborted := False\<rparr> in
      if cmd = 0x20 \<and> r_count d = 1
      then d\<lparr>phase := Reading (words_of_bytes (sectors d (ata_drive d) (ata_lba d)))\<rparr>
      else if cmd = 0x30 \<and> r_count d = 1 then d\<lparr>phase := Writing []\<rparr>
      else d\<lparr>phase := Idle, aborted := True\<rparr>)"

definition ata_put_word :: "nat \<Rightarrow> u16 \<Rightarrow> ata \<Rightarrow> ata" where
  "ata_put_word lat w d =
     (case phase d of
        Writing ws \<Rightarrow>
          (if Suc (length ws) < 256 then d\<lparr>phase := Writing (ws @ [w])\<rparr>
           else d\<lparr>phase := Idle, busy := lat,
                  sectors := (sectors d)(ata_drive d := (sectors d (ata_drive d))
                    (ata_lba d := bytes_of_words (ws @ [w])))\<rparr>)
      | _ \<Rightarrow> d)"

definition ata_get_word :: "ata \<Rightarrow> u16 \<times> ata" where
  "ata_get_word d =
     (case phase d of
        Reading (w # ws) \<Rightarrow> (w, d\<lparr>phase := if ws = [] then Idle else Reading ws\<rparr>)
      | _ \<Rightarrow> (0xFFFF, d))"

definition ata_io :: "nat \<Rightarrow> ata io" where
  "ata_io lat =
     \<lparr>io_inb = (\<lambda>port d. (ata_status d, if port = 0x1F7 then d\<lparr>busy := busy d - 1\<rparr> else d)),
      io_inw = (\<lambda>port d. if port = 0x1F0 then ata_get_word d else (0xFFFF, d)),
      io_outb = (\<lambda>port v d.
        if port = 0x1F2 then d\<lparr>r_count := v\<rparr> else if port = 0x1F3 then d\<lparr>r_lba0 := v\<rparr>
        else if port = 0x1F4 then d\<lparr>r_lba1 := v\<rparr> else if port = 0x1F5 then d\<lparr>r_lba2 := v\<rparr>
        else if port = 0x1F6 then d\<lparr>r_dh := v\<rparr> else if port = 0x1F7 then ata_command lat v d
        else d),
      io_outw = (\<lambda>port w d. if port = 0x1F0 then ata_put_word lat w d else d)\<rparr>"

definition ata_idle :: "ata \<Rightarrow> bool" where
  "ata_idle d \<longleftrightarrow> phase d = Idle \<and> busy d = 0 \<and> \<not> aborted d"

definition ata_ok :: "ata \<Rightarrow> bool" where
  "ata_ok d \<longleftrightarrow> (\<forall>b l. length (sectors d b l) = 512)"

lemma word_pair:
  fixes b0 b1 :: u8
  shows "ucast (ucast b0 OR push_bit 8 (ucast b1) :: u16) = b0"
    and "ucast (drop_bit 8 (ucast b0 OR push_bit 8 (ucast b1) :: u16)) = b1"
proof -
  have "\<not> bit b0 (8 + n)" for n using bit_imp_le_length [of b0 "8 + n"] by auto
  then show "ucast (drop_bit 8 (ucast b0 OR push_bit 8 (ucast b1) :: u16)) = b1"
    by (auto intro!: bit_word_eqI simp: bit_simps)
  show "ucast (ucast b0 OR push_bit 8 (ucast b1) :: u16) = b0"
    by (auto intro!: bit_word_eqI simp: bit_simps)
qed

lemma bytes_of_words_of_bytes [simp]: "even (length bs) \<Longrightarrow> bytes_of_words (words_of_bytes bs) = bs"
  by (induction bs rule: words_of_bytes.induct) (simp_all add: word_pair del: drop_bit_or)

lemma length_words_of_bytes [simp]: "length (words_of_bytes bs) = length bs div 2"
  by (induction bs rule: words_of_bytes.induct) auto

lemma length_bytes_of_words [simp]: "length (bytes_of_words ws) = 2 * length ws"
  by (induction ws) auto

lemmas port_simps = inb_def inw_def outb_def outw_def ata_io_def ata_defs ide_delay_def

lemma ata_delay [simp]: "ide_delay (ata_io lat) d = (Ok (), d)"
  by (simp add: port_simps sm_simps)

lemma ata_inb_status: "inb (ata_io lat) (ide_base + ATA_REG_STATUS) d =
    (Ok (ata_status d), d\<lparr>busy := busy d - 1\<rparr>)"
  by (simp add: port_simps)

lemma ata_status_bits:
  "(ata_status d AND ATA_STS_BSY = 0) = (busy d = 0)"
  "busy d = 0 \<Longrightarrow> (ata_status d AND ATA_STS_ERR = 0) = (\<not> aborted d)"
  "busy d = 0 \<Longrightarrow> (ata_status d AND ATA_STS_DRQ = 0) = (phase d = Idle)"
  by (auto simp: ata_status_def ata_defs)

text \<open>The wait for the end of BSY succeeds when the bound on the polls is not reached, and
  fails otherwise.\<close>

lemma wait_not_busy_loop_ata:
  assumes "0 \<le> i"
  shows "wait_not_busy_loop (ata_io lat) i d =
    (if i + int (busy d) < 100000 then (Ok (ata_status (d\<lparr>busy := 0\<rparr>)), d\<lparr>busy := 0\<rparr>)
     else (Err (-1), d\<lparr>busy := busy d - nat (100000 - i)\<rparr>))"
  using assms
proof (induction "busy d" arbitrary: i d)
  case 0
  then have d: "d\<lparr>busy := 0\<rparr> = d" by simp
  then have "ata_status (d\<lparr>busy := 0\<rparr>) = ata_status d" by (simp only:)
  with 0 d show ?case
    by (subst wait_not_busy_loop.simps) (simp add: sm_simps ata_inb_status ata_status_bits)
next
  case (Suc b)
  have *: "b - nat (100000 - (i + 1)) = Suc b - nat (100000 - i)" if "i < 100000"
    using that by linarith
  show ?case
  proof (cases "i < 100000")
    case True
    have "wait_not_busy_loop (ata_io lat) i d = wait_not_busy_loop (ata_io lat) (i + 1) (d\<lparr>busy := b\<rparr>)"
      using True Suc(2) [symmetric]
      by (subst wait_not_busy_loop.simps) (simp add: sm_simps ata_inb_status ata_status_bits)
    also have "\<dots> = (if i + 1 + int b < 100000
        then (Ok (ata_status (d\<lparr>busy := 0\<rparr>)), d\<lparr>busy := 0\<rparr>)
        else (Err (-1), d\<lparr>busy := b - nat (100000 - (i + 1))\<rparr>))"
      using Suc(1) [of "d\<lparr>busy := b\<rparr>" "i + 1"] Suc.prems by simp
    finally show ?thesis using Suc(2) [symmetric] * [OF True] by (simp add: algebra_simps)
  next
    case False
    then have "d\<lparr>busy := busy d - nat (100000 - i)\<rparr> = d" by simp
    with False show ?thesis
      by (subst wait_not_busy_loop.simps) (simp add: sm_simps)
  qed
qed

lemma wait_not_busy_ata:
  "busy d < 100000 \<Longrightarrow> ide_wait_not_busy (ata_io lat) d = (Ok (ata_status (d\<lparr>busy := 0\<rparr>)), d\<lparr>busy := 0\<rparr>)"
  by (simp add: ide_wait_not_busy_def wait_not_busy_loop_ata)

lemma wait_drq_ata:
  "busy d = 0 \<Longrightarrow> \<not> aborted d \<Longrightarrow> phase d \<noteq> Idle \<Longrightarrow> ide_wait_drq (ata_io lat) d = (Ok (), d)"
  by (subst ide_wait_drq_def, subst wait_drq_loop.simps)
    (simp add: sm_simps ata_inb_status ata_status_bits)


text \<open>The words of a sector, out of the data port and into it.\<close>

lemma read_words_ata:
  "phase d = (if ws = [] then Idle else Reading ws) \<Longrightarrow>
   read_words (ata_io lat) (length ws) d = (Ok ws, d\<lparr>phase := Idle\<rparr>)"
proof (induction ws arbitrary: d)
  case Nil
  then show ?case by (simp add: retS_def)
next
  case (Cons w ws)
  have "inw (ata_io lat) (ide_base + ATA_REG_DATA) d =
      (Ok w, d\<lparr>phase := if ws = [] then Idle else Reading ws\<rparr>)"
    using Cons.prems by (simp add: port_simps ata_get_word_def)
  with Cons.IH [of "d\<lparr>phase := if ws = [] then Idle else Reading ws\<rparr>"] show ?case
    by (simp add: sm_simps)
qed

lemma outw_ata: "outw (ata_io lat) (ide_base + ATA_REG_DATA) w d = (Ok (), ata_put_word lat w d)"
  by (simp add: port_simps)

definition ata_stored :: "nat \<Rightarrow> u16 list \<Rightarrow> ata \<Rightarrow> ata" where
  "ata_stored lat ws d = d\<lparr>phase := Idle, busy := lat,
     sectors := (sectors d)(ata_drive d := (sectors d (ata_drive d))(ata_lba d := bytes_of_words ws))\<rparr>"

lemma write_words_ata:
  assumes "phase d = Writing acc" and "length acc + length ws = 256" and "ws \<noteq> []"
  shows "write_words (ata_io lat) ws d = (Ok (), ata_stored lat (acc @ ws) d)"
  using assms
proof (induction ws arbitrary: d acc)
  case Nil
  then show ?case by simp
next
  case (Cons w ws)
  show ?case
  proof (cases "ws = []")
    case True
    with Cons.prems show ?thesis
      by (simp add: outw_ata sm_simps ata_put_word_def ata_stored_def)
  next
    case False
    let ?d = "d\<lparr>phase := Writing (acc @ [w])\<rparr>"
    have "0 < length ws" using False by simp
    then have "Suc (length acc) < 256" using Cons.prems(2) by (cases ws) simp_all
    then have "ata_put_word lat w d = ?d"
      using Cons.prems(1) by (simp add: ata_put_word_def)
    moreover have "write_words (ata_io lat) ws ?d = (Ok (), ata_stored lat ((acc @ [w]) @ ws) ?d)"
      using Cons.IH [of ?d "acc @ [w]"] Cons.prems(2) False by simp
    moreover have "ata_stored lat (acc @ w # ws) ?d = ata_stored lat (acc @ w # ws) d"
      by (simp add: ata_stored_def ata_drive_def ata_lba_def)
    ultimately show ?thesis by (simp add: outw_ata sm_simps)
  qed
qed

text \<open>The command registers address the sector.\<close>

lemma bit_above:
  fixes w :: "'a::len word"
  assumes "unat w < 2 ^ k" and "k \<le> n"
  shows "\<not> bit w n"
proof
  assume "bit w n"
  then have "bit (unat w) n" by (simp add: bit_unsigned_iff)
  moreover have "(2 :: nat) ^ k \<le> 2 ^ n" using assms(2) by simp
  with assms(1) have "unat w < 2 ^ n" by linarith
  ultimately show False by (simp add: bit_iff_odd)
qed

lemma lba_registers:
  assumes "unat (cur :: u32) < 2 ^ 28" and "drive \<le> (1 :: u8)"
    and "r_lba0 d = ucast (cur AND 0xFF)" and "r_lba1 d = ucast (drop_bit 8 cur AND 0xFF)"
    and "r_lba2 d = ucast (drop_bit 16 cur AND 0xFF)"
    and "r_dh d = 0xE0 OR push_bit 4 (drive AND 1) OR (ucast (drop_bit 24 cur AND 0x0F) AND 0x0F)"
  shows "ata_lba d = cur" and "ata_drive d = (drive = 1)"
proof -
  have m: "(0xFF :: u32) = mask 8" "(0xF :: u32) = mask 4" "(0xF :: u8) = mask 4" "(0xE0 :: u8) = push_bit 5 (mask 3)"
    by (simp_all add: mask_eq_exp_minus_1)
  have b: "bit (r_lba0 d) n \<longleftrightarrow> n < 8 \<and> bit cur n" "bit (r_lba1 d) n \<longleftrightarrow> n < 8 \<and> bit cur (n + 8)"
    "bit (r_lba2 d) n \<longleftrightarrow> n < 8 \<and> bit cur (n + 16)"
    "bit (r_dh d AND 0xF) n \<longleftrightarrow> n < 4 \<and> bit cur (n + 24)" for n
    by (auto simp: assms(3-6) m bit_simps ac_simps)
  have "bit (ata_lba d) n = bit cur n" if "n < 32" for n
  proof -
    have "bit (ata_lba d) n \<longleftrightarrow> bit (r_lba0 d) n \<or> 8 \<le> n \<and> bit (r_lba1 d) (n - 8) \<or>
        16 \<le> n \<and> bit (r_lba2 d) (n - 16) \<or> 24 \<le> n \<and> bit (r_dh d AND 0xF) (n - 24)"
      using that by (auto simp: ata_lba_def m bit_simps)
    then have eq: "bit (ata_lba d) n \<longleftrightarrow> n < 8 \<and> bit cur n \<or> 8 \<le> n \<and> n - 8 < 8 \<and> bit cur n \<or>
        16 \<le> n \<and> n - 16 < 8 \<and> bit cur n \<or> 24 \<le> n \<and> n - 24 < 4 \<and> bit cur n"
      unfolding b by (metis le_add_diff_inverse2)
    have "n < 8 \<or> 8 \<le> n \<and> n - 8 < 8 \<or> 16 \<le> n \<and> n - 16 < 8 \<or> 24 \<le> n \<and> n - 24 < 4 \<or> 28 \<le> n"
      by linarith
    with bit_above [OF assms(1), of n] show ?thesis unfolding eq by blast
  qed
  then show "ata_lba d = cur" by (auto intro!: bit_word_eqI)
  have "drive = 0 \<or> drive = 1" using assms(2) by (auto simp: word_le_nat_alt le_Suc_eq word_unat_eq_iff)
  then show "ata_drive d = (drive = 1)"
    by (auto simp: ata_drive_def assms(6) m bit_simps)
qed

lemma ata_address_frame [simp]:
  "ata_lba (d\<lparr>busy := x\<rparr>) = ata_lba d" "ata_drive (d\<lparr>busy := x\<rparr>) = ata_drive d"
  "ata_lba (d\<lparr>phase := y\<rparr>) = ata_lba d" "ata_drive (d\<lparr>phase := y\<rparr>) = ata_drive d"
  "ata_lba (d\<lparr>aborted := z\<rparr>) = ata_lba d" "ata_drive (d\<lparr>aborted := z\<rparr>) = ata_drive d"
  by (simp_all add: ata_lba_def ata_drive_def)

lemma rw_command_issue:
  assumes "drive \<le> 1"
  obtains c where "rw_command (ata_io lat) drive cur writing d =
      bindS (ide_wait_not_busy (ata_io lat)) (\<lambda>_. retS ()) c" and "busy c = lat"
    and "\<not> aborted c" and "sectors c = sectors d"
    and "unat cur < 2 ^ 28 \<longrightarrow> ata_lba c = cur \<and> ata_drive c = (drive = 1) \<and>
      phase c = (if writing then Writing [] else Reading (words_of_bytes (sectors d (drive = 1) cur)))"
proof -
  define e where "e = d\<lparr>r_dh := 0xE0 OR push_bit 4 (drive AND 1) OR (ucast (drop_bit 24 cur AND 0x0F) AND 0x0F),
    r_count := 1, r_lba0 := ucast (cur AND 0xFF), r_lba1 := ucast (drop_bit 8 cur AND 0xFF),
    r_lba2 := ucast (drop_bit 16 cur AND 0xFF)\<rparr>"
  define cmd where "cmd = (if writing then ATA_CMD_WRITE_PIO else ATA_CMD_READ_PIO)"
  have e: "ata_lba e = cur" "ata_drive e = (drive = 1)" if "unat cur < 2 ^ 28"
    by (rule lba_registers [OF that assms]; simp add: e_def)+
  have e': "r_count e = 1" "sectors e = sectors d" by (simp_all add: e_def)
  have "\<not> drive > 1" using assms by simp
  then have "rw_command (ata_io lat) drive cur writing d =
      bindS (ide_wait_not_busy (ata_io lat)) (\<lambda>_. retS ()) (ata_command lat cmd e)"
    unfolding rw_command_def ide_select_def by (simp add: sm_simps port_simps e_def cmd_def)
  then show thesis
    by (rule that) (simp_all add: ata_command_def Let_def cmd_def ata_defs e e')
qed

lemma rw_command_ata:
  assumes "lat < 100000" and "drive \<le> 1" and "unat cur < 2 ^ 28"
  obtains d' where "rw_command (ata_io lat) drive cur writing d = (Ok (), d')"
    and "busy d' = 0" and "\<not> aborted d'" and "sectors d' = sectors d"
    and "ata_lba d' = cur" and "ata_drive d' = (drive = 1)"
    and "phase d' = (if writing then Writing [] else Reading (words_of_bytes (sectors d (drive = 1) cur)))"
proof -
  obtain c where c: "rw_command (ata_io lat) drive cur writing d =
      bindS (ide_wait_not_busy (ata_io lat)) (\<lambda>_. retS ()) c" "busy c = lat"
    "\<not> aborted c" "sectors c = sectors d" "unat cur < 2 ^ 28 \<longrightarrow> ata_lba c = cur \<and> ata_drive c = (drive = 1) \<and>
      phase c = (if writing then Writing [] else Reading (words_of_bytes (sectors d (drive = 1) cur)))"
    by (rule rw_command_issue [OF assms(2), where lat = lat and cur = cur and writing = writing and d = d])
  have "rw_command (ata_io lat) drive cur writing d = (Ok (), c\<lparr>busy := 0\<rparr>)"
    using assms(1) c(1,2) by (simp add: sm_simps wait_not_busy_ata)
  then show thesis by (rule that) (use c assms(3) in simp_all)
qed

lemma rw_sector_ata:
  assumes "lat < 100000" and "drive \<le> 1" and "unat cur < 2 ^ 28" and "ata_ok d"
    and "off + 512 \<le> length buf"
  obtains d' where "ata_idle d'" and
    "rw_sector (ata_io lat) drive cur writing off buf d =
       (Ok (if writing then buf else put_at off (sectors d (drive = 1) cur) buf), d')"
    and "sectors d' = (if writing
       then (sectors d)(drive = 1 := (sectors d (drive = 1))(cur := get_at off 512 buf)) else sectors d)"
proof -
  obtain c where c: "rw_command (ata_io lat) drive cur writing d = (Ok (), c)" "busy c = 0"
    "\<not> aborted c" "sectors c = sectors d" "ata_lba c = cur" "ata_drive c = (drive = 1)"
    "phase c = (if writing then Writing [] else Reading (words_of_bytes (sectors d (drive = 1) cur)))"
    by (rule rw_command_ata [OF assms(1-3)])
  have drq: "ide_wait_drq (ata_io lat) c = (Ok (), c)"
    using c by (intro wait_drq_ata) auto
  show thesis
  proof (cases writing)
    case True
    let ?ws = "words_of_bytes (get_at off 512 buf)" and ?e = "ata_stored lat (words_of_bytes (get_at off 512 buf)) c"
    have "length ?ws = 256" using assms(5) by simp
    then have w: "write_words (ata_io lat) ?ws c = (Ok (), ?e)"
      using write_words_ata [of c "[]" ?ws] c(7) True by fastforce
    have "busy ?e < 100000" using assms(1) by (simp add: ata_stored_def)
    then have r: "ide_wait_not_busy (ata_io lat) ?e = (Ok (ata_status (?e\<lparr>busy := 0\<rparr>)), ?e\<lparr>busy := 0\<rparr>)"
      by (rule wait_not_busy_ata)
    have f: "phase (?e\<lparr>busy := 0\<rparr>) = Idle" "\<not> aborted (?e\<lparr>busy := 0\<rparr>)" "busy (?e\<lparr>busy := 0\<rparr>) = 0"
      "sectors (?e\<lparr>busy := 0\<rparr>) = (sectors d)(drive = 1 := (sectors d (drive = 1))(cur := get_at off 512 buf))"
      using c assms(5) by (simp_all add: ata_stored_def)
    show thesis
      by (rule that [of "?e\<lparr>busy := 0\<rparr>"])
        (use True c drq w r f assms(5) in \<open>simp_all add: rw_sector_def sm_simps ata_inb_status ata_status_bits ata_idle_def\<close>)
  next
    case False
    let ?ws = "words_of_bytes (sectors d (drive = 1) cur)"
    have len: "length (sectors d (drive = 1) cur) = 512" using assms(4) by (simp add: ata_ok_def)
    then have l: "length ?ws = 256" by simp
    then have "?ws \<noteq> []" by (metis length_0_conv zero_neq_numeral)
    then have "phase c = (if ?ws = [] then Idle else Reading ?ws)" using c(7) False by simp
    then have "read_words (ata_io lat) (length ?ws) c = (Ok ?ws, c\<lparr>phase := Idle\<rparr>)"
      by (rule read_words_ata)
    then have r: "read_words (ata_io lat) 256 c = (Ok ?ws, c\<lparr>phase := Idle\<rparr>)" by (simp only: l)
    show thesis
      by (rule that [of "c\<lparr>phase := Idle\<rparr>"])
        (use False c drq r assms(5) len in \<open>simp_all add: rw_sector_def sm_simps ata_inb_status ata_status_bits ata_idle_def\<close>)
  qed
qed


text \<open>Transfers of several sectors. \<open>run_of f l n\<close> is the contents of the \<open>n\<close> sectors from \<open>l\<close> on.\<close>

definition run_of :: "(u32 \<Rightarrow> u8 list) \<Rightarrow> u32 \<Rightarrow> nat \<Rightarrow> u8 list" where
  "run_of f l n = concat (map (\<lambda>k. f (l + of_nat k)) [0..<n])"

lemma run_of_Suc: "run_of f l (Suc n) = f l @ run_of f (l + 1) n"
proof -
  have "[0..<Suc n] = 0 # map Suc [0..<n]" by (metis map_Suc_upt upt_conv_Cons zero_less_Suc)
  then show ?thesis by (simp add: run_of_def o_def add.assoc del: upt_Suc)
qed

lemma length_run_of: "(\<And>l. length (f l) = 512) \<Longrightarrow> length (run_of f l n) = 512 * n"
  by (simp add: run_of_def length_concat o_def sum_list_triv)

lemma put_at_twice:
  "off + length xs + length ys \<le> length bs \<Longrightarrow>
   put_at (off + length xs) ys (put_at off xs bs) = put_at off (xs @ ys) bs"
  by (simp add: put_at_def ac_simps)

lemma rw_loop_read_ata:
  assumes "lat < 100000" and "drive \<le> 1" and "ata_ok d" and "ata_idle d"
    and "unat lba + n + todo \<le> 2 ^ 28" and "512 * (n + todo) \<le> length buf"
  shows "\<exists>d'. rw_loop (ata_io lat) drive lba False n todo buf d =
      (Ok (put_at (512 * n) (run_of (sectors d (drive = 1)) (lba + of_nat n) todo) buf), d') \<and>
    ata_idle d' \<and> sectors d' = sectors d"
  using assms
proof (induction todo arbitrary: n buf d)
  case 0
  then show ?case by (auto simp: retS_def run_of_def put_at_def)
next
  case (Suc todo)
  let ?s = "sectors d (drive = 1) (lba + of_nat n)"
  have "unat (lba + of_nat n) = unat lba + n"
    using Suc.prems(5) by (subst unat_add_lem [THEN iffD1]) (simp_all add: unat_of_nat take_bit_nat_eq_self)
  then have "unat (lba + of_nat n) < 2 ^ 28" using Suc.prems(5) by simp
  note cur = this
  have off: "512 * n + 512 \<le> length buf" using Suc.prems(6) by simp
  obtain d1 where d1: "ata_idle d1" "sectors d1 = sectors d"
    "rw_sector (ata_io lat) drive (lba + of_nat n) False (512 * n) buf d = (Ok (put_at (512 * n) ?s buf), d1)"
    by (rule rw_sector_ata [OF Suc.prems(1,2) cur Suc.prems(3) off, where writing = False]) (rule that, simp_all)
  have len: "length ?s = 512" using Suc.prems(3) by (simp add: ata_ok_def)
  have "ata_ok d1" using d1(2) Suc.prems(3) by (simp add: ata_ok_def)
  from Suc.IH [OF Suc.prems(1,2) this d1(1), of "Suc n" "put_at (512 * n) ?s buf"] Suc.prems(5,6) len d1(2)
  obtain d' where d': "ata_idle d'" "sectors d' = sectors d"
    "rw_loop (ata_io lat) drive lba False (Suc n) todo (put_at (512 * n) ?s buf) d1 =
       (Ok (put_at (512 * Suc n) (run_of (sectors d (drive = 1)) (lba + of_nat (Suc n)) todo) (put_at (512 * n) ?s buf)), d')"
    by auto
  have "put_at (512 * Suc n) (run_of (sectors d (drive = 1)) (lba + of_nat (Suc n)) todo) (put_at (512 * n) ?s buf) =
      put_at (512 * n) (run_of (sectors d (drive = 1)) (lba + of_nat n) (Suc todo)) buf"
    using put_at_twice [of "512 * n" ?s "run_of (sectors d (drive = 1)) (lba + of_nat n + 1) todo" buf]
      len Suc.prems(3,6) by (simp add: run_of_Suc length_run_of ata_ok_def ac_simps)
  with d' d1 show ?case by (simp add: bindS_def)
qed


lemma ex_range_Suc: "(\<exists>k\<ge>n. k < n + Suc t \<and> P k) \<longleftrightarrow> P n \<or> (\<exists>k\<ge>Suc n. k < Suc n + t \<and> P k)"
proof -
  have "n \<le> k \<and> k < n + Suc t \<longleftrightarrow> k = n \<or> Suc n \<le> k \<and> k < Suc n + t" for k by auto
  then have "(\<exists>k. (n \<le> k \<and> k < n + Suc t) \<and> P k) \<longleftrightarrow> (\<exists>k. (k = n \<or> Suc n \<le> k \<and> k < Suc n + t) \<and> P k)"
    by (simp only:)
  then show ?thesis by (simp add: conj_disj_distribR ex_disj_distrib)
qed

lemma rw_loop_write_ata:
  assumes "lat < 100000" and "drive \<le> 1" and "ata_ok d" and "ata_idle d"
    and "unat lba + n + todo \<le> 2 ^ 28" and "512 * (n + todo) \<le> length buf"
  shows "\<exists>d'. rw_loop (ata_io lat) drive lba True n todo buf d = (Ok buf, d') \<and> ata_idle d' \<and> ata_ok d' \<and>
    sectors d' = (\<lambda>b l. if b = (drive = 1) \<and> (\<exists>k\<ge>n. k < n + todo \<and> l = lba + of_nat k)
      then get_at (512 * unat (l - lba)) 512 buf else sectors d b l)"
  using assms
proof (induction todo arbitrary: n d)
  case 0
  then show ?case by (intro exI [of _ d]) (auto simp: retS_def fun_eq_iff)
next
  case (Suc todo)
  have un: "unat (of_nat k :: u32) = k" if "k \<le> n + Suc todo" for k
    using that Suc.prems(5) by (simp add: unat_of_nat take_bit_nat_eq_self)
  have "unat (lba + of_nat n) = unat lba + n"
    using Suc.prems(5) by (subst unat_add_lem [THEN iffD1]) (simp_all add: un)
  then have cur: "unat (lba + of_nat n) < 2 ^ 28" using Suc.prems(5) by simp
  have off: "512 * n + 512 \<le> length buf" using Suc.prems(6) by simp
  obtain d1 where d1: "ata_idle d1"
    "rw_sector (ata_io lat) drive (lba + of_nat n) True (512 * n) buf d = (Ok buf, d1)"
    "sectors d1 = (sectors d)(drive = 1 := (sectors d (drive = 1))(lba + of_nat n := get_at (512 * n) 512 buf))"
    by (rule rw_sector_ata [OF Suc.prems(1,2) cur Suc.prems(3) off, where writing = True]) (rule that, simp_all)
  have ok1: "ata_ok d1" using d1(3) Suc.prems(3) off by (simp add: ata_ok_def)
  from Suc.IH [OF Suc.prems(1,2) this d1(1), of "Suc n"] Suc.prems(5,6)
  obtain d' where d': "ata_idle d'" "ata_ok d'"
    "rw_loop (ata_io lat) drive lba True (Suc n) todo buf d1 = (Ok buf, d')"
    "sectors d' = (\<lambda>b l. if b = (drive = 1) \<and> (\<exists>k\<ge>Suc n. k < Suc n + todo \<and> l = lba + of_nat k)
      then get_at (512 * unat (l - lba)) 512 buf else sectors d1 b l)"
    by auto
  have split: "(\<exists>k\<ge>n. k < n + Suc todo \<and> l = lba + of_nat k) \<longleftrightarrow>
      l = lba + of_nat n \<or> (\<exists>k\<ge>Suc n. k < Suc n + todo \<and> l = lba + of_nat k)" for l
    by (rule ex_range_Suc)
  have "sectors d' = (\<lambda>b l. if b = (drive = 1) \<and> (\<exists>k\<ge>n. k < n + Suc todo \<and> l = lba + of_nat k)
      then get_at (512 * unat (l - lba)) 512 buf else sectors d b l)"
    unfolding split d'(4) d1(3) by (intro ext) (auto simp: un)
  with d' d1(2) show ?case by (simp add: bindS_def)
qed


lemma ide_write_ata:
  assumes "lat < 100000" and "drive \<le> 1" and "ata_ok d" and "ata_idle d"
    and "0 < count" and "count \<le> 256" and "unat lba + unat count \<le> 2 ^ 28"
    and "length buf = 512 * unat count"
  shows "\<exists>d'. ide_write_sectors (ata_io lat) drive lba count buf d = (Ok (), d') \<and> ata_idle d' \<and> ata_ok d' \<and>
    sectors d' = (\<lambda>b l. if b = (drive = 1) \<and> (\<exists>k<unat count. l = lba + of_nat k)
      then get_at (512 * unat (l - lba)) 512 buf else sectors d b l)"
proof -
  have "0 < unat count" using assms(5) by (simp add: word_less_nat_alt)
  then have lba: "\<not> lba > 0x0FFFFFFF" using assms(7) by (simp add: word_less_nat_alt)
  obtain d' where "rw_loop (ata_io lat) drive lba True 0 (unat count) buf d = (Ok buf, d')" "ata_idle d'"
    "ata_ok d'" "sectors d' = (\<lambda>b l. if b = (drive = 1) \<and> (\<exists>k\<ge>0. k < 0 + unat count \<and> l = lba + of_nat k)
      then get_at (512 * unat (l - lba)) 512 buf else sectors d b l)"
    using rw_loop_write_ata [of lat drive d lba 0 "unat count" buf] assms by auto
  then show ?thesis using assms(5,6) lba
    by (auto simp: ide_write_sectors_def ide_do_rw_def sm_simps)
qed

lemma ide_read_ata:
  assumes "lat < 100000" and "drive \<le> 1" and "ata_ok d" and "ata_idle d"
    and "0 < count" and "count \<le> 256" and "unat lba + unat count \<le> 2 ^ 28"
    and "length buf = 512 * unat count"
  shows "\<exists>d'. ide_read_sectors (ata_io lat) drive lba count buf d =
      (Ok (run_of (sectors d (drive = 1)) lba (unat count)), d') \<and> ata_idle d' \<and> sectors d' = sectors d"
proof -
  have "0 < unat count" using assms(5) by (simp add: word_less_nat_alt)
  then have lba: "\<not> lba > 0x0FFFFFFF" using assms(7) by (simp add: word_less_nat_alt)
  obtain d' where "rw_loop (ata_io lat) drive lba False 0 (unat count) buf d =
      (Ok (put_at 0 (run_of (sectors d (drive = 1)) lba (unat count)) buf), d')" "ata_idle d'" "sectors d' = sectors d"
    using rw_loop_read_ata [of lat drive d lba 0 "unat count" buf] assms by auto
  moreover have "put_at 0 (run_of (sectors d (drive = 1)) lba (unat count)) buf = run_of (sectors d (drive = 1)) lba (unat count)"
    using assms(3,8) by (simp add: put_at_def length_run_of ata_ok_def)
  ultimately show ?thesis using assms(5,6) lba
    by (auto simp: ide_read_sectors_def ide_do_rw_def sm_simps)
qed

text \<open>A run read back from sectors that hold the parts of a buffer is the buffer.\<close>

lemma concat_chunks:
  "length buf = c * n \<Longrightarrow> concat (map (\<lambda>k. get_at (c * k) c buf) [0..<n]) = buf"
proof (induction n arbitrary: buf)
  case (Suc n)
  have "concat (map (\<lambda>k. get_at (c * k) c buf) [0..<n]) =
      concat (map (\<lambda>k. get_at (c * k) c (take (c * n) buf)) [0..<n])"
  proof (intro arg_cong [where f = concat] map_cong refl)
    fix k assume "k \<in> set [0..<n]"
    then have "c * Suc k \<le> c * n" by (intro mult_le_mono2) simp
    then show "get_at (c * k) c buf = get_at (c * k) c (take (c * n) buf)"
      by (simp add: get_at_def drop_take)
  qed
  also have "\<dots> = take (c * n) buf" using Suc by (intro Suc.IH) simp
  finally show ?case using Suc.prems by (simp add: get_at_def)
qed simp

text \<open>
  C10: on a disk that answers within the polling bound, sectors written are read back. The
  write changes the addressed sectors of the addressed drive and no other sector, and reading
  the same range afterwards gives the buffer that was written.
\<close>

theorem ide_sectors_roundtrip:
  assumes "lat < 100000" and "drive \<le> 1" and "ata_ok d" and "ata_idle d"
    and "0 < count" and "count \<le> 256" and "unat lba + unat count \<le> 2 ^ 28"
    and "length buf = 512 * unat count" and "length tgt = 512 * unat count"
  shows "\<exists>d' d''. ide_write_sectors (ata_io lat) drive lba count buf d = (Ok (), d') \<and>
    (\<forall>b l. b \<noteq> (drive = 1) \<or> (\<forall>k<unat count. l \<noteq> lba + of_nat k) \<longrightarrow> sectors d' b l = sectors d b l) \<and>
    ide_read_sectors (ata_io lat) drive lba count tgt d' = (Ok buf, d'') \<and>
    ata_idle d'' \<and> sectors d'' = sectors d'"
proof -
  obtain d' where d': "ide_write_sectors (ata_io lat) drive lba count buf d = (Ok (), d')" "ata_idle d'" "ata_ok d'"
    "sectors d' = (\<lambda>b l. if b = (drive = 1) \<and> (\<exists>k<unat count. l = lba + of_nat k)
      then get_at (512 * unat (l - lba)) 512 buf else sectors d b l)"
    using ide_write_ata [OF assms(1-8)] by blast
  obtain d'' where d'': "ide_read_sectors (ata_io lat) drive lba count tgt d' =
      (Ok (run_of (sectors d' (drive = 1)) lba (unat count)), d'')" "ata_idle d''" "sectors d'' = sectors d'"
    using ide_read_ata [OF assms(1,2) d'(3,2) assms(5-7,9)] by blast
  have "unat count \<le> 256" using assms(6) by (simp add: word_le_nat_alt)
  then have "run_of (sectors d' (drive = 1)) lba (unat count) =
      concat (map (\<lambda>k. get_at (512 * k) 512 buf) [0..<unat count])"
    unfolding run_of_def d'(4)
    by (intro arg_cong [where f = concat] map_cong refl) (auto simp: unat_of_nat take_bit_nat_eq_self)
  also have "\<dots> = buf" by (rule concat_chunks [OF assms(8)])
  finally show ?thesis using d' d'' by (intro exI [of _ d'] exI [of _ d'']) auto
qed


text \<open>A disk with all sectors zero, at rest.\<close>

definition blank_ata :: ata where
  "blank_ata = \<lparr>sectors = (\<lambda>_ _. replicate 512 0), r_count = 0, r_lba0 = 0, r_lba1 = 0, r_lba2 = 0,
     r_dh = 0, phase = Idle, busy = 0, aborted = False\<rparr>"

theorem ide_sectors_roundtrip_witness:
  "\<exists>d' d''. ide_write_sectors (ata_io 9) 1 0x0ABCDE1 2 (replicate 1024 7) blank_ata = (Ok (), d') \<and>
    ide_read_sectors (ata_io 9) 1 0x0ABCDE1 2 (replicate 1024 0) d' = (Ok (replicate 1024 7), d'')"
  using ide_sectors_roundtrip [of 9 1 blank_ata 2 "0x0ABCDE1" "replicate 1024 7" "replicate 1024 0"]
  by (auto simp: blank_ata_def ata_ok_def ata_idle_def)

text \<open>
  C32: a disk that stays busy for 100000 status reads or more makes every transfer fail with
  \<open>-1\<close>; the driver does not hang.
\<close>

theorem ide_busy_disk_times_out:
  assumes "100000 \<le> lat" and "0 < count" and "count \<le> 256" and "lba \<le> 0x0FFFFFFF" and "drive \<le> 1"
  shows "fst (ide_read_sectors (ata_io lat) drive lba count buf d) = Err (-1) \<and>
    fst (ide_write_sectors (ata_io lat) drive lba count buf d) = Err (-1)"
proof -
  have "fst (rw_command (ata_io lat) drive cur w d) = Err (-1)" for cur w
  proof -
    obtain c where "rw_command (ata_io lat) drive cur w d =
        bindS (ide_wait_not_busy (ata_io lat)) (\<lambda>_. retS ()) c" "busy c = lat"
      by (rule rw_command_issue [OF assms(5), where lat = lat and cur = cur and writing = w and d = d])
    then show ?thesis
      using assms(1) by (simp add: sm_simps ide_wait_not_busy_def wait_not_busy_loop_ata)
  qed
  then have cmd: "\<exists>e. rw_command (ata_io lat) drive cur w d = (Err (-1), e)" for cur w
    by (metis prod.collapse)
  obtain n where n: "unat count = Suc n" using assms(2) by (cases "unat count") (auto simp: unat_eq_0)
  have "\<exists>e. rw_loop (ata_io lat) drive lba w 0 (Suc n) buf d = (Err (-1), e)" for w
    using cmd [of lba w] by (auto simp: rw_sector_def bindS_def)
  then have "fst (ide_do_rw (ata_io lat) drive lba count buf w d) = Err (-1)" for w
    using assms(2-4) n by (auto simp: ide_do_rw_def sm_simps) (metis fst_conv)
  then have "\<exists>e. ide_do_rw (ata_io lat) drive lba count buf w d = (Err (-1), e)" for w
    by (metis prod.collapse)
  from this [of True] this [of False] show ?thesis
    by (auto simp: ide_read_sectors_def ide_write_sectors_def bindS_def)
qed

theorem ide_busy_disk_times_out_witness:
  "fst (ide_read_sectors (ata_io 100000) 0 5 1 (replicate 512 0) blank_ata) = Err (-1)"
  using ide_busy_disk_times_out [of 100000 1 5 0 "replicate 512 0" blank_ata] by simp

end
