(* ===== verification/Paths.thy ===== *)
theory Paths
  imports CLib
begin

text \<open>
  Path handling of \<open>src/kernel/fs/chaseros/chaseros_ext2_vol.c\<close>. C strings are lists of
  characters without the terminating NUL; the callers pass valid pointers. An output buffer of
  \<open>outsz\<close> bytes is the returned string; \<open>None\<close> is the return code \<open>-1\<close>.
\<close>

definition CHASEROS_PATH_MAX :: nat where "CHASEROS_PATH_MAX = 256"
definition CHASEROS_SEG_MAX :: nat where "CHASEROS_SEG_MAX = 32"

definition slash :: char where "slash = CHR ''/''"

definition chaseros_strlen :: "string \<Rightarrow> nat" where "chaseros_strlen s = length s"

fun chaseros_strcmp :: "string \<Rightarrow> string \<Rightarrow> int" where
  "chaseros_strcmp [] [] = 0"
| "chaseros_strcmp (a # as) [] = int (of_char a)"
| "chaseros_strcmp [] (b # bs) = - int (of_char b)"
| "chaseros_strcmp (a # as) (b # bs) =
     (if a = b then chaseros_strcmp as bs else int (of_char a) - int (of_char b))"

text \<open>The copy of one segment: up to a slash, the end, or 127 characters.\<close>

fun take_seg :: "string \<Rightarrow> nat \<Rightarrow> string \<times> string" where
  "take_seg [] i = ([], [])"
| "take_seg (c # p) i =
     (if c \<noteq> slash \<and> i < 127 then (case take_seg p (i + 1) of (s, p') \<Rightarrow> (c # s, p')) else ([], c # p))"

lemma take_seg_append: "fst (take_seg p i) @ snd (take_seg p i) = p"
  by (induction p i rule: take_seg.induct) (auto split: prod.splits)

lemma take_seg_length: "length (snd (take_seg p i)) \<le> length p"
  by (metis take_seg_append length_append le_add2)

lemma take_seg_progress: "p \<noteq> [] \<Longrightarrow> hd p \<noteq> slash \<Longrightarrow> length (snd (take_seg p 0)) < length p"
  using take_seg_length [of "tl p" 1] by (cases p) (auto split: prod.splits)

text \<open>\<open>if (*p == '/') p++;\<close>\<close>

fun skip_slash :: "string \<Rightarrow> string" where
  "skip_slash (c # p) = (if c = slash then p else c # p)"
| "skip_slash [] = []"

lemma skip_slash_length: "length (skip_slash p) \<le> length p"
  by (cases p) auto

lemma seg_step_less:
  "p \<noteq> [] \<Longrightarrow> length (skip_slash (snd (take_seg p 0))) < length p"
proof (cases "hd p = slash")
  case True
  assume "p \<noteq> []"
  with True obtain q where "p = slash # q" by (cases p) auto
  then show ?thesis by simp
next
  case False
  assume "p \<noteq> []"
  from take_seg_progress [OF this False] show ?thesis
    using skip_slash_length [of "snd (take_seg p 0)"] by simp
qed

function norm_loop :: "string \<Rightarrow> string list \<Rightarrow> string list" where
  "norm_loop p segs =
     (if p \<noteq> [] \<and> length segs < CHASEROS_SEG_MAX
      then (let seg = fst (take_seg p 0); p' = skip_slash (snd (take_seg p 0)) in
        if seg = [] then norm_loop p' segs
        else if chaseros_strcmp seg ''.'' = 0 then norm_loop p' segs
        else if chaseros_strcmp seg ''..'' = 0
        then norm_loop p' (if segs \<noteq> [] then butlast segs else segs)
        else norm_loop p' (segs @ [seg]))
      else segs)"
  by pat_completeness auto
termination
  by (relation "measure (\<lambda>(p, segs). length p)") (simp_all add: seg_step_less)

declare norm_loop.simps [simp del]

text \<open>The output loop, which gives up when a segment does not fit any more.\<close>

fun put_segs :: "nat \<Rightarrow> string \<Rightarrow> string list \<Rightarrow> string option" where
  "put_segs outsz out [] = Some out"
| "put_segs outsz out (s # segs) =
     (let L = chaseros_strlen s in
      if length out + 1 + L \<ge> outsz then None else put_segs outsz (out @ slash # s) segs)"

definition chaseros_path_normalize :: "string \<Rightarrow> nat \<Rightarrow> string option" where
  "chaseros_path_normalize inp outsz =
     (if inp = [] \<or> hd inp \<noteq> slash \<or> outsz < 2 then None
      else (let segs = norm_loop (tl inp) [] in
        if segs = [] then Some [slash] else put_segs outsz [] segs))"

text \<open>\<open>last_slash\<close>: the index of the last slash after the first character.\<close>

definition last_slash :: "string \<Rightarrow> nat option" where
  "last_slash norm = (case rev (filter (\<lambda>i. norm ! i = slash) [1..<length norm]) of
      [] \<Rightarrow> None | i # _ \<Rightarrow> Some i)"

definition path_split_parent :: "string \<Rightarrow> nat \<Rightarrow> nat \<Rightarrow> (string \<times> string) option" where
  "path_split_parent norm psz bsz =
     (if norm = [] \<or> hd norm \<noteq> slash then None
      else (let len = chaseros_strlen norm in
        if len \<le> 1 then None
        else (case last_slash norm of
            None \<Rightarrow> if psz < 2 \<or> len \<ge> bsz then None else Some ([slash], take (len - 1) (drop 1 norm))
          | Some plen \<Rightarrow>
              if plen \<ge> psz then None
              else (let bp = drop (plen + 1) norm; bl = chaseros_strlen bp in
                if bl = 0 \<or> bl \<ge> bsz then None else Some (take plen norm, bp)))))"

section \<open>Comparison\<close>

lemma of_char_pos: "CHR 0x00 \<noteq> c \<Longrightarrow> (0 :: nat) < of_char c"
proof (rule ccontr)
  assume "CHR 0x00 \<noteq> c" and "\<not> (0 :: nat) < of_char c"
  then have "(of_char c :: nat) = of_char (CHR 0x00)" by simp
  then have "c = CHR 0x00" by (simp only: of_char_eq_iff)
  with \<open>CHR 0x00 \<noteq> c\<close> show False by simp
qed

lemma chaseros_strcmp_0:
  "no_nul a \<Longrightarrow> no_nul b \<Longrightarrow> chaseros_strcmp a b = 0 \<longleftrightarrow> a = b"
  by (induction a b rule: chaseros_strcmp.induct) (auto simp: no_nul_def dest: of_char_pos)

section \<open>Segments\<close>

lemma take_seg_short:
  assumes "length (takeWhile (\<lambda>c. c \<noteq> slash) p) + i \<le> 127"
  shows "take_seg p i = (takeWhile (\<lambda>c. c \<noteq> slash) p, dropWhile (\<lambda>c. c \<noteq> slash) p)"
  using assms by (induction p i rule: take_seg.induct) auto

lemma take_seg_prop: "slash \<notin> set (fst (take_seg p i)) \<and> length (fst (take_seg p i)) \<le> 127 - i"
  by (induction p i rule: take_seg.induct) (auto split: prod.splits)

definition valid_seg :: "string \<Rightarrow> bool" where
  "valid_seg s \<longleftrightarrow> s \<noteq> [] \<and> slash \<notin> set s \<and> length s \<le> 127 \<and> s \<noteq> ''.'' \<and> s \<noteq> ''..'' \<and> no_nul s"

definition join_segs :: "string list \<Rightarrow> string" where
  "join_segs segs = concat (map (\<lambda>s. slash # s) segs)"

lemma join_segs_simps [simp]: "join_segs [] = []" "join_segs (s # ss) = slash # s @ join_segs ss"
  by (simp_all add: join_segs_def)

lemma join_segs_append [simp]: "join_segs (a @ b) = join_segs a @ join_segs b"
  by (simp add: join_segs_def)

lemma put_segs_spec:
  "segs \<noteq> [] \<Longrightarrow> put_segs n out segs =
     (if length out + length (join_segs segs) < n then Some (out @ join_segs segs) else None)"
proof (induction segs arbitrary: out)
  case (Cons s segs)
  show ?case
  proof (cases "segs = []")
    case True
    then show ?thesis by (simp add: chaseros_strlen_def)
  next
    case False
    then show ?thesis using Cons.IH by (simp add: chaseros_strlen_def)
  qed
qed simp

lemma strcmp_dot: "no_nul s \<Longrightarrow> (chaseros_strcmp s ''.'' = 0) = (s = ''.'')"
  "no_nul s \<Longrightarrow> (chaseros_strcmp s ''..'' = 0) = (s = ''..'')"
  by (subst chaseros_strcmp_0; simp add: no_nul_def)+

lemma no_nul_seg: "no_nul p \<Longrightarrow> no_nul (fst (take_seg p 0))"
  "no_nul p \<Longrightarrow> no_nul (skip_slash (snd (take_seg p 0)))"
proof -
  assume p: "no_nul p"
  have "set (fst (take_seg p 0)) \<union> set (snd (take_seg p 0)) = set p"
    by (metis take_seg_append set_append)
  then show "no_nul (fst (take_seg p 0))" using p by (auto simp: no_nul_def)
  have "set (skip_slash q) \<subseteq> set q" for q by (cases q) auto
  with \<open>set (fst (take_seg p 0)) \<union> set (snd (take_seg p 0)) = set p\<close>
  show "no_nul (skip_slash (snd (take_seg p 0)))" using p unfolding no_nul_def by blast
qed

lemma norm_loop_valid:
  assumes "no_nul p" and "list_all valid_seg segs" and "length segs \<le> CHASEROS_SEG_MAX"
  shows "list_all valid_seg (norm_loop p segs) \<and> length (norm_loop p segs) \<le> CHASEROS_SEG_MAX"
  using assms
proof (induction p segs rule: norm_loop.induct)
  case (1 p segs)
  let ?seg = "fst (take_seg p 0)" and ?p = "skip_slash (snd (take_seg p 0))"
  have nn: "no_nul ?seg" "no_nul ?p" using no_nul_seg 1(5) by auto
  show ?case
  proof (cases "p \<noteq> [] \<and> length segs < CHASEROS_SEG_MAX")
    case False
    then show ?thesis using 1(6,7) by (subst (1 2) norm_loop.simps) auto
  next
    case True
    let ?up = "if segs \<noteq> [] then butlast segs else segs"
    have "list_all valid_seg ?up" "length ?up \<le> CHASEROS_SEG_MAX"
      using 1(6,7) by (auto simp: list_all_iff dest: in_set_butlastD)
    moreover have "valid_seg ?seg" if "?seg \<noteq> []" "?seg \<noteq> ''.''" "?seg \<noteq> ''..''"
      using that nn(1) take_seg_prop [of p 0] by (simp add: valid_seg_def)
    moreover have "norm_loop p segs =
        (if ?seg = [] then norm_loop ?p segs
         else if ?seg = ''.'' then norm_loop ?p segs
         else if ?seg = ''..'' then norm_loop ?p (if segs \<noteq> [] then butlast segs else segs)
         else norm_loop ?p (segs @ [?seg]))"
      using True nn(1) by (subst norm_loop.simps) (simp add: Let_def strcmp_dot)
    ultimately show ?thesis
      using 1(1-4) [OF True refl refl] nn 1(6,7) True
      by (simp add: strcmp_dot split del: if_split) (simp split: if_splits)
  qed
qed

lemma take_seg_joined:
  "valid_seg s \<Longrightarrow> take_seg (s @ join_segs ss) 0 = (s, join_segs ss)"
proof -
  assume s: "valid_seg s"
  have "takeWhile (\<lambda>c. c \<noteq> slash) (s @ join_segs ss) = s"
    "dropWhile (\<lambda>c. c \<noteq> slash) (s @ join_segs ss) = join_segs ss"
    using s by (cases ss; auto simp: valid_seg_def takeWhile_append dropWhile_append)+
  then show ?thesis using s take_seg_short [of "s @ join_segs ss" 0] by (simp add: valid_seg_def)
qed

lemma norm_loop_joined:
  assumes "list_all valid_seg (s # ss)" and "length acc + length (s # ss) \<le> CHASEROS_SEG_MAX"
  shows "norm_loop (s @ join_segs ss) acc = acc @ s # ss"
  using assms
proof (induction ss arbitrary: s acc)
  case Nil
  then show ?case
    using take_seg_joined [of s "[]"]
    by (subst norm_loop.simps) (auto simp: Let_def strcmp_dot valid_seg_def norm_loop.simps)
next
  case (Cons t ss)
  have "norm_loop (s @ join_segs (t # ss)) acc = norm_loop (t @ join_segs ss) (acc @ [s])"
    using take_seg_joined [of s "t # ss"] Cons.prems
    by (subst norm_loop.simps) (auto simp: Let_def strcmp_dot valid_seg_def)
  then show ?case using Cons by simp
qed

section \<open>Normal forms\<close>

definition canonical :: "string \<Rightarrow> bool" where
  "canonical q \<longleftrightarrow> q = [slash] \<or>
     (\<exists>segs. segs \<noteq> [] \<and> list_all valid_seg segs \<and> length segs \<le> CHASEROS_SEG_MAX \<and> q = join_segs segs)"

lemma normalize_canonical:
  assumes "no_nul p" and "chaseros_path_normalize p n = Some q"
  shows "canonical q \<and> length q < n"
proof -
  have p: "no_nul (tl p)" using assms(1) by (cases p) (auto simp: no_nul_def)
  let ?segs = "norm_loop (tl p) []"
  have v: "list_all valid_seg ?segs \<and> length ?segs \<le> CHASEROS_SEG_MAX"
    using norm_loop_valid [OF p, of "[]"] by simp
  show ?thesis
  proof (cases "?segs = []")
    case True
    then show ?thesis
      using assms(2) by (auto simp: chaseros_path_normalize_def canonical_def split: if_splits)
  next
    case False
    then have "put_segs n [] ?segs = Some q"
      using assms(2) by (auto simp: chaseros_path_normalize_def split: if_splits)
    then have "q = join_segs ?segs" "length q < n"
      using put_segs_spec [OF False, of n "[]"] by (auto split: if_splits)
    then show ?thesis using v False unfolding canonical_def by blast
  qed
qed

lemma normalize_fixed:
  assumes "canonical q" and "length q < n"
  shows "chaseros_path_normalize q n = Some q"
  using assms(1) unfolding canonical_def
proof
  assume "q = [slash]"
  then show ?thesis using assms(2) by (simp add: chaseros_path_normalize_def norm_loop.simps)
next
  assume "\<exists>segs. segs \<noteq> [] \<and> list_all valid_seg segs \<and> length segs \<le> CHASEROS_SEG_MAX \<and> q = join_segs segs"
  then obtain s ss where q: "q = join_segs (s # ss)" "list_all valid_seg (s # ss)"
    "length (s # ss) \<le> CHASEROS_SEG_MAX" by (metis neq_Nil_conv)
  then have "norm_loop (tl q) [] = s # ss" using norm_loop_joined [of s ss "[]"] by simp
  then show ?thesis
    using q(1) assms(2) put_segs_spec [of "s # ss" n "[]"] by (simp add: chaseros_path_normalize_def)
qed

text \<open>
  C30: normalisation gives normal forms and is idempotent. The result starts with a slash and
  is the root or a sequence of non-empty segments without dot, dot-dot or slash; it fits the
  buffer with its terminating NUL; normalising it again changes nothing.
\<close>

theorem normalize_idempotent:
  assumes "no_nul p" and "chaseros_path_normalize p n = Some q"
  shows "canonical q \<and> length q < n \<and> chaseros_path_normalize q n = Some q"
  using normalize_canonical [OF assms] normalize_fixed by blast

theorem normalize_idempotent_witness:
  "chaseros_path_normalize ''/a//./b/../c/'' 256 = Some ''/a/c'' \<and>
   chaseros_path_normalize ''/a/c'' 256 = Some ''/a/c''"
proof -
  have e: "norm_loop ''a//./b/../c/'' [] = [''a'', ''c'']" by code_simp
  have "chaseros_path_normalize ''/a//./b/../c/'' 256 = Some ''/a/c''"
    using e by (simp add: chaseros_path_normalize_def slash_def chaseros_strlen_def)
  then show ?thesis using normalize_idempotent [of "''/a//./b/../c/''" 256] by (simp add: no_nul_def)
qed

text \<open>
  The reference: split at the slashes, drop the empty segments, and fold the rest with a stack.
\<close>

function components :: "string \<Rightarrow> string list" where
  "components p =
     (if p = [] then []
      else (let w = takeWhile (\<lambda>c. c \<noteq> slash) p;
                r = skip_slash (dropWhile (\<lambda>c. c \<noteq> slash) p) in
        if w = [] then components r else w # components r))"
  by pat_completeness auto
termination
proof (relation "measure length", simp, goal_cases)
  case (1 p w r)
  have "length (dropWhile (\<lambda>c. c \<noteq> slash) p) \<le> length p" by (rule length_dropWhile_le)
  then show ?case
    using 1 by (cases p) (auto split: if_splits)
next
  case (2 p w r)
  have "length (dropWhile (\<lambda>c. c \<noteq> slash) p) < length p"
    using 2 by (cases p) (auto simp: le_imp_less_Suc length_dropWhile_le)
  then show ?case
    using 2 skip_slash_length [of "dropWhile (\<lambda>c. c \<noteq> slash) p"] by simp
qed

declare components.simps [simp del]

definition resolve_step :: "string list \<Rightarrow> string \<Rightarrow> string list" where
  "resolve_step st c = (if c = ''.'' then st else if c = ''..'' then butlast st else st @ [c])"

definition resolve_ref :: "string \<Rightarrow> string" where
  "resolve_ref p = (let st = foldl resolve_step [] (components p) in
     if st = [] then [slash] else join_segs st)"

lemma butlast_if: "(if segs \<noteq> [] then butlast segs else segs) = butlast segs"
  by simp

lemma norm_loop_ref:
  assumes "no_nul p" and "\<forall>c \<in> set (components p). length c \<le> 127"
    and "length segs + length (components p) \<le> CHASEROS_SEG_MAX"
  shows "norm_loop p segs = foldl resolve_step segs (components p)"
  using assms
proof (induction p segs rule: norm_loop.induct)
  case (1 p segs)
  let ?w = "takeWhile (\<lambda>c. c \<noteq> slash) p" and ?r = "skip_slash (dropWhile (\<lambda>c. c \<noteq> slash) p)"
  show ?case
  proof (cases "p = []")
    case True
    then show ?thesis by (simp add: norm_loop.simps components.simps)
  next
    case False
    have comps: "components p = (if ?w = [] then components ?r else ?w # components ?r)"
      using False by (subst components.simps) (simp add: Let_def)
    have short: "length ?w \<le> 127" using 1(6) comps by (cases "?w = []") auto
    then have seg: "fst (take_seg p 0) = ?w" "skip_slash (snd (take_seg p 0)) = ?r"
      using take_seg_short [of p 0] by simp_all
    have nn: "no_nul ?w" "no_nul ?r" using no_nul_seg [OF 1(5)] seg by auto
    show ?thesis
    proof (cases "length segs < CHASEROS_SEG_MAX")
      case full: False
      then have "length (components p) = 0" using 1(7) by linarith
      then have "components p = []" by simp
      then show ?thesis using full by (subst norm_loop.simps) simp
    next
      case True
      then have cond: "p \<noteq> [] \<and> length segs < CHASEROS_SEG_MAX" using False by simp
      have run: "norm_loop p segs =
          (if ?w = [] then norm_loop ?r segs else norm_loop ?r (resolve_step segs ?w))"
        using cond nn by (subst norm_loop.simps) (auto simp: Let_def seg strcmp_dot resolve_step_def)
      have bound: "length (resolve_step segs ?w) \<le> Suc (length segs)" by (auto simp: resolve_step_def)
      have IH: "norm_loop ?r segs' = foldl resolve_step segs' (components ?r)"
        if "(?w = [] \<and> segs' = segs) \<or> (?w \<noteq> [] \<and> segs' = resolve_step segs ?w)"
          "length segs' + length (components ?r) \<le> CHASEROS_SEG_MAX" for segs'
      proof -
        have c: "\<forall>c \<in> set (components ?r). length c \<le> 127" using 1(6) comps by (auto split: if_splits)
        show ?thesis
          using that 1(1-4) [OF cond refl refl] nn c
          by (auto simp: butlast_if seg strcmp_dot resolve_step_def [of segs ?w] split: if_splits)
      qed
      show ?thesis
        using run comps IH [of segs] IH [of "resolve_step segs ?w"] 1(7) bound
        by (auto split: if_splits)
    qed
  qed
qed

text \<open>
  C19: on paths of at most 32 segments of at most 127 characters, normalisation is the
  textbook resolution of dot and dot-dot with a stack; it fails exactly when the result does
  not fit the buffer.
\<close>

theorem normalize_reference:
  assumes "no_nul p" and "\<forall>c \<in> set (components p). length c \<le> 127"
    and "length (components p) \<le> CHASEROS_SEG_MAX" and "2 \<le> n"
  shows "chaseros_path_normalize (slash # p) n =
    (if length (resolve_ref p) < n then Some (resolve_ref p) else None)"
proof -
  let ?st = "foldl resolve_step [] (components p)"
  have "norm_loop p [] = ?st" using norm_loop_ref [OF assms(1,2), of "[]"] assms(3) by simp
  then show ?thesis
    using assms(4) put_segs_spec [of ?st n "[]"]
    by (cases "?st = []") (simp_all add: chaseros_path_normalize_def resolve_ref_def Let_def)
qed

theorem normalize_reference_witness:
  "chaseros_path_normalize ''/x/../y'' 256 = Some (resolve_ref ''x/../y'')"
proof -
  have c: "components ''x/../y'' = [''x'', ''..'', ''y'']" by code_simp
  then have "length (resolve_ref ''x/../y'') < 256"
    by (simp add: resolve_ref_def resolve_step_def)
  then show ?thesis
    using normalize_reference [of "''x/../y''" 256] c
    by (simp add: no_nul_def CHASEROS_SEG_MAX_def slash_def)
qed

section \<open>Splitting off the last segment\<close>

lemma last_slash_None: "slash \<notin> set s \<Longrightarrow> last_slash (slash # s) = None"
proof -
  assume s: "slash \<notin> set s"
  have "filter (\<lambda>i. (slash # s) ! i = slash) [1..<length (slash # s)] = []"
  proof (rule filter_False, rule ballI)
    fix i assume "i \<in> set [1..<length (slash # s)]"
    then have "(slash # s) ! i = s ! (i - 1)" "i - 1 < length s" by (auto simp: nth_Cons')
    then show "(slash # s) ! i \<noteq> slash" using s nth_mem by metis
  qed
  then show "last_slash (slash # s) = None" by (simp add: last_slash_def)
qed

lemma last_slash_Some:
  assumes "slash \<notin> set b" and "a \<noteq> []"
  shows "last_slash (a @ slash # b) = Some (length a)"
proof -
  have "1 \<le> length a" using assms(2) by (cases a) auto
  then have up: "[1..<length (a @ slash # b)] = [1..<length a] @ length a # [Suc (length a)..<Suc (length a + length b)]"
    using upt_add_eq_append [of 1 "length a" "Suc (length b)"] by (simp add: upt_conv_Cons del: upt_Suc)
  have "filter (\<lambda>i. (a @ slash # b) ! i = slash) [Suc (length a)..<Suc (length a + length b)] = []"
  proof (rule filter_False, rule ballI)
    fix i assume "i \<in> set [Suc (length a)..<Suc (length a + length b)]"
    then have "(a @ slash # b) ! i = b ! (i - length a - 1)" "i - length a - 1 < length b"
      by (auto simp: nth_append nth_Cons')
    then show "(a @ slash # b) ! i \<noteq> slash" using assms(1) nth_mem by metis
  qed
  then show ?thesis unfolding last_slash_def up by simp
qed

lemma split_parent_joined:
  assumes "list_all valid_seg (segs @ [b])"
  shows "path_split_parent (join_segs (segs @ [b])) 256 128 =
    (if segs = [] then (if length b < 127 then Some ([slash], b) else None)
     else if length (join_segs segs) < 256 then Some (join_segs segs, b) else None)"
proof -
  have b: "slash \<notin> set b" "b \<noteq> []" "length b \<le> 127" using assms by (auto simp: valid_seg_def)
  show ?thesis
  proof (cases "segs = []")
    case True
    then show ?thesis
      using b last_slash_None [of b]
      by (auto simp: path_split_parent_def Let_def chaseros_strlen_def)
  next
    case False
    then obtain s ss where segs: "segs = s # ss" by (cases segs) auto
    have "last_slash (join_segs segs @ slash # b) = Some (length (join_segs segs))"
      using b(1) segs by (intro last_slash_Some) auto
    then show ?thesis
      using b segs by (simp add: path_split_parent_def Let_def chaseros_strlen_def)
  qed
qed

text \<open>
  C31: splitting a normalised path gives its directory and its last name, and appending the
  name to the directory gives the path back. The root has no last name. A name of 127
  characters is accepted below a directory but refused directly below the root.
\<close>

theorem split_parent_roundtrip:
  assumes "no_nul p" and "chaseros_path_normalize p CHASEROS_PATH_MAX = Some q"
  shows "case path_split_parent q CHASEROS_PATH_MAX 128 of
      None \<Rightarrow> q = [slash] \<or> (\<exists>b. q = slash # b \<and> length b = 127)
    | Some (parent, base) \<Rightarrow> valid_seg base \<and> canonical parent \<and>
        q = (if parent = [slash] then parent @ base else parent @ slash # base)"
proof -
  have c: "canonical q" "length q < 256"
    using normalize_canonical [OF assms] by (simp_all add: CHASEROS_PATH_MAX_def)
  show ?thesis
  proof (cases "q = [slash]")
    case True
    then show ?thesis by (simp add: path_split_parent_def chaseros_strlen_def)
  next
    case False
    then obtain segs0 where s0: "segs0 \<noteq> []" "list_all valid_seg segs0" "length segs0 \<le> CHASEROS_SEG_MAX"
      "q = join_segs segs0" using c(1) unfolding canonical_def by blast
    then obtain segs b where segs: "segs0 = segs @ [b]" by (metis rev_exhaust)
    have sp: "path_split_parent q 256 128 =
      (if segs = [] then (if length b < 127 then Some ([slash], b) else None)
       else Some (join_segs segs, b))"
      using split_parent_joined [of segs b] s0 segs c(2) by simp
    have can: "canonical (join_segs segs)" if "segs \<noteq> []"
      unfolding canonical_def using that s0 segs by (intro disjI2 exI [of _ segs]) auto
    have "join_segs segs \<noteq> [slash]" if "segs \<noteq> []"
      using that s0(2) segs by (cases segs) (auto simp: valid_seg_def)
    then show ?thesis
      using sp can s0 segs
      by (auto simp: CHASEROS_PATH_MAX_def canonical_def valid_seg_def)
  qed
qed

theorem split_parent_roundtrip_witness:
  "case path_split_parent ''/a/c'' CHASEROS_PATH_MAX 128 of
     None \<Rightarrow> False | Some (parent, base) \<Rightarrow> ''/a/c'' = parent @ slash # base"
proof -
  have "norm_loop ''a/c'' [] = [''a'', ''c'']" by code_simp
  then have n: "chaseros_path_normalize ''/a/c'' CHASEROS_PATH_MAX = Some ''/a/c''"
    by (simp add: chaseros_path_normalize_def slash_def chaseros_strlen_def CHASEROS_PATH_MAX_def)
  have e: "path_split_parent ''/a/c'' CHASEROS_PATH_MAX 128 = Some (''/a'', ''c'')" by code_simp
  show ?thesis
    using split_parent_roundtrip [OF _ n] unfolding e by (simp add: no_nul_def slash_def)
qed
end
