(* ===== verification/Volume.thy ===== *)
theory Volume
  imports Proc Ide Paths
begin

text \<open>
  Volumes, the first part of \<open>src/kernel/fs/chaseros/chaseros_ext2_vol.c\<close>: the attached
  volume and its access in blocks of 1024 bytes, backed by memory or by the ATA driver. The
  state holds the kernel core, the static variables of the file, the device behind the ports
  and the console output. The driver for AHCI is a build option that is off by default; a
  volume of that type fails.
\<close>

definition CHASEROS_BLK :: nat where "CHASEROS_BLK = 1024"
definition INODE_TBL_BLOCKS :: u32 where "INODE_TBL_BLOCKS = 16"
definition FIRST_DATA_BLOCK :: u32 where "FIRST_DATA_BLOCK = 21"

datatype vol_type = CHASEROS_VOL_NONE | CHASEROS_VOL_RAM | CHASEROS_VOL_IDE | CHASEROS_VOL_AHCI

record chaseros_vol =
  vtype :: vol_type
  ram_base :: u64
  size_bytes :: u64
  ide_drive :: u8
  ahci_port :: u32

record 'd fstate =
  core :: kcore
  g_vol :: chaseros_vol
  g_ram_alloc :: u64
  g_ram_npages :: u64
  dev :: 'd
  out :: string

text \<open>Memory, the device and the console as parts of this state.\<close>

definition fmem :: "'d fstate \<Rightarrow> memory" where "fmem s = mem (mach (core s))"

definition set_fmem :: "memory \<Rightarrow> 'd fstate \<Rightarrow> 'd fstate" where
  "set_fmem m s = s\<lparr>core := (core s)\<lparr>mach := (mach (core s))\<lparr>mem := m\<rparr>\<rparr>\<rparr>"

definition liftDev :: "('d, 'a) sm \<Rightarrow> ('d fstate, 'a) sm" where
  "liftDev m s = (case m (dev s) of (r, d) \<Rightarrow> (r, s\<lparr>dev := d\<rparr>))"

definition putS :: "string \<Rightarrow> ('d fstate, unit) sm" where
  "putS t = modifyS (\<lambda>s. s\<lparr>out := out s @ t\<rparr>)"

definition no_vol :: chaseros_vol where
  "no_vol = \<lparr>vtype = CHASEROS_VOL_NONE, ram_base = 0, size_bytes = 0, ide_drive = 0, ahci_port = 0\<rparr>"

definition chaseros_vol_init :: "'d fstate \<Rightarrow> 'd fstate" where
  "chaseros_vol_init s = s\<lparr>g_vol := no_vol, g_ram_alloc := 0, g_ram_npages := 0\<rparr>"

definition chaseros_vol_current :: "'d fstate \<Rightarrow> chaseros_vol option" where
  "chaseros_vol_current s = (if vtype (g_vol s) \<noteq> CHASEROS_VOL_NONE then Some (g_vol s) else None)"

definition chaseros_vol_detach_ram :: "'d fstate \<Rightarrow> 'd fstate" where
  "chaseros_vol_detach_ram s =
     (let s = (if g_ram_alloc s \<noteq> 0 \<and> g_ram_npages s \<noteq> 0
               then s\<lparr>core := (core s)\<lparr>kpmm :=
                 pmm_free_contiguous (g_ram_alloc s) (g_ram_npages s) (kpmm (core s))\<rparr>\<rparr>
               else s);
          s = s\<lparr>g_ram_alloc := 0, g_ram_npages := 0\<rparr>
      in if vtype (g_vol s) = CHASEROS_VOL_RAM
         then s\<lparr>g_vol := (g_vol s)\<lparr>vtype := CHASEROS_VOL_NONE, ram_base := 0, size_bytes := 0\<rparr>\<rparr>
         else s)"

definition chaseros_vol_detach_all :: "'d fstate \<Rightarrow> 'd fstate" where
  "chaseros_vol_detach_all s =
     (let s = chaseros_vol_detach_ram s
      in s\<lparr>g_vol := (g_vol s)\<lparr>vtype := CHASEROS_VOL_NONE, ram_base := 0, size_bytes := 0\<rparr>\<rparr>)"

definition chaseros_vol_attach_ram :: "u64 \<Rightarrow> u64 \<Rightarrow> ('d fstate, unit) sm" where
  "chaseros_vol_attach_ram base size_b =
     bindS (errIf (base = 0 \<or> size_b < 256 * 1024 \<or> size_b mod of_nat CHASEROS_BLK \<noteq> 0) (-1)) (\<lambda>_.
     let nblk = ucast (size_b div of_nat CHASEROS_BLK) :: u32 in
     bindS (errIf (nblk < 256 \<or> nblk > 8192) (-1)) (\<lambda>_.
     modifyS (\<lambda>s.
       let s = chaseros_vol_detach_all s
       in s\<lparr>g_vol := (g_vol s)\<lparr>vtype := CHASEROS_VOL_RAM, ram_base := base, size_bytes := size_b\<rparr>,
            g_ram_alloc := base, g_ram_npages := (size_b + PAGE_SIZE - 1) div PAGE_SIZE\<rparr>)))"

definition chaseros_vol_attach_ide :: "'d io \<Rightarrow> u8 \<Rightarrow> ('d fstate, unit) sm" where
  "chaseros_vol_attach_ide io drive =
     bindS (orElse (liftDev (ide_capacity_sectors io drive)) (-1)) (\<lambda>sec.
     bindS (errIf (sec < 512) (-1)) (\<lambda>_.
     let bytes = (ucast sec * 512) AND NOT 1023 :: u64 in
     bindS (errIf (bytes < 256 * 1024) (-1)) (\<lambda>_.
     let bytes = (if bytes > 8192 * 1024 then 8192 * 1024 else bytes) in
     modifyS (\<lambda>s.
       let s = chaseros_vol_detach_all s
       in s\<lparr>g_vol := (g_vol s)\<lparr>vtype := CHASEROS_VOL_IDE, ram_base := 0, size_bytes := bytes,
              ide_drive := drive\<rparr>\<rparr>))))"

text \<open>A volume argument is the result of \<open>chaseros_vol_current\<close>; \<open>None\<close> is the null pointer.\<close>

definition vol_check :: "chaseros_vol option \<Rightarrow> ('s, unit) sm" where
  "vol_check v = (case v of
      None \<Rightarrow> failS (-1)
    | Some v \<Rightarrow>
        bindS (errIf (vtype v = CHASEROS_VOL_NONE) (-1)) (\<lambda>_.
        errIf (size_bytes v < 256 * 1024 \<or> size_bytes v mod of_nat CHASEROS_BLK \<noteq> 0) (-1)))"

text \<open>The bound is computed from a 32-bit sum, as in the source.\<close>

definition blk_outside :: "chaseros_vol \<Rightarrow> u32 \<Rightarrow> bool" where
  "blk_outside v blk \<longleftrightarrow> ucast (blk + 1) * of_nat CHASEROS_BLK > size_bytes v"

definition blk_addr :: "chaseros_vol \<Rightarrow> u32 \<Rightarrow> u64" where
  "blk_addr v blk = ram_base v + ucast blk * of_nat CHASEROS_BLK"

definition vol_read_blk :: "'d io \<Rightarrow> chaseros_vol option \<Rightarrow> u32 \<Rightarrow> ('d fstate, u8 list) sm" where
  "vol_read_blk io vp blk =
     bindS (vol_check vp) (\<lambda>_.
     let v = the vp in
     bindS (errIf (blk_outside v blk) (-1)) (\<lambda>_.
     case vtype v of
       CHASEROS_VOL_RAM \<Rightarrow> getS (\<lambda>s. rd_bytes (fmem s) (blk_addr v blk) CHASEROS_BLK)
     | CHASEROS_VOL_IDE \<Rightarrow>
         liftDev (ide_read_sectors io (ide_drive v) (blk * 2) 2 (replicate CHASEROS_BLK 0))
     | _ \<Rightarrow> failS (-1)))"

definition vol_write_blk :: "'d io \<Rightarrow> chaseros_vol option \<Rightarrow> u32 \<Rightarrow> u8 list \<Rightarrow> ('d fstate, unit) sm" where
  "vol_write_blk io vp blk buf =
     bindS (vol_check vp) (\<lambda>_.
     let v = the vp in
     bindS (errIf (blk_outside v blk) (-1)) (\<lambda>_.
     case vtype v of
       CHASEROS_VOL_RAM \<Rightarrow>
         modifyS (\<lambda>s. set_fmem (wr_bytes (fmem s) (blk_addr v blk) (take CHASEROS_BLK buf)) s)
     | CHASEROS_VOL_IDE \<Rightarrow> liftDev (ide_write_sectors io (ide_drive v) (blk * 2) 2 buf)
     | _ \<Rightarrow> failS (-1)))"

definition total_blocks_from_vol :: "chaseros_vol \<Rightarrow> u32" where
  "total_blocks_from_vol v = ucast (size_bytes v div of_nat CHASEROS_BLK)"


section \<open>Volumes as arrays of blocks\<close>

text \<open>
  The interface the file system relies on: in the state \<open>ok s\<close> the volume is an array of
  \<open>nblk\<close> blocks. Reading returns a block and changes none; writing replaces one block; a block
  number behind the end is refused.
\<close>

locale block_volume =
  fixes io :: "'d io" and v :: "chaseros_vol option"
    and ok :: "'d fstate \<Rightarrow> bool" and blocks :: "'d fstate \<Rightarrow> u32 \<Rightarrow> u8 list" and nblk :: nat
  assumes length_blocks: "ok s \<Longrightarrow> unat b < nblk \<Longrightarrow> length (blocks s b) = CHASEROS_BLK"
    and read_law: "ok s \<Longrightarrow> unat b < nblk \<Longrightarrow>
      \<exists>s'. vol_read_blk io v b s = (Ok (blocks s b), s') \<and> ok s' \<and>
        (\<forall>c. unat c < nblk \<longrightarrow> blocks s' c = blocks s c)"
    and write_law: "ok s \<Longrightarrow> unat b < nblk \<Longrightarrow> length x = CHASEROS_BLK \<Longrightarrow>
      \<exists>s'. vol_write_blk io v b x s = (Ok (), s') \<and> ok s' \<and>
        (\<forall>c. unat c < nblk \<longrightarrow> blocks s' c = (if c = b then x else blocks s c))"
    and refuse_law: "ok s \<Longrightarrow> nblk \<le> unat b \<Longrightarrow> unat b < 2 ^ 32 - 1 \<Longrightarrow>
      vol_read_blk io v b s = (Err (-1), s) \<and> vol_write_blk io v b x s = (Err (-1), s)"

text \<open>A volume as the attach routines leave it.\<close>

definition vol_ok :: "chaseros_vol \<Rightarrow> bool" where
  "vol_ok v \<longleftrightarrow> size_bytes v \<ge> 256 * 1024 \<and> size_bytes v \<le> 8192 * 1024 \<and> 1024 dvd unat (size_bytes v)"

definition vol_nblk :: "chaseros_vol \<Rightarrow> nat" where "vol_nblk v = unat (size_bytes v) div 1024"

lemma vol_ok_nblk:
  assumes "vol_ok v"
  shows "unat (size_bytes v) = 1024 * vol_nblk v" "256 \<le> vol_nblk v" "vol_nblk v \<le> 8192"
  using assms by (auto simp: vol_ok_def vol_nblk_def word_le_nat_alt)

lemma vol_check_ok: "vol_ok v \<Longrightarrow> vtype v \<noteq> CHASEROS_VOL_NONE \<Longrightarrow> vol_check (Some v) s = (Ok (), s)"
proof -
  assume v: "vol_ok v" "vtype v \<noteq> CHASEROS_VOL_NONE"
  then have "unat (size_bytes v mod 1024) = 0" by (simp add: unat_mod vol_ok_def dvd_imp_mod_0)
  then have "size_bytes v mod 1024 = 0" by (simp add: unat_eq_0)
  with v show ?thesis by (simp add: vol_check_def sm_simps CHASEROS_BLK_def vol_ok_def not_less)
qed

text \<open>The bound check is exact except for the block number whose successor is 0.\<close>

lemma blk_outside_iff:
  assumes "vol_ok v"
  shows "blk_outside v b \<longleftrightarrow> vol_nblk v \<le> unat b \<and> unat b < 2 ^ 32 - 1"
proof (cases "unat b = 2 ^ 32 - 1")
  case True
  then have "b = - 1" by (simp add: word_unat_eq_iff unsigned_minus_1_eq_mask mask_eq_exp_minus_1)
  then have "\<not> blk_outside v b" by (simp add: blk_outside_def)
  with True show ?thesis by simp
next
  case False
  have "unat b < 2 ^ 32" by (rule order_less_le_trans [OF unsigned_less]) simp
  with False have b: "unat b < 2 ^ 32 - 1" by linarith
  then have "unat (b + 1) = Suc (unat b)" by (simp add: unat_word_ariths)
  then have "unat (ucast (b + 1) * of_nat CHASEROS_BLK :: u64) = 1024 * Suc (unat b)"
    using b by (simp add: unat_mult_lem [THEN iffD1] CHASEROS_BLK_def)
  then have "blk_outside v b \<longleftrightarrow> 1024 * vol_nblk v < 1024 * Suc (unat b)"
    by (simp add: blk_outside_def word_less_nat_alt vol_ok_nblk(1) [OF assms])
  then show ?thesis using b by auto
qed


lemma blk_inside: "vol_ok v \<Longrightarrow> unat b < vol_nblk v \<Longrightarrow> \<not> blk_outside v b"
  by (simp add: blk_outside_iff)

subsection \<open>Memory volumes\<close>

definition ram_ok :: "chaseros_vol \<Rightarrow> bool" where
  "ram_ok v \<longleftrightarrow> vol_ok v \<and> vtype v = CHASEROS_VOL_RAM"

definition ram_blocks :: "chaseros_vol \<Rightarrow> 'd fstate \<Rightarrow> u32 \<Rightarrow> u8 list" where
  "ram_blocks v s b = rd_bytes (fmem s) (blk_addr v b) CHASEROS_BLK"

lemma fmem_set [simp]: "fmem (set_fmem m s) = m"
  by (simp add: fmem_def set_fmem_def)

lemma ram_read:
  "ram_ok v \<Longrightarrow> unat b < vol_nblk v \<Longrightarrow> vol_read_blk io (Some v) b s = (Ok (ram_blocks v s b), s)"
  by (simp add: ram_ok_def vol_read_blk_def bindS_def vol_check_ok blk_inside errIf_def retS_def getS_def
      ram_blocks_def)

lemma ram_write:
  "ram_ok v \<Longrightarrow> unat b < vol_nblk v \<Longrightarrow> length x = CHASEROS_BLK \<Longrightarrow>
   vol_write_blk io (Some v) b x s = (Ok (), set_fmem (wr_bytes (fmem s) (blk_addr v b) x) s)"
  by (simp add: ram_ok_def vol_write_blk_def bindS_def vol_check_ok blk_inside errIf_def retS_def modifyS_def)

lemma blk_separate:
  assumes "vol_ok v" and "unat b < vol_nblk v" and "unat c < vol_nblk v" and "b \<noteq> c"
  shows "separate (blk_addr v c) CHASEROS_BLK (blk_addr v b) CHASEROS_BLK"
  unfolding separate_def
proof (intro allI notI)
  fix x
  assume x: "unat (x - blk_addr v c) < CHASEROS_BLK \<and> unat (x - blk_addr v b) < CHASEROS_BLK"
  have off: "unat (ucast d * of_nat CHASEROS_BLK :: u64) = 1024 * unat d" if "unat d < vol_nblk v" for d :: u32
    using that vol_ok_nblk(3) [OF assms(1)] by (simp add: unat_mult_lem [THEN iffD1] CHASEROS_BLK_def)
  have at: "unat (x - ram_base v) = 1024 * unat d + unat (x - blk_addr v d)"
    if "unat d < vol_nblk v" and "unat (x - blk_addr v d) < CHASEROS_BLK" for d
  proof -
    have "x - ram_base v = ucast d * of_nat CHASEROS_BLK + (x - blk_addr v d)" by (simp add: blk_addr_def)
    moreover have "1024 * unat d + unat (x - blk_addr v d) < 2 ^ 64"
      using that vol_ok_nblk(3) [OF assms(1)] by (simp add: CHASEROS_BLK_def)
    then have "unat (ucast d * of_nat CHASEROS_BLK :: u64) + unat (x - blk_addr v d) < 2 ^ LENGTH(64)"
      using off [OF that(1)] by simp
    then have "unat (ucast d * of_nat CHASEROS_BLK + (x - blk_addr v d)) = 1024 * unat d + unat (x - blk_addr v d)"
      using off [OF that(1)] unat_add_lem by metis
    ultimately show ?thesis by metis
  qed
  have "1024 * unat b + unat (x - blk_addr v b) = 1024 * unat c + unat (x - blk_addr v c)"
    using at [OF assms(2)] at [OF assms(3)] x by simp
  moreover have "unat (x - blk_addr v b) < 1024" and "unat (x - blk_addr v c) < 1024"
    using x by (simp_all add: CHASEROS_BLK_def)
  ultimately have "unat b = unat c" by linarith
  with assms(4) show False by (simp add: word_unat_eq_iff)
qed

lemma ram_blocks_write:
  assumes "ram_ok v" and "unat b < vol_nblk v" and "unat c < vol_nblk v" and "length x = CHASEROS_BLK"
  shows "ram_blocks v (set_fmem (wr_bytes (fmem s) (blk_addr v b) x) s) c = (if c = b then x else ram_blocks v s c)"
proof (cases "c = b")
  case False
  then have "separate (blk_addr v c) CHASEROS_BLK (blk_addr v b) CHASEROS_BLK"
    using blk_separate assms by (metis ram_ok_def)
  then show ?thesis using assms(4) False by (simp add: ram_blocks_def rd_wr_separate CHASEROS_BLK_def)
next
  case True
  then show ?thesis using assms(4) by (simp add: ram_blocks_def rd_wr_same CHASEROS_BLK_def)
qed

interpretation ram: block_volume io "Some v" "\<lambda>s. ram_ok v" "ram_blocks v" "vol_nblk v" for io v
proof (unfold_locales, goal_cases)
  case 4
  then show ?case
    by (simp add: vol_read_blk_def vol_write_blk_def bindS_def vol_check_ok blk_outside_iff errIf_def failS_def
        ram_ok_def)
qed (auto simp: ram_read ram_write ram_blocks_write, simp add: ram_blocks_def)

subsection \<open>Disk volumes\<close>

definition ide_ok :: "nat \<Rightarrow> chaseros_vol \<Rightarrow> ata fstate \<Rightarrow> bool" where
  "ide_ok lat v s \<longleftrightarrow> vol_ok v \<and> vtype v = CHASEROS_VOL_IDE \<and> ide_drive v \<le> 1 \<and> lat < 100000 \<and>
     ata_ok (dev s) \<and> ata_idle (dev s)"

definition ide_blocks :: "chaseros_vol \<Rightarrow> ata fstate \<Rightarrow> u32 \<Rightarrow> u8 list" where
  "ide_blocks v s b = run_of (sectors (dev s) (ide_drive v = 1)) (b * 2) 2"

lemma ide_lba:
  fixes b :: u32
  assumes "vol_ok v" and "unat b < vol_nblk v"
  shows "unat (b * 2) = 2 * unat b" "unat (b * 2) + unat (2 :: u32) \<le> 2 ^ 28"
proof -
  have "unat b * unat (2 :: u32) < 2 ^ LENGTH(32)" using assms vol_ok_nblk(3) [OF assms(1)] by simp
  then show eq: "unat (b * 2) = 2 * unat b" using unat_mult_lem [of b 2] by simp
  show "unat (b * 2) + unat (2 :: u32) \<le> 2 ^ 28" unfolding eq using assms vol_ok_nblk(3) [OF assms(1)] by simp
qed

lemma ide_read:
  assumes "ide_ok lat v s" and "unat b < vol_nblk v"
  shows "\<exists>s'. vol_read_blk (ata_io lat) (Some v) b s = (Ok (ide_blocks v s b), s') \<and> ide_ok lat v s' \<and>
    sectors (dev s') = sectors (dev s)"
proof -
  have v: "vol_ok v" "vtype v = CHASEROS_VOL_IDE" and d: "lat < 100000" "ide_drive v \<le> 1" "ata_ok (dev s)" "ata_idle (dev s)"
    using assms(1) by (auto simp: ide_ok_def)
  obtain d' where d': "ide_read_sectors (ata_io lat) (ide_drive v) (b * 2) 2 (replicate CHASEROS_BLK 0) (dev s) =
      (Ok (ide_blocks v s b), d')" "ata_idle d'" "sectors d' = sectors (dev s)"
    using ide_read_ata [OF d, of 2 "b * 2" "replicate CHASEROS_BLK 0"] ide_lba(2) [OF v(1) assms(2)]
    by (auto simp: CHASEROS_BLK_def ide_blocks_def)
  have "vol_read_blk (ata_io lat) (Some v) b s = (Ok (ide_blocks v s b), s\<lparr>dev := d'\<rparr>)"
    using v assms(2) d'(1)
    by (simp add: vol_read_blk_def bindS_def vol_check_ok blk_inside errIf_def retS_def liftDev_def)
  moreover have "ide_ok lat v (s\<lparr>dev := d'\<rparr>)" using v d d' by (simp add: ide_ok_def ata_ok_def)
  ultimately show ?thesis using d'(3) by auto
qed

lemma lba_overlap:
  assumes "vol_ok v" and "unat b < vol_nblk v" and "unat c < vol_nblk v" and "k < 2" and "j < 2"
    and "c * 2 + of_nat k = b * 2 + (of_nat j :: u32)"
  shows "c = b \<and> k = j"
proof -
  have "unat (e * 2 + of_nat i :: u32) = 2 * unat e + i" if "unat e < vol_nblk v" and "i < 2" for e i
    using that ide_lba(1) [OF assms(1) that(1)] vol_ok_nblk(3) [OF assms(1)]
    by (subst unat_add_lem [THEN iffD1]) (auto simp: unat_of_nat take_bit_nat_eq_self)
  then have "2 * unat c + k = 2 * unat b + j" using assms by metis
  then have "unat c = unat b \<and> k = j" using assms(4,5) by presburger
  then show ?thesis by (simp add: word_unat_eq_iff)
qed


lemma ide_blocks_write:
  assumes "vol_ok v" and "unat b < vol_nblk v" and "unat c < vol_nblk v" and "length x = CHASEROS_BLK"
    and s': "sectors (dev s') = (\<lambda>h l. if h = (ide_drive v = 1) \<and> (\<exists>k<unat (2 :: u32). l = b * 2 + of_nat k)
      then get_at (512 * unat (l - b * 2)) 512 x else sectors (dev s) h l)"
  shows "ide_blocks v s' c = (if c = b then x else ide_blocks v s c)"
proof (cases "c = b")
  case True
  have "ide_blocks v s' c = concat (map (\<lambda>k. get_at (512 * k) 512 x) [0..<2])"
    unfolding ide_blocks_def run_of_def s' True
    by (intro arg_cong [where f = concat] map_cong refl) (auto simp: unat_of_nat take_bit_nat_eq_self)
  also have "\<dots> = x" using assms(4) by (intro concat_chunks) (simp add: CHASEROS_BLK_def)
  finally show ?thesis using True by simp
next
  case False
  then have "\<not> (\<exists>j<unat (2 :: u32). c * 2 + of_nat k = b * 2 + of_nat j)" if "k < 2" for k
    using lba_overlap [OF assms(1-3) that] by auto
  then have "ide_blocks v s' c = ide_blocks v s c"
    unfolding ide_blocks_def run_of_def s' by (intro arg_cong [where f = concat] map_cong refl) auto
  then show ?thesis using False by simp
qed

lemma ide_write:
  assumes "ide_ok lat v s" and "unat b < vol_nblk v" and "length x = CHASEROS_BLK"
  shows "\<exists>s'. vol_write_blk (ata_io lat) (Some v) b x s = (Ok (), s') \<and> ide_ok lat v s' \<and>
    (\<forall>c. unat c < vol_nblk v \<longrightarrow> ide_blocks v s' c = (if c = b then x else ide_blocks v s c))"
proof -
  have v: "vol_ok v" "vtype v = CHASEROS_VOL_IDE" and d: "lat < 100000" "ide_drive v \<le> 1" "ata_ok (dev s)" "ata_idle (dev s)"
    using assms(1) by (auto simp: ide_ok_def)
  obtain d' where d': "ide_write_sectors (ata_io lat) (ide_drive v) (b * 2) 2 x (dev s) = (Ok (), d')"
    "ata_idle d'" "ata_ok d'"
    "sectors d' = (\<lambda>h l. if h = (ide_drive v = 1) \<and> (\<exists>k<unat (2 :: u32). l = b * 2 + of_nat k)
      then get_at (512 * unat (l - b * 2)) 512 x else sectors (dev s) h l)"
    using ide_write_ata [OF d, of 2 "b * 2" x] ide_lba(2) [OF v(1) assms(2)] assms(3)
    by (auto simp: CHASEROS_BLK_def)
  have "vol_write_blk (ata_io lat) (Some v) b x s = (Ok (), s\<lparr>dev := d'\<rparr>)"
    using v assms(2) d'(1)
    by (simp add: vol_write_blk_def bindS_def vol_check_ok blk_inside errIf_def retS_def liftDev_def)
  moreover have "ide_ok lat v (s\<lparr>dev := d'\<rparr>)" using v d d' by (simp add: ide_ok_def)
  moreover have "ide_blocks v (s\<lparr>dev := d'\<rparr>) c = (if c = b then x else ide_blocks v s c)" if "unat c < vol_nblk v" for c
    using ide_blocks_write [OF v(1) assms(2) that assms(3)] d'(4) by simp
  ultimately show ?thesis by blast
qed

interpretation ide: block_volume "ata_io lat" "Some v" "ide_ok lat v" "ide_blocks v" "vol_nblk v" for lat v
proof (unfold_locales, goal_cases)
  case (1 s b)
  then show ?case by (simp add: ide_blocks_def length_run_of ide_ok_def ata_ok_def CHASEROS_BLK_def)
next
  case (2 s b)
  then show ?case using ide_read [OF 2] by (auto simp: ide_blocks_def)
next
  case (3 s b x)
  then show ?case using ide_write [OF 3] by blast
next
  case 4
  then show ?case
    by (simp add: vol_read_blk_def vol_write_blk_def bindS_def vol_check_ok blk_outside_iff errIf_def failS_def
        ide_ok_def)
qed


section \<open>The volume refines an array of blocks\<close>

datatype vol_op = Rd u32 | Wr u32 "u8 list"

text \<open>The operations on the real volume, collecting what the reads return, and on an array.\<close>

fun vol_run :: "'d io \<Rightarrow> chaseros_vol option \<Rightarrow> vol_op list \<Rightarrow> ('d fstate, u8 list list) sm" where
  "vol_run io v [] = retS []"
| "vol_run io v (Rd b # ops) = bindS (vol_read_blk io v b) (\<lambda>x. bindS (vol_run io v ops) (\<lambda>xs. retS (x # xs)))"
| "vol_run io v (Wr b x # ops) = bindS (vol_write_blk io v b x) (\<lambda>_. vol_run io v ops)"

fun array_run :: "vol_op list \<Rightarrow> (u32 \<Rightarrow> u8 list) \<Rightarrow> u8 list list" where
  "array_run [] f = []"
| "array_run (Rd b # ops) f = f b # array_run ops f"
| "array_run (Wr b x # ops) f = array_run ops (f(b := x))"

fun op_in :: "nat \<Rightarrow> vol_op \<Rightarrow> bool" where
  "op_in n (Rd b) = (unat b < n)"
| "op_in n (Wr b x) = (unat b < n \<and> length x = CHASEROS_BLK)"

context block_volume
begin

lemma run_refines:
  assumes "ok s" and "\<forall>c. unat c < nblk \<longrightarrow> blocks s c = f c" and "list_all (op_in nblk) ops"
  shows "fst (vol_run io v ops s) = Ok (array_run ops f)"
  using assms
proof (induction ops f arbitrary: s rule: array_run.induct)
  case (1 f)
  then show ?case by (simp add: retS_def)
next
  case (2 b ops f)
  then obtain s' where s': "vol_read_blk io v b s = (Ok (blocks s b), s')" "ok s'"
    "\<forall>c. unat c < nblk \<longrightarrow> blocks s' c = blocks s c"
    using read_law [of s b] by auto
  have "fst (vol_run io v ops s') = Ok (array_run ops f)"
    using 2 s' by simp
  then obtain t where "vol_run io v ops s' = (Ok (array_run ops f), t)" by (metis prod.collapse)
  then show ?case using s' 2 by (simp add: bindS_def retS_def)
next
  case (3 b x ops f)
  then obtain s' where s': "vol_write_blk io v b x s = (Ok (), s')" "ok s'"
    "\<forall>c. unat c < nblk \<longrightarrow> blocks s' c = (if c = b then x else blocks s c)"
    using write_law [of s b x] by auto
  have "fst (vol_run io v ops s') = Ok (array_run ops (f(b := x)))"
    by (rule "3.IH") (use "3.prems" s' in auto)
  then show ?case using s' by (simp add: bindS_def)
qed

end

text \<open>
  C9: the file system sees the same volume on memory and on disk. Any sequence of block reads
  and writes returns on a memory volume, and on a disk volume whose disk answers within the
  polling bound, exactly what an array of blocks with the same contents returns.
\<close>

theorem volume_backends_agree:
  assumes "ram_ok v" and "ide_ok lat w t" and "vol_nblk w = vol_nblk v"
    and "\<forall>c. unat c < vol_nblk v \<longrightarrow> ram_blocks v s c = f c \<and> ide_blocks w t c = f c"
    and "list_all (op_in (vol_nblk v)) ops"
  shows "fst (vol_run io (Some v) ops s) = Ok (array_run ops f) \<and>
    fst (vol_run (ata_io lat) (Some w) ops t) = Ok (array_run ops f)"
  using ram.run_refines [of v s f ops io] ide.run_refines [of lat w t f ops] assms by simp

text \<open>A memory volume and a disk volume of 256 blocks, all zero.\<close>

definition blank_kcore :: kcore where
  "blank_kcore = \<lparr>mach = \<lparr>mem = (\<lambda>_. 0), cr3 = 0\<rparr>,
     kpmm = \<lparr>bitmap = (\<lambda>_. 0), total_pages = 0, used_pages = 0, bitmap_size = 0\<rparr>,
     tasks = [], current_task_idx = 0, task_count = 0, chaseros_active_user_pid = 0, g_sched_context_switches = 0\<rparr>"

definition demo_ram :: chaseros_vol where
  "demo_ram = \<lparr>vtype = CHASEROS_VOL_RAM, ram_base = 0x100000, size_bytes = 262144, ide_drive = 0, ahci_port = 0\<rparr>"

definition demo_ide :: chaseros_vol where
  "demo_ide = demo_ram\<lparr>vtype := CHASEROS_VOL_IDE, ram_base := 0, ide_drive := 1\<rparr>"

definition blank_fstate :: "chaseros_vol \<Rightarrow> 'd \<Rightarrow> 'd fstate" where
  "blank_fstate v d = \<lparr>core = blank_kcore, g_vol = v, g_ram_alloc = 0, g_ram_npages = 0, dev = d, out = []\<rparr>"

lemma demo_vols:
  "ram_ok demo_ram" "vol_nblk demo_ram = 256" "vol_nblk demo_ide = 256" "ide_ok 3 demo_ide (blank_fstate demo_ide blank_ata)"
  by (simp_all add: ram_ok_def vol_ok_def demo_ram_def demo_ide_def vol_nblk_def ide_ok_def blank_fstate_def
      blank_ata_def ata_ok_def ata_idle_def)

lemma blank_blocks:
  "ram_blocks v (blank_fstate v d) c = replicate 1024 0"
  "ide_blocks v (blank_fstate v blank_ata) c = replicate 1024 0"
  by (simp_all add: ram_blocks_def blank_fstate_def fmem_def blank_kcore_def rd_bytes_def CHASEROS_BLK_def
      ide_blocks_def run_of_def blank_ata_def map_replicate_const numeral_2_eq_2 replicate_add [symmetric])

theorem volume_backends_agree_witness:
  "fst (vol_run (ata_io 3) (Some demo_ram) [Wr 7 (replicate 1024 5), Rd 7, Rd 8] (blank_fstate demo_ram blank_ata)) =
     Ok [replicate 1024 5, replicate 1024 0] \<and>
   fst (vol_run (ata_io 3) (Some demo_ide) [Wr 7 (replicate 1024 5), Rd 7, Rd 8] (blank_fstate demo_ide blank_ata)) =
     Ok [replicate 1024 5, replicate 1024 0]"
  using volume_backends_agree [of demo_ram 3 demo_ide "blank_fstate demo_ide blank_ata" "blank_fstate demo_ram blank_ata"
      "\<lambda>_. replicate 1024 0" "[Wr 7 (replicate 1024 5), Rd 7, Rd 8]" "ata_io 3"] demo_vols
  by (simp add: blank_blocks CHASEROS_BLK_def)

text \<open>
  C33: the bound check of the block routines adds 1 to the block number in 32 bits. Block
  0xFFFFFFFF passes it on every memory volume: the write succeeds and stores 1024 bytes outside
  the volume.
\<close>

theorem vol_write_escapes:
  assumes "ram_ok v" and "length x = CHASEROS_BLK"
  shows "\<exists>s'. vol_write_blk io (Some v) 0xFFFFFFFF x s = (Ok (), s') \<and>
    rd_bytes (fmem s') (ram_base v + 0x3FFFFFFFC00) CHASEROS_BLK = x \<and>
    unat (size_bytes v) \<le> unat (0x3FFFFFFFC00 :: u64)"
proof -
  have "\<not> blk_outside v 0xFFFFFFFF" using assms(1) by (simp add: blk_outside_iff ram_ok_def)
  then have "vol_write_blk io (Some v) 0xFFFFFFFF x s =
      (Ok (), set_fmem (wr_bytes (fmem s) (blk_addr v 0xFFFFFFFF) x) s)"
    using assms by (simp add: ram_ok_def vol_write_blk_def bindS_def vol_check_ok errIf_def retS_def modifyS_def)
  moreover have "blk_addr v 0xFFFFFFFF = ram_base v + 0x3FFFFFFFC00"
    by (simp add: blk_addr_def CHASEROS_BLK_def)
  moreover have "unat (size_bytes v) \<le> 8192 * 1024"
    using assms(1) by (simp add: ram_ok_def vol_ok_def word_le_nat_alt)
  ultimately show ?thesis using assms(2) by (auto simp: rd_wr_same CHASEROS_BLK_def)
qed

theorem vol_write_escapes_witness:
  "\<exists>s'. vol_write_blk (ata_io 0) (Some demo_ram) 0xFFFFFFFF (replicate 1024 1) (blank_fstate demo_ram blank_ata) = (Ok (), s') \<and>
    rd_bytes (fmem s') (ram_base demo_ram + 0x3FFFFFFFC00) CHASEROS_BLK = replicate 1024 1"
  using vol_write_escapes [of demo_ram "replicate 1024 1" "ata_io 0" "blank_fstate demo_ram blank_ata"]
    demo_vols(1) by (auto simp: CHASEROS_BLK_def)

end
