(* ===== verification/Ext2.thy ===== *)
theory Ext2
  imports Volume Klog
begin

text \<open>
  The file system of \<open>src/kernel/fs/chaseros/chaseros_ext2_vol.c\<close>: ext2, one block group,
  blocks of 1024 bytes. The structures of \<open>src/kernel/fs/lib/ext2fs/ext2_fs.h\<close> are byte images,
  as the source copies them to and from blocks; a field is the little-endian value at its offset.
  A read or write outside a block buffer or bitmap is \<open>Oob\<close>.
\<close>

definition EXT2_SUPER_MAGIC :: u16 where "EXT2_SUPER_MAGIC = 0xEF53"

text \<open>Superblock, group descriptor, inode.\<close>

definition s_magic :: "u8 list \<Rightarrow> u16" where "s_magic sb = get16 56 sb"
definition s_free_blocks_count :: "u8 list \<Rightarrow> u32" where "s_free_blocks_count sb = get32 12 sb"
definition s_free_inodes_count :: "u8 list \<Rightarrow> u32" where "s_free_inodes_count sb = get32 16 sb"
definition bg_free_blocks_count :: "u8 list \<Rightarrow> u16" where "bg_free_blocks_count gd = get16 12 gd"
definition bg_free_inodes_count :: "u8 list \<Rightarrow> u16" where "bg_free_inodes_count gd = get16 14 gd"
definition bg_used_dirs_count :: "u8 list \<Rightarrow> u16" where "bg_used_dirs_count gd = get16 16 gd"
definition i_mode :: "u8 list \<Rightarrow> u16" where "i_mode ino = get16 0 ino"
definition i_size :: "u8 list \<Rightarrow> u32" where "i_size ino = get32 4 ino"
definition i_links_count :: "u8 list \<Rightarrow> u16" where "i_links_count ino = get16 26 ino"
definition i_blocks :: "u8 list \<Rightarrow> u32" where "i_blocks ino = get32 28 ino"
definition i_block :: "u8 list \<Rightarrow> nat \<Rightarrow> u32" where "i_block ino i = get32 (40 + 4 * i) ino"
definition set_i_block :: "nat \<Rightarrow> u32 \<Rightarrow> u8 list \<Rightarrow> u8 list" where
  "set_i_block i = set32 (40 + 4 * i)"

definition is_dir :: "u8 list \<Rightarrow> bool" where "is_dir ino \<longleftrightarrow> i_mode ino AND 0xF000 = 0x4000"
definition is_reg :: "u8 list \<Rightarrow> bool" where "is_reg ino \<longleftrightarrow> i_mode ino AND 0xF000 = 0x8000"

text \<open>The counters of free blocks and inodes, in the superblock and in the descriptor.\<close>

definition add_free_blocks :: "int \<Rightarrow> u8 list \<times> u8 list \<Rightarrow> u8 list \<times> u8 list" where
  "add_free_blocks d = (\<lambda>(sb, gd).
     (set32 12 (s_free_blocks_count sb + of_int d) sb, set16 12 (bg_free_blocks_count gd + of_int d) gd))"

definition add_free_inodes :: "int \<Rightarrow> u8 list \<times> u8 list \<Rightarrow> u8 list \<times> u8 list" where
  "add_free_inodes d = (\<lambda>(sb, gd).
     (set32 16 (s_free_inodes_count sb + of_int d) sb, set16 14 (bg_free_inodes_count gd + of_int d) gd))"

text \<open>Bitmaps.\<close>

definition bm_set :: "u8 list \<Rightarrow> u32 \<Rightarrow> ('s, u8 list) sm" where
  "bm_set bm b = (let i = unat (b div 8) in
     if i < length bm then retS (bm[i := bm ! i OR push_bit (unat (b mod 8)) 1]) else oobS)"

definition bm_clr :: "u8 list \<Rightarrow> u32 \<Rightarrow> ('s, u8 list) sm" where
  "bm_clr bm b = (let i = unat (b div 8) in
     if i < length bm then retS (bm[i := bm ! i AND NOT (push_bit (unat (b mod 8)) 1)]) else oobS)"

definition bm_get :: "u8 list \<Rightarrow> u32 \<Rightarrow> ('s, bool) sm" where
  "bm_get bm b = (let i = unat (b div 8) in
     if i < length bm then retS (drop_bit (unat (b mod 8)) (bm ! i) AND 1 \<noteq> 0) else oobS)"

section \<open>Metadata blocks\<close>

definition read_super :: "'d io \<Rightarrow> chaseros_vol option \<Rightarrow> ('d fstate, u8 list) sm" where
  "read_super io v =
     bindS (orElse (vol_read_blk io v 1) (-1)) (\<lambda>sb.
     bindS (errIf (s_magic sb \<noteq> EXT2_SUPER_MAGIC) (-1)) (\<lambda>_. retS sb))"

definition write_super :: "'d io \<Rightarrow> chaseros_vol option \<Rightarrow> u8 list \<Rightarrow> ('d fstate, unit) sm" where
  "write_super io v sb = vol_write_blk io v 1 (put_at 0 sb (replicate CHASEROS_BLK 0))"

definition read_gd :: "'d io \<Rightarrow> chaseros_vol option \<Rightarrow> ('d fstate, u8 list) sm" where
  "read_gd io v = bindS (orElse (vol_read_blk io v 2) (-1)) (\<lambda>blk. retS (get_at 0 32 blk))"

definition write_gd :: "'d io \<Rightarrow> chaseros_vol option \<Rightarrow> u8 list \<Rightarrow> ('d fstate, unit) sm" where
  "write_gd io v gd = vol_write_blk io v 2 (put_at 0 gd (replicate CHASEROS_BLK 0))"

definition inode_blk :: "u32 \<Rightarrow> u32" where
  "inode_blk ino = 5 + (ino - 1) * 128 div of_nat CHASEROS_BLK"

definition inode_off :: "u32 \<Rightarrow> nat" where
  "inode_off ino = unat ((ino - 1) * 128 mod of_nat CHASEROS_BLK)"

definition raw_to_inode :: "u8 list \<Rightarrow> nat \<Rightarrow> u8 list" where "raw_to_inode b off = get_at off 128 b"
definition inode_to_raw :: "u8 list \<Rightarrow> u8 list" where "inode_to_raw ino = get_at 0 128 ino"

definition read_inode :: "'d io \<Rightarrow> chaseros_vol option \<Rightarrow> u32 \<Rightarrow> ('d fstate, u8 list) sm" where
  "read_inode io v ino =
     bindS (errIf (ino = 0) (-1)) (\<lambda>_.
     bindS (orElse (vol_read_blk io v (inode_blk ino)) (-1)) (\<lambda>b.
     retS (raw_to_inode b (inode_off ino))))"

definition write_inode :: "'d io \<Rightarrow> chaseros_vol option \<Rightarrow> u32 \<Rightarrow> u8 list \<Rightarrow> ('d fstate, unit) sm" where
  "write_inode io v ino inode =
     bindS (orElse (vol_read_blk io v (inode_blk ino)) (-1)) (\<lambda>b.
     vol_write_blk io v (inode_blk ino) (put_at (inode_off ino) (inode_to_raw inode) b))"

section \<open>Directories\<close>

definition put_le16 :: "nat \<Rightarrow> u16 \<Rightarrow> u8 list \<Rightarrow> u8 list" where
  "put_le16 p v = put_at p [ucast (v AND 0xFF), ucast (drop_bit 8 v)]"

definition put_le32 :: "nat \<Rightarrow> u32 \<Rightarrow> u8 list \<Rightarrow> u8 list" where
  "put_le32 p v = put_at p [ucast (v AND 0xFF), ucast (drop_bit 8 v AND 0xFF),
     ucast (drop_bit 16 v AND 0xFF), ucast (drop_bit 24 v AND 0xFF)]"

definition rec_len :: "string \<Rightarrow> u16" where
  "rec_len name = (8 + of_nat (chaseros_strlen name) + 3) AND NOT 3"

text \<open>One entry at offset \<open>off\<close>; the result is the block and the offset behind the entry.\<close>

definition dirent_put :: "u8 list \<Rightarrow> nat \<Rightarrow> u32 \<Rightarrow> string \<Rightarrow> ('s, u8 list \<times> nat) sm" where
  "dirent_put base off ino name =
     (let nl = chaseros_strlen name; rec = rec_len name in
      if off + 8 + nl > length base then oobS
      else retS (put_at (off + 8) (map byte_of_char name)
                  (put_le16 (off + 6) (of_nat nl) (put_le16 (off + 4) rec (put_le32 off ino base))),
                 off + unat rec))"

definition ent_ino :: "u8 list \<Rightarrow> nat \<Rightarrow> u32" where "ent_ino blk pos = get32 pos blk"
definition ent_rec :: "u8 list \<Rightarrow> nat \<Rightarrow> u16" where "ent_rec blk pos = get16 (pos + 4) blk"
definition ent_nl :: "u8 list \<Rightarrow> nat \<Rightarrow> nat" where "ent_nl blk pos = unat (get16 (pos + 6) blk AND 0xFF)"

definition ent_name :: "u8 list \<Rightarrow> nat \<Rightarrow> string" where
  "ent_name blk pos =
     takeWhile (\<lambda>c. c \<noteq> CHR 0x00) (map char_of_byte (get_at (pos + 8) (ent_nl blk pos) blk))"

text \<open>The entries in turn; the copy of a name that runs past the block is \<open>Oob\<close>.\<close>

function find_loop :: "u8 list \<Rightarrow> string \<Rightarrow> nat \<Rightarrow> ('s, u32 option) sm" where
  "find_loop blk name pos =
     (if pos + 8 \<le> CHASEROS_BLK then
        if ent_rec blk pos < 8 then retS None
        else if ent_nl blk pos \<ge> 256 then retS None
        else if pos + 8 + ent_nl blk pos > length blk then oobS
        else if chaseros_strcmp (ent_name blk pos) name = 0 then retS (Some (ent_ino blk pos))
        else find_loop blk name (pos + unat (ent_rec blk pos))
      else retS None)"
  by pat_completeness auto
termination
  by (relation "measure (\<lambda>(blk, name, pos). CHASEROS_BLK - pos)") (auto simp: word_less_nat_alt)

declare find_loop.simps [simp del]

definition find_in_root :: "u8 list \<Rightarrow> string \<Rightarrow> ('s, u32 option) sm" where
  "find_in_root blk name = find_loop blk name 0"

lemma drop_slash_less: "p \<noteq> [] \<Longrightarrow> length (dropWhile ((=) slash) (snd (take_seg p 0))) < length p"
proof (cases "hd p = slash")
  case True
  assume "p \<noteq> []"
  with True obtain q where "p = slash # q" by (cases p) auto
  then show ?thesis by (simp add: le_imp_less_Suc length_dropWhile_le)
next
  case False
  assume "p \<noteq> []"
  from take_seg_progress [OF this False] show ?thesis
    using length_dropWhile_le [of "(=) slash" "snd (take_seg p 0)"] by linarith
qed

text \<open>One component of the path per round.\<close>

definition lookup_step :: "'d io \<Rightarrow> chaseros_vol option \<Rightarrow> u32 \<Rightarrow> string \<Rightarrow> ('d fstate, u32) sm" where
  "lookup_step io v cur name =
     bindS (orElse (read_inode io v cur) (-1)) (\<lambda>dir_in.
     bindS (errIf (\<not> is_dir dir_in) (-1)) (\<lambda>_.
     bindS (orElse (vol_read_blk io v (i_block dir_in 0)) (-1)) (\<lambda>dblk.
     bindS (find_in_root dblk name) (\<lambda>next_ino.
     case next_ino of
       None \<Rightarrow> failS (-1)
     | Some ino \<Rightarrow> bindS (errIf (ino = 0) (-1)) (\<lambda>_. retS ino)))))"

function lookup_loop :: "'d io \<Rightarrow> chaseros_vol option \<Rightarrow> u32 \<Rightarrow> string \<Rightarrow> ('d fstate, u32) sm" where
  "lookup_loop io v cur p =
     (if p = [] then retS cur
      else bindS (lookup_step io v cur (fst (take_seg p 0))) (\<lambda>ino.
           lookup_loop io v ino (dropWhile ((=) slash) (snd (take_seg p 0)))))"
  by pat_completeness auto
termination
  by (relation "measure (\<lambda>(io, v, cur, p). length p)") (auto dest: drop_slash_less)

declare lookup_loop.simps [simp del]

definition lookup_final ::
  "'d io \<Rightarrow> chaseros_vol option \<Rightarrow> string \<Rightarrow> ('d fstate, u32 \<times> u8 list) sm" where
  "lookup_final io v norm =
     bindS (if chaseros_strcmp norm [slash] = 0 then retS 2 else lookup_loop io v 2 (tl norm)) (\<lambda>ino.
     bindS (read_inode io v ino) (\<lambda>inode. retS (ino, inode)))"

text \<open>A yes-or-no question: every failure is a no.\<close>

definition chaseros_ext2_path_is_dir ::
  "'d io \<Rightarrow> chaseros_vol option \<Rightarrow> string \<Rightarrow> ('d fstate, bool) sm" where
  "chaseros_ext2_path_is_dir io v norm_path s =
     (if v = None then (Ok False, s)
      else case lookup_final io v norm_path s of
        (Ok (_, inode), s) \<Rightarrow> (Ok (is_dir inode), s)
      | (Err _, s) \<Rightarrow> (Ok False, s)
      | (Oob, s) \<Rightarrow> (Oob, s))"


section \<open>Formatting\<close>

definition format_super :: "u32 \<Rightarrow> u8 list" where
  "format_super tb =
     (set32 0 128 \<circ> set32 4 tb \<circ> set32 8 8 \<circ> set32 12 (tb - (FIRST_DATA_BLOCK + 2)) \<circ> set32 16 (128 - 11) \<circ>
      set32 20 1 \<circ> set32 24 0 \<circ> set32 28 0 \<circ> set32 32 tb \<circ> set32 36 tb \<circ> set32 40 128 \<circ>
      set16 56 EXT2_SUPER_MAGIC \<circ> set16 58 1 \<circ> set16 60 1 \<circ> set32 76 0 \<circ> set32 72 0)
       (replicate CHASEROS_BLK 0)"

definition format_gd :: "u8 list \<Rightarrow> u8 list" where
  "format_gd sb =
     (set32 0 3 \<circ> set32 4 4 \<circ> set32 8 5 \<circ>
      set16 12 (if s_free_blocks_count sb > 0xFFFF then 0xFFFF else ucast (s_free_blocks_count sb)) \<circ>
      set16 14 (if s_free_inodes_count sb > 0xFFFF then 0xFFFF else ucast (s_free_inodes_count sb)) \<circ>
      set16 16 2) (replicate 32 0)"

fun bm_set_range :: "u8 list \<Rightarrow> nat \<Rightarrow> ('s, u8 list) sm" where
  "bm_set_range bm 0 = retS bm"
| "bm_set_range bm (Suc n) = bindS (bm_set_range bm n) (\<lambda>bm. bm_set bm (of_nat n))"

definition dir_inode :: "u16 \<Rightarrow> u32 \<Rightarrow> u8 list" where
  "dir_inode links blk =
     (set16 0 (0x4000 OR 0x1ED) \<circ> set32 4 (of_nat CHASEROS_BLK) \<circ> set16 26 links \<circ> set32 28 2 \<circ>
      set_i_block 0 blk) (replicate 128 0)"

fun write_zero_blocks :: "'d io \<Rightarrow> chaseros_vol option \<Rightarrow> u32 list \<Rightarrow> ('d fstate, unit) sm" where
  "write_zero_blocks io v [] = retS ()"
| "write_zero_blocks io v (b # bs) =
     bindS (orElse (vol_write_blk io v b (replicate CHASEROS_BLK 0)) (-1)) (\<lambda>_. write_zero_blocks io v bs)"

definition zero_ram :: "chaseros_vol \<Rightarrow> 'd fstate \<Rightarrow> 'd fstate" where
  "zero_ram v s = (if vtype v = CHASEROS_VOL_RAM
     then set_fmem (wr_bytes (fmem s) (ram_base v) (replicate (unat (size_bytes v)) 0)) s else s)"

definition chaseros_ext2_format :: "'d io \<Rightarrow> chaseros_vol option \<Rightarrow> ('d fstate, unit) sm" where
  "chaseros_ext2_format io v =
     bindS (orElse (vol_check v) (-1)) (\<lambda>_.
     let tb = total_blocks_from_vol (the v) in
     bindS (errIf (tb < 256 \<or> tb > 8192 \<or> tb < FIRST_DATA_BLOCK + 2) (-1)) (\<lambda>_.
     bindS (modifyS (zero_ram (the v))) (\<lambda>_.
     let sb = format_super tb; gd = format_gd sb; z = replicate CHASEROS_BLK 0 in
     bindS (bm_set_range z (unat (FIRST_DATA_BLOCK + 2))) (\<lambda>bb.
     bindS (bm_set_range z 11) (\<lambda>ib.
     bindS (dirent_put z 0 2 ''.'') (\<lambda>(droot, doff).
     bindS (dirent_put droot doff 2 ''..'') (\<lambda>(droot, doff).
     bindS (dirent_put droot doff 11 ''lost+found'') (\<lambda>(droot, doff).
     bindS (dirent_put z 0 11 ''.'') (\<lambda>(dlf, doff).
     bindS (dirent_put dlf doff 2 ''..'') (\<lambda>(dlf, doff).
     bindS (orElse (write_super io v sb) (-1)) (\<lambda>_.
     bindS (orElse (write_gd io v gd) (-1)) (\<lambda>_.
     bindS (orElse (vol_write_blk io v 3 bb) (-1)) (\<lambda>_.
     bindS (orElse (vol_write_blk io v 4 ib) (-1)) (\<lambda>_.
     bindS (write_zero_blocks io v (map (\<lambda>i. 5 + of_nat i) [0..<unat INODE_TBL_BLOCKS])) (\<lambda>_.
     bindS (orElse (write_inode io v 2 (dir_inode 3 FIRST_DATA_BLOCK)) (-1)) (\<lambda>_.
     bindS (orElse (write_inode io v 11 (dir_inode 2 (FIRST_DATA_BLOCK + 1))) (-1)) (\<lambda>_.
     bindS (orElse (vol_write_blk io v FIRST_DATA_BLOCK droot) (-1)) (\<lambda>_.
     orElse (vol_write_blk io v (FIRST_DATA_BLOCK + 1) dlf) (-1)))))))))))))))))))"

section \<open>Reading\<close>

text \<open>\<open>return -1\<close> when normalisation refuses the path.\<close>

definition normS :: "string \<Rightarrow> ('s, string) sm" where
  "normS name = (case chaseros_path_normalize name CHASEROS_PATH_MAX of
      None \<Rightarrow> failS (-1) | Some norm \<Rightarrow> retS norm)"

definition find_regular :: "'d io \<Rightarrow> chaseros_vol option \<Rightarrow> string \<Rightarrow> ('d fstate, u8 list) sm" where
  "find_regular io v name =
     bindS (normS name) (\<lambda>norm.
     bindS (orElse (read_super io v) (-1)) (\<lambda>sb.
     bindS (orElse (lookup_final io v norm) (-1)) (\<lambda>(fino, fi).
     bindS (errIf (\<not> is_reg fi) (-1)) (\<lambda>_. retS fi))))"

definition chaseros_ext2_stat_file :: "'d io \<Rightarrow> chaseros_vol option \<Rightarrow> string \<Rightarrow> ('d fstate, u32) sm" where
  "chaseros_ext2_stat_file io v name = bindS (find_regular io v name) (\<lambda>fi. retS (i_size fi))"

definition blocks_of :: "u32 \<Rightarrow> u32" where
  "blocks_of sz = (sz + of_nat CHASEROS_BLK - 1) div of_nat CHASEROS_BLK"

text \<open>The copy loop of one block: bytes \<open>j\<close> to \<open>blk_len\<close> at or behind \<open>offset\<close>, up to the limit.\<close>

fun copy_loop :: "u8 list \<Rightarrow> nat \<Rightarrow> nat \<Rightarrow> nat \<Rightarrow> nat \<Rightarrow> nat \<Rightarrow> u8 list \<Rightarrow> u8 list" where
  "copy_loop tmp file_cursor offset maxcopy j 0 acc = acc"
| "copy_loop tmp file_cursor offset maxcopy j (Suc rest) acc =
     (if length acc < maxcopy
      then if file_cursor + j < offset then copy_loop tmp file_cursor offset maxcopy (Suc j) rest acc
           else let acc = acc @ [tmp ! j] in
                if length acc \<ge> maxcopy then acc
                else copy_loop tmp file_cursor offset maxcopy (Suc j) rest acc
      else acc)"

text \<open>The loop over the blocks, \<open>rest\<close> of them to go; \<open>acc\<close> holds the bytes copied so far.\<close>

fun read_blocks ::
  "'d io \<Rightarrow> chaseros_vol option \<Rightarrow> u8 list \<Rightarrow> nat \<Rightarrow> nat \<Rightarrow> nat \<Rightarrow> nat \<Rightarrow> nat \<Rightarrow> u8 list \<Rightarrow>
   ('d fstate, u8 list) sm" where
  "read_blocks io v fi offset maxcopy i 0 file_cursor acc = retS acc"
| "read_blocks io v fi offset maxcopy i (Suc rest) file_cursor acc =
     (if file_cursor < unat (i_size fi) \<and> length acc < maxcopy
      then let bn = i_block fi i in
           if bn = 0 then retS acc
           else bindS (orElse (vol_read_blk io v bn) (-1)) (\<lambda>tmp.
             let blk_len = (if file_cursor + CHASEROS_BLK > unat (i_size fi)
                            then unat (i_size fi) - file_cursor else CHASEROS_BLK) in
             read_blocks io v fi offset maxcopy (Suc i) rest (file_cursor + blk_len)
               (copy_loop tmp file_cursor offset maxcopy 0 blk_len acc))
      else retS acc)"

definition chaseros_ext2_read_file_range ::
  "'d io \<Rightarrow> chaseros_vol option \<Rightarrow> string \<Rightarrow> u32 \<Rightarrow> u64 \<Rightarrow> ('d fstate, u8 list) sm" where
  "chaseros_ext2_read_file_range io v name offset buf_sz =
     bindS (errIf (buf_sz = 0) (-1)) (\<lambda>_.
     bindS (find_regular io v name) (\<lambda>fi.
     let isize = i_size fi in
     if offset \<ge> isize then retS []
     else let maxcopy = isize - offset;
              maxcopy = (if ucast maxcopy > buf_sz then ucast buf_sz else maxcopy);
              nblk = blocks_of isize in
       bindS (errIf (nblk > 12) (-1)) (\<lambda>_.
       read_blocks io v fi (unat offset) (unat maxcopy) 0 (unat nblk) 0 [])))"

definition chaseros_ext2_read_file ::
  "'d io \<Rightarrow> chaseros_vol option \<Rightarrow> string \<Rightarrow> u64 \<Rightarrow> ('d fstate, u8 list) sm" where
  "chaseros_ext2_read_file io v name buf_sz = chaseros_ext2_read_file_range io v name 0 buf_sz"

section \<open>Listing\<close>

function ls_loop :: "u8 list \<Rightarrow> nat \<Rightarrow> ('d fstate, unit) sm" where
  "ls_loop blk pos =
     (if pos + 8 \<le> CHASEROS_BLK then
        if ent_rec blk pos < 8 then retS ()
        else if ent_nl blk pos \<ge> 256 then failS (-1)
        else if pos + 8 + ent_nl blk pos > length blk then oobS
        else bindS (putS (''  '' @ ent_name blk pos @ ''  ino='' @ puts_dec (ucast (ent_ino blk pos)) @ newline)) (\<lambda>_.
             ls_loop blk (pos + unat (ent_rec blk pos)))
      else retS ())"
  by pat_completeness auto
termination
  by (relation "measure (\<lambda>(blk, pos). CHASEROS_BLK - pos)") (auto simp: word_less_nat_alt)

declare ls_loop.simps [simp del]

definition chaseros_ext2_ls_at :: "'d io \<Rightarrow> chaseros_vol option \<Rightarrow> string \<Rightarrow> ('d fstate, unit) sm" where
  "chaseros_ext2_ls_at io v path_raw =
     bindS (normS path_raw) (\<lambda>norm.
     bindS (\<lambda>s. case read_super io v s of
         (Err _, s) \<Rightarrow>
           bindS (putS (''ls: not ext2 or unreadable superblock'' @ newline)) (\<lambda>_. failS (-1)) s
       | r \<Rightarrow> r) (\<lambda>sb.
     bindS (orElse (lookup_final io v norm) (-1)) (\<lambda>(dino, ir).
     bindS (errIf (\<not> is_dir ir) (-1)) (\<lambda>_.
     bindS (orElse (vol_read_blk io v (i_block ir 0)) (-1)) (\<lambda>blk.
     ls_loop blk 0)))))"

definition chaseros_ext2_ls :: "'d io \<Rightarrow> chaseros_vol option \<Rightarrow> ('d fstate, unit) sm" where
  "chaseros_ext2_ls io v = chaseros_ext2_ls_at io v ''/''"

section \<open>Allocation and writing\<close>

text \<open>The scans for a clear bit, \<open>rest\<close> candidates to go; 0 is the failure value.\<close>

fun alloc_scan :: "u8 list \<Rightarrow> u32 \<Rightarrow> nat \<Rightarrow> ('s, u32 option) sm" where
  "alloc_scan bm b 0 = retS None"
| "alloc_scan bm b (Suc rest) =
     bindS (bm_get bm b) (\<lambda>used. if used then alloc_scan bm (b + 1) rest else retS (Some b))"

definition alloc_block :: "u8 list \<Rightarrow> u32 \<Rightarrow> ('s, u32 \<times> u8 list) sm" where
  "alloc_block bb tb =
     bindS (alloc_scan bb (FIRST_DATA_BLOCK + 2) (unat tb - unat (FIRST_DATA_BLOCK + 2))) (\<lambda>r.
     case r of None \<Rightarrow> retS (0, bb) | Some b \<Rightarrow> bindS (bm_set bb b) (\<lambda>bb. retS (b, bb)))"

definition alloc_inode :: "u8 list \<Rightarrow> ('s, u32 \<times> u8 list) sm" where
  "alloc_inode ib =
     bindS (alloc_scan ib 11 117) (\<lambda>r.
     case r of None \<Rightarrow> retS (0, ib) | Some b \<Rightarrow> bindS (bm_set ib b) (\<lambda>ib. retS (b + 1, ib)))"

fun free_blocks_loop ::
  "nat \<Rightarrow> nat \<Rightarrow> (u8 list \<times> u8 list) \<times> u8 list \<times> u8 list \<Rightarrow> ('s, (u8 list \<times> u8 list) \<times> u8 list \<times> u8 list) sm" where
  "free_blocks_loop i 0 st = retS st"
| "free_blocks_loop i (Suc rest) (cnt, bb, fi) =
     (let bn = i_block fi i in
      if bn \<noteq> 0
      then bindS (bm_clr bb bn) (\<lambda>bb.
           free_blocks_loop (Suc i) rest (add_free_blocks 1 cnt, bb, set_i_block i 0 fi))
      else free_blocks_loop (Suc i) rest (cnt, bb, set_i_block i 0 fi))"

definition free_inode_blocks ::
  "u8 list \<times> u8 list \<Rightarrow> u8 list \<Rightarrow> u8 list \<Rightarrow> ('s, (u8 list \<times> u8 list) \<times> u8 list \<times> u8 list) sm" where
  "free_inode_blocks cnt bb fi =
     (let nblk = blocks_of (i_size fi) in
      bindS (free_blocks_loop 0 (unat (if nblk > 12 then 12 else nblk)) (cnt, bb, fi)) (\<lambda>(cnt, bb, fi).
      retS (cnt, bb, set32 28 0 (set32 4 0 fi))))"

text \<open>The offset behind the last entry of a directory block.\<close>

function dir_end :: "u8 list \<Rightarrow> nat \<Rightarrow> nat" where
  "dir_end blk pos =
     (if pos + 8 \<le> CHASEROS_BLK
      then if ent_rec blk pos < 8 then pos else dir_end blk (pos + unat (ent_rec blk pos))
      else pos)"
  by pat_completeness auto
termination
  by (relation "measure (\<lambda>(blk, pos). CHASEROS_BLK - pos)") (auto simp: word_less_nat_alt)

declare dir_end.simps [simp del]

definition dir_append :: "u8 list \<Rightarrow> u32 \<Rightarrow> string \<Rightarrow> ('s, u8 list) sm" where
  "dir_append blk ino name =
     (let pos = dir_end blk 0; need = rec_len name in
      bindS (errIf (pos + unat need > CHASEROS_BLK) (-1)) (\<lambda>_.
      bindS (dirent_put blk pos ino name) (\<lambda>(blk, pos). retS blk)))"

text \<open>The data blocks of a file, \<open>rest\<close> of them to go.\<close>

fun write_blocks ::
  "'d io \<Rightarrow> chaseros_vol option \<Rightarrow> u32 \<Rightarrow> u8 list \<Rightarrow> nat \<Rightarrow> nat \<Rightarrow>
   (u8 list \<times> u8 list) \<times> u8 list \<times> u8 list \<Rightarrow> ('d fstate, (u8 list \<times> u8 list) \<times> u8 list \<times> u8 list) sm" where
  "write_blocks io v tb data bi 0 st = retS st"
| "write_blocks io v tb data bi (Suc rest) (cnt, bb, fi) =
     bindS (alloc_block bb tb) (\<lambda>(bn, bb).
     bindS (errIf (bn = 0) (-1)) (\<lambda>_.
     let cnt = add_free_blocks (-1) cnt; fi = set_i_block bi bn fi;
         chunk = (if bi * CHASEROS_BLK + CHASEROS_BLK > length data
                  then length data - bi * CHASEROS_BLK else CHASEROS_BLK);
         tmp = put_at 0 (get_at (bi * CHASEROS_BLK) chunk data) (replicate CHASEROS_BLK 0) in
     bindS (orElse (vol_write_blk io v bn tmp) (-1)) (\<lambda>_.
     write_blocks io v tb data (Suc bi) rest (cnt, bb, fi))))"

text \<open>The metadata both writers load, and store at the end.\<close>

definition load_meta ::
  "'d io \<Rightarrow> chaseros_vol option \<Rightarrow> ('d fstate, (u8 list \<times> u8 list) \<times> u8 list \<times> u8 list) sm" where
  "load_meta io v =
     bindS (orElse (read_super io v) (-1)) (\<lambda>sb.
     bindS (orElse (read_gd io v) (-1)) (\<lambda>gd.
     bindS (orElse (vol_read_blk io v 3) (-1)) (\<lambda>bb.
     bindS (orElse (vol_read_blk io v 4) (-1)) (\<lambda>ib. retS ((sb, gd), bb, ib)))))"

definition store_meta ::
  "'d io \<Rightarrow> chaseros_vol option \<Rightarrow> u8 list \<times> u8 list \<Rightarrow> u8 list \<Rightarrow> u8 list \<Rightarrow> ('d fstate, unit) sm" where
  "store_meta io v cnt bb ib =
     bindS (orElse (write_super io v (fst cnt)) (-1)) (\<lambda>_.
     bindS (orElse (write_gd io v (snd cnt)) (-1)) (\<lambda>_.
     bindS (orElse (vol_write_blk io v 3 bb) (-1)) (\<lambda>_.
     orElse (vol_write_blk io v 4 ib) (-1))))"

definition splitS :: "string \<Rightarrow> ('s, string \<times> string) sm" where
  "splitS norm = (case path_split_parent norm CHASEROS_PATH_MAX 128 of
      None \<Rightarrow> failS (-1) | Some pb \<Rightarrow> retS pb)"

definition open_parent ::
  "'d io \<Rightarrow> chaseros_vol option \<Rightarrow> string \<Rightarrow> ('d fstate, u32 \<times> u8 list \<times> u8 list) sm" where
  "open_parent io v parent =
     bindS (orElse (lookup_final io v parent) (-1)) (\<lambda>(pinum, parent_ino).
     bindS (errIf (\<not> is_dir parent_ino) (-1)) (\<lambda>_.
     bindS (orElse (vol_read_blk io v (i_block parent_ino 0)) (-1)) (\<lambda>droot.
     retS (pinum, parent_ino, droot))))"

definition file_inode :: "nat \<Rightarrow> u8 list \<Rightarrow> u8 list" where
  "file_inode len fi =
     (let n = of_nat ((len + 511) div 512) :: u32 in
      (set32 28 (if n = 0 \<and> len > 0 then 1 else n) \<circ> set16 26 1 \<circ> set32 4 (of_nat len) \<circ>
       set16 0 (0x8000 OR 0x1A4)) fi)"

text \<open>
  The choice of the inode: an existing entry is emptied and its blocks are released, otherwise
  an inode is taken and entered into the directory.
\<close>

definition new_inode ::
  "'d io \<Rightarrow> chaseros_vol option \<Rightarrow> u8 list \<Rightarrow> u8 list \<Rightarrow> string \<Rightarrow> u8 list \<times> u8 list \<Rightarrow> u8 list \<Rightarrow> u8 list \<Rightarrow>
   ('d fstate, u32 \<times> (u8 list \<times> u8 list) \<times> u8 list \<times> u8 list \<times> u8 list) sm" where
  "new_inode io v parent_ino droot base cnt bb ib =
     bindS (alloc_inode ib) (\<lambda>(new_ino, ib).
     bindS (errIf (new_ino = 0) (-1)) (\<lambda>_.
     bindS (dir_append droot new_ino base) (\<lambda>droot.
     bindS (orElse (vol_write_blk io v (i_block parent_ino 0) droot) (-1)) (\<lambda>_.
     retS (new_ino, add_free_inodes (-1) cnt, bb, ib, replicate 128 0)))))"

definition claim_inode ::
  "'d io \<Rightarrow> chaseros_vol option \<Rightarrow> u8 list \<Rightarrow> u8 list \<Rightarrow> string \<Rightarrow> u8 list \<times> u8 list \<Rightarrow> u8 list \<Rightarrow> u8 list \<Rightarrow>
   ('d fstate, u32 \<times> (u8 list \<times> u8 list) \<times> u8 list \<times> u8 list \<times> u8 list) sm" where
  "claim_inode io v parent_ino droot base cnt bb ib =
     bindS (find_in_root droot base) (\<lambda>found.
     case found of
       Some exist_ino \<Rightarrow>
         if exist_ino \<noteq> 0
         then bindS (orElse (read_inode io v exist_ino) (-1)) (\<lambda>fi.
              bindS (free_inode_blocks cnt bb fi) (\<lambda>(cnt, bb, fi).
              bindS (orElse (vol_write_blk io v 3 bb) (-1)) (\<lambda>_. retS (exist_ino, cnt, bb, ib, fi))))
         else new_inode io v parent_ino droot base cnt bb ib
     | None \<Rightarrow> new_inode io v parent_ino droot base cnt bb ib)"

definition chaseros_ext2_write_file ::
  "'d io \<Rightarrow> chaseros_vol option \<Rightarrow> string \<Rightarrow> u8 list \<Rightarrow> ('d fstate, unit) sm" where
  "chaseros_ext2_write_file io v name data =
     bindS (errIf (length data > 12 * CHASEROS_BLK) (-1)) (\<lambda>_.
     bindS (normS name) (\<lambda>norm.
     bindS (splitS norm) (\<lambda>(parent, base).
     bindS (load_meta io v) (\<lambda>(cnt, bb, ib).
     bindS (open_parent io v parent) (\<lambda>(pinum, parent_ino, droot).
     bindS (claim_inode io v parent_ino droot base cnt bb ib) (\<lambda>(ino, cnt, bb, ib, fi).
     bindS (write_blocks io v (total_blocks_from_vol (the v)) data 0
              ((length data + CHASEROS_BLK - 1) div CHASEROS_BLK)
              (cnt, bb, file_inode (length data) fi)) (\<lambda>(cnt, bb, fi).
     bindS (store_meta io v cnt bb ib) (\<lambda>_.
     orElse (write_inode io v ino fi) (-1)))))))))"

definition chaseros_ext2_mkdir :: "'d io \<Rightarrow> chaseros_vol option \<Rightarrow> string \<Rightarrow> ('d fstate, unit) sm" where
  "chaseros_ext2_mkdir io v path_raw =
     bindS (normS path_raw) (\<lambda>norm.
     bindS (splitS norm) (\<lambda>(parent, base).
     bindS (load_meta io v) (\<lambda>(cnt, bb, ib).
     bindS (open_parent io v parent) (\<lambda>(pinum, parent_ino, dparent).
     bindS (find_in_root dparent base) (\<lambda>found.
     bindS (errIf (found \<noteq> None \<and> found \<noteq> Some 0) (-1)) (\<lambda>_.
     bindS (alloc_inode ib) (\<lambda>(new_ino, ib).
     bindS (errIf (new_ino = 0) (-1)) (\<lambda>_.
     bindS (alloc_block bb (total_blocks_from_vol (the v))) (\<lambda>(new_blk, bb).
     bindS (errIf (new_blk = 0) (-1)) (\<lambda>_.
     let cnt = add_free_blocks (-1) (add_free_inodes (-1) cnt) in
     bindS (dirent_put (replicate CHASEROS_BLK 0) 0 new_ino ''.'') (\<lambda>(dnew, doff).
     bindS (dirent_put dnew doff pinum ''..'') (\<lambda>(dnew, doff).
     bindS (orElse (vol_write_blk io v new_blk dnew) (-1)) (\<lambda>_.
     bindS (dir_append dparent new_ino base) (\<lambda>dparent.
     bindS (orElse (vol_write_blk io v (i_block parent_ino 0) dparent) (-1)) (\<lambda>_.
     let parent_ino = set16 26 (i_links_count parent_ino + 1) parent_ino;
         cnt = (fst cnt, set16 16 (bg_used_dirs_count (snd cnt) + 1) (snd cnt)) in
     bindS (store_meta io v cnt bb ib) (\<lambda>_.
     bindS (orElse (write_inode io v pinum parent_ino) (-1)) (\<lambda>_.
     orElse (write_inode io v new_ino (dir_inode 2 new_blk)) (-1))))))))))))))))))"

end
