(* ===== verification/Vfs.thy ===== *)
theory Vfs
  imports Ext2
begin

text \<open>
  The virtual file system: \<open>src/kernel/fs/vfs.c\<close> over the volume and the pseudo files of
  \<open>src/kernel/fs/vfs_devfs.c\<close>. Failures are the negative \<open>VFS_ERR\<close> codes.

  The state of this and of the following theories holds the file system state and the static
  variables of \<open>vfs.c\<close>, \<open>user_fd.c\<close>, \<open>user.c\<close>, \<open>shell.c\<close> (its working directory),
  \<open>loader/cndyn_loader.c\<close> and \<open>isr.c\<close> (the tick counter).
\<close>

definition VFS_ERR_NONE :: int where "VFS_ERR_NONE = 0"
definition VFS_ERR_NOENT :: int where "VFS_ERR_NOENT = -1"
definition VFS_ERR_NOSYS :: int where "VFS_ERR_NOSYS = -2"
definition VFS_ERR_NOTMOUNTED :: int where "VFS_ERR_NOTMOUNTED = -3"
definition VFS_ERR_IO :: int where "VFS_ERR_IO = -4"

lemmas vfs_codes = VFS_ERR_NONE_def VFS_ERR_NOENT_def VFS_ERR_NOSYS_def VFS_ERR_NOTMOUNTED_def VFS_ERR_IO_def

datatype vfs_fstype = VFS_FS_NONE | VFS_FS_EXT2 | VFS_FS_DEV

record vfs_stat =
  st_ino :: u64
  st_size :: u64

record user_fd_slot =
  valid :: bool
  upath :: string
  uoffset :: u32
  usize :: u32

record cndyn_lib_slot =
  soname :: string
  abi_major :: u32
  abi_minor :: u32
  lib_base :: u64
  used :: bool

record 'd kst =
  fs :: "'d fstate"
  mounted :: bool
  fstype :: vfs_fstype
  g_ufd :: "user_fd_slot list"
  g_user_cwd :: string
  shell_cwd :: string
  g_libs :: "cndyn_lib_slot list"
  exit_stk :: u64
  chaseros_kernel_ticks :: u64

definition liftFs :: "('d fstate, 'a) sm \<Rightarrow> ('d kst, 'a) sm" where
  "liftFs m k = (case m (fs k) of (r, s) \<Rightarrow> (r, k\<lparr>fs := s\<rparr>))"

abbreviation kmach :: "'d kst \<Rightarrow> machine" where "kmach k \<equiv> mach (core (fs k))"

definition set_kmem :: "memory \<Rightarrow> 'd kst \<Rightarrow> 'd kst" where
  "set_kmem m k = k\<lparr>fs := set_fmem m (fs k)\<rparr>"

section \<open>Pseudo files\<close>

fun str_eq :: "string \<Rightarrow> string \<Rightarrow> bool" where
  "str_eq [] [] = True"
| "str_eq (a # as) (b # bs) = (if a = b then str_eq as bs else False)"
| "str_eq _ _ = False"

definition is_under_dev :: "string \<Rightarrow> bool" where
  "is_under_dev norm = (case norm of
      c0 # c1 # c2 # c3 # rest \<Rightarrow>
        \<not> (c0 \<noteq> CHR ''/'' \<or> c1 \<noteq> CHR ''d'' \<or> c2 \<noteq> CHR ''e'' \<or> c3 \<noteq> CHR ''v'') \<and>
        (case rest of [] \<Rightarrow> True | c4 # _ \<Rightarrow> c4 = CHR ''/'')
    | _ \<Rightarrow> False)"

definition vfs_devfs_handles :: "string \<Rightarrow> bool" where
  "vfs_devfs_handles norm_path = is_under_dev norm_path"

definition vfs_devfs_is_directory :: "string \<Rightarrow> bool" where
  "vfs_devfs_is_directory norm_path = str_eq norm_path ''/dev''"

definition vfs_devfs_stat :: "string \<Rightarrow> ('s, vfs_stat) sm" where
  "vfs_devfs_stat norm_path =
     (if str_eq norm_path ''/dev'' then retS \<lparr>st_ino = 1, st_size = 0\<rparr>
      else if str_eq norm_path ''/dev/null'' then retS \<lparr>st_ino = 2, st_size = 0\<rparr>
      else if str_eq norm_path ''/dev/zero'' then retS \<lparr>st_ino = 3, st_size = 0xFFFFFFFF\<rparr>
      else failS VFS_ERR_NOENT)"

definition vfs_devfs_ls :: "string \<Rightarrow> ('d fstate, unit) sm" where
  "vfs_devfs_ls norm_path =
     (if \<not> str_eq norm_path ''/dev'' then failS VFS_ERR_IO
      else bindS (putS (''  null  ino=2'' @ newline)) (\<lambda>_. putS (''  zero  ino=3'' @ newline)))"

definition vfs_devfs_read_range :: "string \<Rightarrow> u32 \<Rightarrow> u64 \<Rightarrow> ('s, u8 list) sm" where
  "vfs_devfs_read_range norm_path offset buf_sz =
     (if str_eq norm_path ''/dev/null'' then retS []
      else if str_eq norm_path ''/dev/zero'' then retS (replicate (unat buf_sz) 0)
      else failS VFS_ERR_NOENT)"

definition vfs_devfs_write_file :: "string \<Rightarrow> u8 list \<Rightarrow> ('s, unit) sm" where
  "vfs_devfs_write_file norm_path data =
     (if str_eq norm_path ''/dev/null'' then retS ()
      else if str_eq norm_path ''/dev/zero'' then failS VFS_ERR_IO
      else failS VFS_ERR_NOENT)"

definition vfs_devfs_mkdir :: "string \<Rightarrow> ('s, unit) sm" where
  "vfs_devfs_mkdir norm_path = failS VFS_ERR_IO"

section \<open>Working directory and descriptors, as far as unmounting resets them\<close>

definition chaseros_user_cwd_reset :: "'d kst \<Rightarrow> 'd kst" where
  "chaseros_user_cwd_reset k = k\<lparr>g_user_cwd := ''/''\<rparr>"

definition user_fd_reset :: "'d kst \<Rightarrow> 'd kst" where
  "user_fd_reset k = k\<lparr>g_ufd := map (\<lambda>u. u\<lparr>valid := False\<rparr>) (g_ufd k)\<rparr>"

definition user_fd_umount_close_all :: "'d kst \<Rightarrow> 'd kst" where
  "user_fd_umount_close_all k = chaseros_user_cwd_reset (user_fd_reset k)"

section \<open>The root mount\<close>

definition chaseros_ext2_init :: "('d fstate, unit) sm" where
  "chaseros_ext2_init = putS (''[FS] e2fsprogs 1.47.4'' @ newline)"

definition vfs_active_vol :: "'d kst \<Rightarrow> chaseros_vol option" where
  "vfs_active_vol k = (if \<not> mounted k then None else chaseros_vol_current (fs k))"

definition vfs_init :: "('d kst, unit) sm" where
  "vfs_init = bindS (modifyS (\<lambda>k. k\<lparr>mounted := False, fstype := VFS_FS_NONE\<rparr>)) (\<lambda>_.
     liftFs chaseros_ext2_init)"

definition vfs_mount_root :: "('d kst, unit) sm" where
  "vfs_mount_root =
     bindS (getS (\<lambda>k. chaseros_vol_current (fs k))) (\<lambda>v.
     bindS (errIf (v = None) VFS_ERR_NOENT) (\<lambda>_.
     modifyS (\<lambda>k. k\<lparr>mounted := True, fstype := VFS_FS_EXT2\<rparr>)))"

definition vfs_umount_root :: "('d kst, unit) sm" where
  "vfs_umount_root =
     bindS (modifyS user_fd_umount_close_all) (\<lambda>_.
     modifyS (\<lambda>k. k\<lparr>mounted := False, fstype := VFS_FS_NONE\<rparr>))"

definition vfs_is_mounted :: "'d kst \<Rightarrow> bool" where
  "vfs_is_mounted k \<longleftrightarrow> mounted k \<and> chaseros_vol_current (fs k) \<noteq> None"

definition vfs_root_fstype :: "'d kst \<Rightarrow> vfs_fstype" where "vfs_root_fstype k = fstype k"

definition vfs_format :: "'d io \<Rightarrow> ('d kst, unit) sm" where
  "vfs_format io =
     bindS (getS (\<lambda>k. chaseros_vol_current (fs k))) (\<lambda>v.
     bindS (errIf (v = None) VFS_ERR_NOENT) (\<lambda>_.
     orElse (liftFs (chaseros_ext2_format io v)) VFS_ERR_IO))"

section \<open>Paths and files\<close>

definition vfs_resolve_path :: "string \<Rightarrow> string \<Rightarrow> nat \<Rightarrow> string option" where
  "vfs_resolve_path cwd rel outsz =
     (if outsz < 2 then None
      else if rel \<noteq> [] \<and> hd rel = slash then chaseros_path_normalize rel outsz
      else if length cwd + 1 + length rel + 2 > 512 then None
      else if cwd = [slash] then chaseros_path_normalize (slash # rel) outsz
      else chaseros_path_normalize (cwd @ slash # rel) outsz)"

text \<open>The common beginning: the active volume and the normalised path.\<close>

definition with_path :: "string \<Rightarrow> (chaseros_vol option \<Rightarrow> string \<Rightarrow> ('d kst, 'a) sm) \<Rightarrow> ('d kst, 'a) sm" where
  "with_path path f =
     bindS (getS vfs_active_vol) (\<lambda>v.
     bindS (errIf (v = None) VFS_ERR_NOTMOUNTED) (\<lambda>_.
     case chaseros_path_normalize path 256 of None \<Rightarrow> failS VFS_ERR_IO | Some norm \<Rightarrow> f v norm))"

definition vfs_ls :: "'d io \<Rightarrow> string \<Rightarrow> ('d kst, unit) sm" where
  "vfs_ls io path =
     with_path (if path = [] then ''/'' else path) (\<lambda>v norm.
       if vfs_devfs_handles norm then liftFs (vfs_devfs_ls norm)
       else orElse (liftFs (chaseros_ext2_ls_at io v norm)) VFS_ERR_IO)"

definition vfs_mkdir :: "'d io \<Rightarrow> string \<Rightarrow> ('d kst, unit) sm" where
  "vfs_mkdir io path =
     with_path path (\<lambda>v norm.
       if vfs_devfs_handles norm then vfs_devfs_mkdir norm
       else orElse (liftFs (chaseros_ext2_mkdir io v norm)) VFS_ERR_IO)"

definition vfs_is_directory :: "'d io \<Rightarrow> string \<Rightarrow> ('d kst, bool) sm" where
  "vfs_is_directory io path =
     bindS (getS vfs_active_vol) (\<lambda>v.
     if v = None then retS False
     else case chaseros_path_normalize path 256 of
         None \<Rightarrow> retS False
       | Some norm \<Rightarrow>
           if vfs_devfs_handles norm then retS (vfs_devfs_is_directory norm)
           else liftFs (chaseros_ext2_path_is_dir io v norm))"

definition vfs_read_file_range :: "'d io \<Rightarrow> string \<Rightarrow> u32 \<Rightarrow> u64 \<Rightarrow> ('d kst, u8 list) sm" where
  "vfs_read_file_range io name offset buf_sz =
     with_path name (\<lambda>v norm.
       if vfs_devfs_handles norm then vfs_devfs_read_range norm offset buf_sz
       else orElse (liftFs (chaseros_ext2_read_file_range io v norm offset buf_sz)) VFS_ERR_IO)"

definition vfs_read_file :: "'d io \<Rightarrow> string \<Rightarrow> u64 \<Rightarrow> ('d kst, u8 list) sm" where
  "vfs_read_file io name buf_sz = vfs_read_file_range io name 0 buf_sz"

definition vfs_write_file :: "'d io \<Rightarrow> string \<Rightarrow> u8 list \<Rightarrow> ('d kst, unit) sm" where
  "vfs_write_file io name data =
     with_path name (\<lambda>v norm.
       if vfs_devfs_handles norm then vfs_devfs_write_file norm data
       else orElse (liftFs (chaseros_ext2_write_file io v norm data)) VFS_ERR_IO)"

definition vfs_stat_of :: "'d io \<Rightarrow> string \<Rightarrow> ('d kst, vfs_stat) sm" where
  "vfs_stat_of io path =
     with_path path (\<lambda>v norm.
       if vfs_devfs_handles norm then vfs_devfs_stat norm
       else bindS (orElse (liftFs (chaseros_ext2_stat_file io v norm)) VFS_ERR_NOENT) (\<lambda>sz.
            retS \<lparr>st_ino = 0, st_size = ucast sz\<rparr>))"

section \<open>Reading changes only the device\<close>

lemma set_kmem_id [simp]: "set_kmem (mem (kmach k)) k = k"
  by (simp add: set_kmem_def set_fmem_def)

lemma set_kmem_set [simp]: "set_kmem m (set_kmem m' k) = set_kmem m k"
  by (simp add: set_kmem_def set_fmem_def)

lemma kmach_set_kmem [simp]: "mem (kmach (set_kmem m k)) = m"
  by (simp add: set_kmem_def set_fmem_def)

text \<open>
  \<open>same_fs s0\<close> holds of the states that differ from \<open>s0\<close> in the device only, \<open>same_kst\<close> likewise.
\<close>

definition same_fs :: "'d fstate \<Rightarrow> 'd fstate \<Rightarrow> bool" where
  "same_fs s0 s \<longleftrightarrow> (\<exists>d. s = s0\<lparr>dev := d\<rparr>)"

definition same_kst :: "'d kst \<Rightarrow> 'd kst \<Rightarrow> bool" where
  "same_kst k0 k \<longleftrightarrow> (\<exists>d. k = k0\<lparr>fs := (fs k0)\<lparr>dev := d\<rparr>\<rparr>)"

lemma same_refl [simp]: "same_fs s s" "same_kst k k"
proof -
  show "same_fs s s" unfolding same_fs_def by (rule exI [of _ "dev s"]) simp
  show "same_kst k k" unfolding same_kst_def by (rule exI [of _ "dev (fs k)"]) simp
qed

lemma same_kst_trans: "same_kst a b \<Longrightarrow> same_kst b c \<Longrightarrow> same_kst a c"
  by (auto simp: same_kst_def)

lemma same_kst_fields:
  assumes "same_kst k0 k"
  shows "core (fs k) = core (fs k0)" "g_vol (fs k) = g_vol (fs k0)" "mounted k = mounted k0"
    "g_ufd k = g_ufd k0" "g_libs k = g_libs k0" "g_user_cwd k = g_user_cwd k0" "out (fs k) = out (fs k0)"
  using assms by (auto simp: same_kst_def)

lemma keeps_same_liftDev [keeps_intros]: "keeps (same_fs s0) (liftDev m)"
  by (auto simp: keeps_def same_fs_def liftDev_def split: prod.splits)

lemma keeps_liftFs [keeps_intros]:
  assumes "\<And>s0. keeps (same_fs s0) m"
  shows "keeps (same_kst k0) (liftFs m)"
proof -
  have "\<exists>d. s' = s\<lparr>dev := d\<rparr>" if "m s = (r, s')" for s r s'
    using keepsD [OF assms, of s s] that by (simp add: same_fs_def [symmetric])
  then show ?thesis
    by (auto simp: keeps_def same_kst_def liftFs_def split: prod.splits) (metis fstate.update_convs(5) fstate.surjective)
qed

lemma keeps_option [keeps_intros]:
  "(r = None \<Longrightarrow> keeps I m) \<Longrightarrow> (\<And>x. r = Some x \<Longrightarrow> keeps I (f x)) \<Longrightarrow> keeps I (case r of None \<Rightarrow> m | Some x \<Rightarrow> f x)"
  by (cases r) auto

lemma keeps_prod [keeps_intros]: "(\<And>a b. r = (a, b) \<Longrightarrow> keeps I (f a b)) \<Longrightarrow> keeps I (case r of (a, b) \<Rightarrow> f a b)"
  by (cases r) auto

lemma keeps_vol_read [keeps_intros]: "keeps (same_fs s0) (vol_read_blk io v b)"
  by (auto simp: vol_read_blk_def vol_check_def Let_def split: vol_type.splits option.splits intro!: keeps_intros)

lemma keeps_find_loop [keeps_intros]: "keeps I (find_loop blk name pos)"
  by (induction blk name pos rule: find_loop.induct, subst find_loop.simps) (auto intro!: keeps_intros)

lemma keeps_read_inode [keeps_intros]: "keeps (same_fs s0) (read_inode io v ino)"
  unfolding read_inode_def by (intro keeps_intros)

lemma keeps_lookup_step [keeps_intros]: "keeps (same_fs s0) (lookup_step io v cur name)"
  unfolding lookup_step_def find_in_root_def by (intro keeps_intros)

lemma keeps_lookup_loop [keeps_intros]: "keeps (same_fs s0) (lookup_loop io v cur p)"
  by (induction io v cur p rule: lookup_loop.induct, subst lookup_loop.simps) (auto intro!: keeps_intros)

lemma keeps_lookup_final [keeps_intros]: "keeps (same_fs s0) (lookup_final io v norm)"
  unfolding lookup_final_def by (intro keeps_intros)

lemma keeps_find_regular [keeps_intros]: "keeps (same_fs s0) (find_regular io v name)"
  unfolding find_regular_def normS_def read_super_def by (intro keeps_intros)

lemma keeps_read_blocks [keeps_intros]: "keeps (same_fs s0) (read_blocks io v fi off mx i rest cur acc)"
  by (induction rest arbitrary: i cur acc) (auto simp: Let_def intro!: keeps_intros)

lemma keeps_vfs_read [keeps_intros]: "keeps (same_kst k0) (vfs_read_file_range io name off n)"
  unfolding vfs_read_file_range_def with_path_def vfs_devfs_read_range_def chaseros_ext2_read_file_range_def Let_def
  by (intro keeps_intros)

lemma keeps_vfs_stat [keeps_intros]: "keeps (same_kst k0) (vfs_stat_of io name)"
  unfolding vfs_stat_of_def with_path_def vfs_devfs_stat_def chaseros_ext2_stat_file_def
  by (intro keeps_intros)

section \<open>Reading returns no more than was asked for\<close>

lemma length_copy_loop: "length acc \<le> mx \<Longrightarrow> length (copy_loop tmp cur off mx j n acc) \<le> mx"
  by (induction n arbitrary: j acc) (auto simp: Let_def)

lemma length_read_blocks:
  "read_blocks io v fi off mx i rest cur acc s = (Ok bs, s') \<Longrightarrow> length acc \<le> mx \<Longrightarrow> length bs \<le> mx"
proof (induction rest arbitrary: i cur acc s)
  case 0
  then show ?case by (simp add: retS_def)
next
  case (Suc rest)
  then show ?case
    by (auto simp: Let_def bindS_def orElse_def retS_def length_copy_loop split: if_splits prod.splits outcome.splits)
qed


lemma unat_ucast_64_32_le: "unat (ucast (n :: u64) :: u32) \<le> unat n"
  by (simp add: unsigned_ucast_eq take_bit_nat_less_eq_self)

lemma vfs_read_length:
  assumes "vfs_read_file_range io name off n k = (Ok bs, k')"
  shows "length bs \<le> unat n"
proof -
  have ext2: "length bs \<le> unat n" if "chaseros_ext2_read_file_range io v p off n s = (Ok bs, s')" for v p s s'
  proof -
    have le: "unat (m :: u32) \<le> unat n" if "\<not> n < ucast m" for m
      using that by (simp add: not_less word_le_nat_alt)
    show ?thesis
      using that by (auto simp: chaseros_ext2_read_file_range_def Let_def sm_defs dest!: length_read_blocks le
          split: if_splits prod.splits outcome.splits intro: order_trans [OF _ unat_ucast_64_32_le])
  qed
  show ?thesis
    using assms ext2
    by (auto simp: vfs_read_file_range_def with_path_def vfs_devfs_read_range_def liftFs_def sm_defs
        split: if_splits prod.splits outcome.splits option.splits)
qed

section \<open>A state for examples\<close>

definition demo_slot :: "string \<Rightarrow> u32 \<Rightarrow> user_fd_slot" where
  "demo_slot p n = \<lparr>valid = True, upath = p, uoffset = 0, usize = n\<rparr>"

text \<open>A kernel state with a mounted memory volume, the page tables of \<open>demo_tables\<close> and one open file.\<close>

definition demo_kst :: "ata kst" where
  "demo_kst = \<lparr>fs = blank_fstate demo_ram blank_ata \<lparr>core := demo_kcore\<lparr>mach := demo_tables 0x400087\<rparr>\<rparr>,
     mounted = True, fstype = VFS_FS_EXT2,
     g_ufd = demo_slot ''/dev/zero'' 0xFFFFFFFF # replicate 7 ((demo_slot [] 0)\<lparr>valid := False\<rparr>),
     g_user_cwd = ''/'', shell_cwd = ''/'',
     g_libs = replicate 16 \<lparr>soname = [], abi_major = 0, abi_minor = 0, lib_base = 0, used = False\<rparr>,
     exit_stk = 0, chaseros_kernel_ticks = 0\<rparr>"

end
