(* ===== verification/Cnaf.thy ===== *)
theory Cnaf
  imports Vfs
begin

text \<open>
  Packages and images: the package header and manifest (\<open>src/kernel/fs/cnaf/cnaf_validate.c\<close>),
  the section table (\<open>cnaf_image.c\<close>), and the loaders of CNIM images (\<open>cnab_load.c\<close>) and ELF
  files (\<open>src/kernel/elf_load.c\<close>). Files are byte lists; a structure overlaid on them is read
  field by field at its offset, and reading past the end is \<open>Oob\<close>. The loaders store to
  memory at the addresses the file names.
\<close>

definition CNPKG_SYS_LIB_DIR :: string where "CNPKG_SYS_LIB_DIR = ''/System/Lib''"
definition CNPKG_MAGIC_CNPK :: u32 where "CNPKG_MAGIC_CNPK = 0x4B504E43"
definition CNPKG_MAGIC_CNLK :: u32 where "CNPKG_MAGIC_CNLK = 0x4B4C4E43"
definition CNPKG_FMT_MAJOR :: u16 where "CNPKG_FMT_MAJOR = 1"
definition CNPKG_FMT_MINOR :: u16 where "CNPKG_FMT_MINOR = 0"
definition CNPKG_KIND_PROGRAM :: u32 where "CNPKG_KIND_PROGRAM = 1"
definition CNPKG_KIND_LIBRARY :: u32 where "CNPKG_KIND_LIBRARY = 2"
definition CNPKG_HEADER_ALIGN :: u32 where "CNPKG_HEADER_ALIGN = 8"
definition CNPKG_SECTION_MANIFEST :: u32 where "CNPKG_SECTION_MANIFEST = 1"
definition CNPKG_SECTION_IMAGE :: u32 where "CNPKG_SECTION_IMAGE = 2"
definition CNPKG_MANIFEST_KEY_REQUIRES :: string where "CNPKG_MANIFEST_KEY_REQUIRES = ''requires''"

record cnpkg_file_header =
  magic :: u32
  fmt_major :: u16
  fmt_minor :: u16
  pkg_kind :: u32
  header_bytes :: u32
  pflags :: u32
  section_count :: u32
  build_id :: "u8 list"

definition header_size_of :: nat where "header_size_of = 40"

definition header_of :: "u8 list \<Rightarrow> cnpkg_file_header" where
  "header_of data = \<lparr>magic = get32 0 data, fmt_major = get16 4 data, fmt_minor = get16 6 data,
     pkg_kind = get32 8 data, header_bytes = get32 12 data, pflags = get32 16 data,
     section_count = get32 20 data, build_id = get_at 24 16 data\<rparr>"

datatype cnpkg_err =
    CNPKG_ERR_MAGIC | CNPKG_ERR_VERSION | CNPKG_ERR_TRUNCATED | CNPKG_ERR_KIND
  | CNPKG_ERR_SECTION | CNPKG_ERR_MANIFEST

definition cnpkg_parse_header_prefix :: "u8 list \<Rightarrow> cnpkg_err + cnpkg_file_header" where
  "cnpkg_parse_header_prefix data =
     (let h = header_of data in
      if length data < header_size_of then Inl CNPKG_ERR_TRUNCATED
      else if magic h \<noteq> CNPKG_MAGIC_CNPK \<and> magic h \<noteq> CNPKG_MAGIC_CNLK then Inl CNPKG_ERR_MAGIC
      else if fmt_major h \<noteq> CNPKG_FMT_MAJOR then Inl CNPKG_ERR_VERSION
      else if fmt_minor h > CNPKG_FMT_MINOR then Inl CNPKG_ERR_VERSION
      else if pkg_kind h \<noteq> CNPKG_KIND_PROGRAM \<and> pkg_kind h \<noteq> CNPKG_KIND_LIBRARY then Inl CNPKG_ERR_KIND
      else if unat (header_bytes h) < header_size_of then Inl CNPKG_ERR_TRUNCATED
      else Inr h)"

definition cnpkg_probe_header :: "u8 list \<Rightarrow> cnpkg_err + cnpkg_file_header" where
  "cnpkg_probe_header data =
     (let h = header_of data in
      if length data < header_size_of then Inl CNPKG_ERR_TRUNCATED
      else if magic h \<noteq> CNPKG_MAGIC_CNPK \<and> magic h \<noteq> CNPKG_MAGIC_CNLK then Inl CNPKG_ERR_MAGIC
      else if fmt_major h \<noteq> CNPKG_FMT_MAJOR then Inl CNPKG_ERR_VERSION
      else if fmt_minor h > CNPKG_FMT_MINOR then Inl CNPKG_ERR_VERSION
      else if pkg_kind h \<noteq> CNPKG_KIND_PROGRAM \<and> pkg_kind h \<noteq> CNPKG_KIND_LIBRARY then Inl CNPKG_ERR_KIND
      else if unat (header_bytes h) < header_size_of then Inl CNPKG_ERR_TRUNCATED
      else if unat (header_bytes h) > length data then Inl CNPKG_ERR_TRUNCATED
      else if header_bytes h AND (CNPKG_HEADER_ALIGN - 1) \<noteq> 0 then Inl CNPKG_ERR_SECTION
      else if section_count h > 256 then Inl CNPKG_ERR_SECTION
      else Inr h)"

section \<open>The manifest\<close>

definition is_ws :: "char \<Rightarrow> bool" where
  "is_ws c \<longleftrightarrow> c = CHR '' '' \<or> c = CHR 0x09 \<or> c = CHR 0x0D"

fun key_match :: "string \<Rightarrow> string \<Rightarrow> bool" where
  "key_match a [] = (a = [])"
| "key_match [] (b # bs) = False"
| "key_match (a # as) (b # bs) = (if a \<noteq> b then False else key_match as bs)"

definition strip_end :: "string \<Rightarrow> string" where
  "strip_end s = rev (dropWhile is_ws (rev s))"

text \<open>One line: \<open>None\<close> when it does not bind the key, otherwise the value.\<close>

definition line_value :: "string \<Rightarrow> string \<Rightarrow> string option" where
  "line_value key line =
     (let l = dropWhile is_ws line in
      if l = [] \<or> hd l = CHR ''#'' then None
      else if CHR ''='' \<notin> set l then None
      else if \<not> key_match (strip_end (takeWhile (\<lambda>c. c \<noteq> CHR ''='') l)) key then None
      else Some (strip_end (dropWhile is_ws (tl (dropWhile (\<lambda>c. c \<noteq> CHR ''='') l)))))"

function manifest_loop :: "string \<Rightarrow> nat \<Rightarrow> string \<Rightarrow> string option" where
  "manifest_loop key out_cap m =
     (if m = [] then None
      else let line = takeWhile (\<lambda>c. c \<noteq> CHR 0x0A) m; rest = drop (length line + 1) m in
        case line_value key line of
          None \<Rightarrow> manifest_loop key out_cap rest
        | Some v \<Rightarrow> if length v + 1 > out_cap then None else Some v)"
  by pat_completeness auto
termination by (relation "measure (\<lambda>(key, out_cap, m). length m)") (auto simp: neq_Nil_conv)

declare manifest_loop.simps [simp del]

definition cnpkg_manifest_get_value :: "u8 list \<Rightarrow> string \<Rightarrow> nat \<Rightarrow> string option" where
  "cnpkg_manifest_get_value manifest key out_cap =
     (if out_cap = 0 then None else manifest_loop key out_cap (map char_of_byte manifest))"

section \<open>The section table\<close>

definition rd_u32_le :: "u8 list \<Rightarrow> nat \<Rightarrow> u32" where
  "rd_u32_le p off = ucast (p ! off) OR push_bit 8 (ucast (p ! (off + 1))) OR
     push_bit 16 (ucast (p ! (off + 2))) OR push_bit 24 (ucast (p ! (off + 3)))"

definition rd_u64_le :: "u8 list \<Rightarrow> nat \<Rightarrow> u64" where
  "rd_u64_le p off = ucast (rd_u32_le p off) OR push_bit 32 (ucast (rd_u32_le p (off + 4)))"

fun locate_loop :: "u8 list \<Rightarrow> u64 \<Rightarrow> u32 \<Rightarrow> nat \<Rightarrow> nat \<Rightarrow> cnpkg_err + u64 \<times> u64" where
  "locate_loop prefix file_total type i 0 = Inl CNPKG_ERR_SECTION"
| "locate_loop prefix file_total type i (Suc rest) =
     (let eoff = header_size_of + i * 24 in
      if eoff + 24 > length prefix then Inl CNPKG_ERR_SECTION
      else if rd_u32_le prefix eoff \<noteq> type then locate_loop prefix file_total type (Suc i) rest
      else let off = rd_u64_le prefix (eoff + 8); sz = rd_u64_le prefix (eoff + 16) in
        if off + sz > file_total \<or> off + sz < off then Inl CNPKG_ERR_SECTION
        else Inr (off, sz))"

definition cnpkg_locate_section :: "u8 list \<Rightarrow> u64 \<Rightarrow> u32 \<Rightarrow> cnpkg_err + u64 \<times> u64" where
  "cnpkg_locate_section prefix file_total type =
     (case cnpkg_probe_header prefix of
        Inl e \<Rightarrow> Inl e
      | Inr h \<Rightarrow>
          if unat (header_bytes h) > length prefix then Inl CNPKG_ERR_TRUNCATED
          else if ucast (header_bytes h) > file_total then Inl CNPKG_ERR_TRUNCATED
          else locate_loop prefix file_total type 0 (unat (section_count h)))"

definition cnpkg_extract_section :: "u8 list \<Rightarrow> u32 \<Rightarrow> cnpkg_err + u8 list" where
  "cnpkg_extract_section data type =
     (case cnpkg_locate_section data (of_nat (length data)) type of
        Inl e \<Rightarrow> Inl e
      | Inr (off, sz) \<Rightarrow>
          if off + sz > of_nat (length data) \<or> off + sz < off then Inl CNPKG_ERR_SECTION
          else Inr (get_at (unat off) (unat sz) data))"

definition cnpkg_locate_image :: "u8 list \<Rightarrow> u64 \<Rightarrow> cnpkg_err + u64 \<times> u64" where
  "cnpkg_locate_image prefix file_total = cnpkg_locate_section prefix file_total CNPKG_SECTION_IMAGE"

definition cnpkg_extract_image :: "u8 list \<Rightarrow> cnpkg_err + u8 list" where
  "cnpkg_extract_image data = cnpkg_extract_section data CNPKG_SECTION_IMAGE"

section \<open>Access to files and memory\<close>

text \<open>
  \<open>flat_read\<close> is the access of the flat loaders to their file; the streaming loaders are given
  a reader. \<open>storeM\<close> stores bytes at an address.
\<close>

definition flat_read :: "u8 list \<Rightarrow> u64 \<Rightarrow> u64 \<Rightarrow> ('s, u8 list) sm" where
  "flat_read p off len =
     (if unat off + unat len > length p then oobS else retS (get_at (unat off) (unat len) p))"

definition storeM :: "u64 \<Rightarrow> u8 list \<Rightarrow> ('d kst, unit) sm" where
  "storeM a bs = modifyS (\<lambda>k. set_kmem (wr_bytes (mem (kmach k)) a bs) k)"

text \<open>Copy in pieces of at most 2048 bytes.\<close>

function stream_copy ::
  "(u64 \<Rightarrow> u64 \<Rightarrow> ('d kst, u8 list) sm) \<Rightarrow> u64 \<Rightarrow> u64 \<Rightarrow> u64 \<Rightarrow> ('d kst, unit) sm" where
  "stream_copy read_fn dest off remain =
     (if remain > 0
      then let chunk = (if remain > 2048 then 2048 else remain) in
        bindS (orElse (read_fn off chunk) (-1)) (\<lambda>bs.
        bindS (storeM dest bs) (\<lambda>_.
        stream_copy read_fn (dest + chunk) (off + chunk) (remain - chunk)))
      else retS ())"
  by pat_completeness auto
termination
proof (relation "measure (\<lambda>(read_fn, dest, off, remain). unat remain)", simp, goal_cases)
  case (1 read_fn dest off remain chunk bs u)
  then have "chunk \<le> remain" and "0 < chunk" by (auto split: if_splits)
  then have "unat (remain - chunk) = unat remain - unat chunk" and "0 < unat chunk" and "unat chunk \<le> unat remain"
    by (auto simp: unat_sub word_le_nat_alt word_less_nat_alt)
  then show ?case by simp
qed

declare stream_copy.simps [simp del]

section \<open>CNIM images\<close>

definition CNIM_MAGIC_U32 :: u32 where "CNIM_MAGIC_U32 = 0x4D494E43"
definition CNIM_FMT_MAJOR :: u16 where "CNIM_FMT_MAJOR = 1"
definition CNIM_FMT_MINOR :: u16 where "CNIM_FMT_MINOR = 0"
definition CNIM_HEADER_SIZE :: u32 where "CNIM_HEADER_SIZE = 64"
definition CNIM_RELOC_RELATIVE64 :: u32 where "CNIM_RELOC_RELATIVE64 = 1"

record cnim_header =
  cmagic :: u32
  cfmt_major :: u16
  cfmt_minor :: u16
  header_size :: u32
  entry_rva :: u64
  image_base :: u64
  segment_count :: u32
  rela_count :: u32
  segment_table_offset :: u64
  rela_table_offset :: u64

definition cnim_header_of :: "u8 list \<Rightarrow> cnim_header" where
  "cnim_header_of p = \<lparr>cmagic = get32 0 p, cfmt_major = get16 4 p, cfmt_minor = get16 6 p,
     header_size = get32 8 p, entry_rva = get64 16 p, image_base = get64 24 p,
     segment_count = get32 32 p, rela_count = get32 36 p,
     segment_table_offset = get64 40 p, rela_table_offset = get64 48 p\<rparr>"

record cnim_segment =
  file_offset :: u64
  virt_addr :: u64
  file_size :: u64
  mem_size :: u64

definition cnim_segment_of :: "u8 list \<Rightarrow> cnim_segment" where
  "cnim_segment_of b = \<lparr>file_offset = get64 0 b, virt_addr = get64 8 b, file_size = get64 16 b, mem_size = get64 24 b\<rparr>"

record cnim_rela =
  rela_offset :: u64
  addend :: u64
  rtype :: u32

definition cnim_rela_of :: "u8 list \<Rightarrow> cnim_rela" where
  "cnim_rela_of b = \<lparr>rela_offset = get64 0 b, addend = get64 8 b, rtype = get32 16 b\<rparr>"

fun rela_loop :: "u8 list \<Rightarrow> cnim_header \<Rightarrow> u64 \<Rightarrow> nat \<Rightarrow> ('d kst, unit) sm" where
  "rela_loop p h off 0 = retS ()"
| "rela_loop p h off (Suc rest) =
     bindS (flat_read p off 24) (\<lambda>b.
     let r = cnim_rela_of b in
     bindS (errIf (rtype r \<noteq> CNIM_RELOC_RELATIVE64) (-1)) (\<lambda>_.
     bindS (storeM (image_base h + rela_offset r) (le_list 8 (image_base h + addend r))) (\<lambda>_.
     rela_loop p h (off + 24) rest)))"

definition cnim_apply_rela :: "cnim_header \<Rightarrow> u8 list \<Rightarrow> ('d kst, unit) sm" where
  "cnim_apply_rela h p =
     (if rela_count h = 0 then retS ()
      else bindS (errIf (rela_table_offset h + ucast (rela_count h) * 24 > of_nat (length p)) (-1)) (\<lambda>_.
           rela_loop p h (rela_table_offset h) (unat (rela_count h))))"

text \<open>The checks on the header that both loaders make, and on a segment.\<close>

definition cnim_header_check :: "cnim_header \<Rightarrow> u64 \<Rightarrow> ('s, unit) sm" where
  "cnim_header_check h image_size =
     bindS (errIf (cmagic h \<noteq> CNIM_MAGIC_U32) (-1)) (\<lambda>_.
     bindS (errIf (cfmt_major h \<noteq> CNIM_FMT_MAJOR \<or> cfmt_minor h > CNIM_FMT_MINOR) (-1)) (\<lambda>_.
     bindS (errIf (header_size h \<noteq> CNIM_HEADER_SIZE) (-1)) (\<lambda>_.
     errIf (segment_table_offset h + ucast (segment_count h) * 40 > image_size) (-1))))"

definition cnim_segment_check :: "cnim_segment \<Rightarrow> u64 \<Rightarrow> ('s, unit) sm" where
  "cnim_segment_check sg image_size =
     errIf (file_offset sg + file_size sg > image_size \<or> file_size sg > mem_size sg) (-1)"

definition cnim_zero :: "cnim_segment \<Rightarrow> ('d kst, unit) sm" where
  "cnim_zero sg = storeM (virt_addr sg + file_size sg) (replicate (unat (mem_size sg) - unat (file_size sg)) 0)"

fun flat_segments :: "u8 list \<Rightarrow> u64 \<Rightarrow> nat \<Rightarrow> ('d kst, unit) sm" where
  "flat_segments p off 0 = retS ()"
| "flat_segments p off (Suc rest) =
     bindS (flat_read p off 40) (\<lambda>b.
     let sg = cnim_segment_of b in
     bindS (cnim_segment_check sg (of_nat (length p))) (\<lambda>_.
     bindS (flat_read p (file_offset sg) (file_size sg)) (\<lambda>bs.
     bindS (storeM (virt_addr sg) bs) (\<lambda>_.
     bindS (cnim_zero sg) (\<lambda>_. flat_segments p (off + 40) rest)))))"

definition cnim_load_flat :: "u8 list \<Rightarrow> ('d kst, u64) sm" where
  "cnim_load_flat p =
     bindS (errIf (length p < 64) (-1)) (\<lambda>_.
     let h = cnim_header_of p in
     bindS (cnim_header_check h (of_nat (length p))) (\<lambda>_.
     bindS (flat_segments p (segment_table_offset h) (unat (segment_count h))) (\<lambda>_.
     bindS (orElse (cnim_apply_rela h p) (-1)) (\<lambda>_.
     retS (image_base h + entry_rva h)))))"

fun stream_segments ::
  "(u64 \<Rightarrow> u64 \<Rightarrow> ('d kst, u8 list) sm) \<Rightarrow> u64 \<Rightarrow> cnim_segment list \<Rightarrow> ('d kst, unit) sm" where
  "stream_segments read_fn image_size [] = retS ()"
| "stream_segments read_fn image_size (sg # sgs) =
     bindS (cnim_segment_check sg image_size) (\<lambda>_.
     bindS (stream_copy read_fn (virt_addr sg) (file_offset sg) (file_size sg)) (\<lambda>_.
     bindS (cnim_zero sg) (\<lambda>_. stream_segments read_fn image_size sgs)))"

definition segments_of :: "u8 list \<Rightarrow> nat \<Rightarrow> cnim_segment list" where
  "segments_of b n = map (\<lambda>i. cnim_segment_of (get_at (40 * i) 40 b)) [0..<n]"

definition cnim_load_streaming ::
  "(u64 \<Rightarrow> u64 \<Rightarrow> ('d kst, u8 list) sm) \<Rightarrow> u64 \<Rightarrow> ('d kst, u64) sm" where
  "cnim_load_streaming read_fn image_size =
     bindS (errIf (image_size < 64) (-1)) (\<lambda>_.
     bindS (orElse (read_fn 0 64) (-1)) (\<lambda>hdr.
     let h = cnim_header_of hdr in
     bindS (cnim_header_check h image_size) (\<lambda>_.
     bindS (errIf (segment_count h > 16) (-1)) (\<lambda>_.
     bindS (orElse (read_fn (segment_table_offset h) (ucast (segment_count h) * 40)) (-1)) (\<lambda>segs.
     bindS (stream_segments read_fn image_size (segments_of segs (unat (segment_count h)))) (\<lambda>_.
     bindS (errIf (rela_count h \<noteq> 0) (-1)) (\<lambda>_.
     retS (image_base h + entry_rva h))))))))"

section \<open>ELF files\<close>

record elf64_ehdr =
  e_ident :: "u8 list"
  e_type :: u16
  e_machine :: u16
  e_entry :: u64
  e_phoff :: u64
  e_phentsize :: u16
  e_phnum :: u16

definition elf64_ehdr_of :: "u8 list \<Rightarrow> elf64_ehdr" where
  "elf64_ehdr_of p = \<lparr>e_ident = get_at 0 16 p, e_type = get16 16 p, e_machine = get16 18 p,
     e_entry = get64 24 p, e_phoff = get64 32 p, e_phentsize = get16 54 p, e_phnum = get16 56 p\<rparr>"

record elf64_phdr =
  p_type :: u32
  p_offset :: u64
  p_vaddr :: u64
  p_filesz :: u64
  p_memsz :: u64

definition elf64_phdr_of :: "u8 list \<Rightarrow> elf64_phdr" where
  "elf64_phdr_of b = \<lparr>p_type = get32 0 b, p_offset = get64 8 b, p_vaddr = get64 16 b,
     p_filesz = get64 32 b, p_memsz = get64 40 b\<rparr>"

definition PT_LOAD :: u32 where "PT_LOAD = 1"
definition ET_EXEC :: u16 where "ET_EXEC = 2"
definition EM_X86_64 :: u16 where "EM_X86_64 = 62"

definition elf_header_check :: "elf64_ehdr \<Rightarrow> u64 \<Rightarrow> ('s, unit) sm" where
  "elf_header_check eh elf_size =
     bindS (errIf (e_ident eh ! 0 \<noteq> 0x7F \<or> e_ident eh ! 1 \<noteq> 0x45 \<or> e_ident eh ! 2 \<noteq> 0x4C \<or>
                   e_ident eh ! 3 \<noteq> 0x46) (-1)) (\<lambda>_.
     bindS (errIf (e_ident eh ! 4 \<noteq> 2 \<or> e_ident eh ! 5 \<noteq> 1) (-1)) (\<lambda>_.
     bindS (errIf (e_type eh \<noteq> ET_EXEC \<or> e_machine eh \<noteq> EM_X86_64) (-1)) (\<lambda>_.
     errIf (e_phoff eh + ucast (e_phnum eh) * ucast (e_phentsize eh) > elf_size) (-1))))"

definition elf_zero :: "elf64_phdr \<Rightarrow> ('d kst, unit) sm" where
  "elf_zero ph =
     (if p_memsz ph > p_filesz ph
      then storeM (p_vaddr ph + p_filesz ph) (replicate (unat (p_memsz ph - p_filesz ph)) 0) else retS ())"

fun elf_flat_loop :: "u8 list \<Rightarrow> elf64_ehdr \<Rightarrow> nat \<Rightarrow> nat \<Rightarrow> ('d kst, unit) sm" where
  "elf_flat_loop p eh i 0 = retS ()"
| "elf_flat_loop p eh i (Suc rest) =
     bindS (flat_read p (e_phoff eh + of_nat i * ucast (e_phentsize eh)) 56) (\<lambda>b.
     let ph = elf64_phdr_of b in
     if p_type ph \<noteq> PT_LOAD then elf_flat_loop p eh (Suc i) rest
     else bindS (errIf (p_offset ph + p_filesz ph > of_nat (length p)) (-1)) (\<lambda>_.
          bindS (flat_read p (p_offset ph) (p_filesz ph)) (\<lambda>bs.
          bindS (storeM (p_vaddr ph) bs) (\<lambda>_.
          bindS (elf_zero ph) (\<lambda>_. elf_flat_loop p eh (Suc i) rest)))))"

definition elf_load_flat :: "u8 list \<Rightarrow> ('d kst, u64) sm" where
  "elf_load_flat p =
     bindS (errIf (length p < 64) (-1)) (\<lambda>_.
     let eh = elf64_ehdr_of p in
     bindS (elf_header_check eh (of_nat (length p))) (\<lambda>_.
     bindS (elf_flat_loop p eh 0 (unat (e_phnum eh))) (\<lambda>_. retS (e_entry eh))))"

fun elf_stream_loop ::
  "(u64 \<Rightarrow> u64 \<Rightarrow> ('d kst, u8 list) sm) \<Rightarrow> u64 \<Rightarrow> elf64_ehdr \<Rightarrow> nat \<Rightarrow> nat \<Rightarrow> ('d kst, unit) sm" where
  "elf_stream_loop read_fn elf_size eh i 0 = retS ()"
| "elf_stream_loop read_fn elf_size eh i (Suc rest) =
     (let po = e_phoff eh + of_nat i * ucast (e_phentsize eh) in
      bindS (errIf (po + ucast (e_phentsize eh) > elf_size) (-1)) (\<lambda>_.
      bindS (orElse (read_fn po (ucast (e_phentsize eh))) (-1)) (\<lambda>b.
      let ph = elf64_phdr_of b in
      if p_type ph \<noteq> PT_LOAD then elf_stream_loop read_fn elf_size eh (Suc i) rest
      else bindS (errIf (p_offset ph + p_filesz ph > elf_size) (-1)) (\<lambda>_.
           bindS (stream_copy read_fn (p_vaddr ph) (p_offset ph) (p_filesz ph)) (\<lambda>_.
           bindS (elf_zero ph) (\<lambda>_. elf_stream_loop read_fn elf_size eh (Suc i) rest))))))"

definition elf_load_flat_streaming ::
  "(u64 \<Rightarrow> u64 \<Rightarrow> ('d kst, u8 list) sm) \<Rightarrow> u64 \<Rightarrow> ('d kst, u64) sm" where
  "elf_load_flat_streaming read_fn elf_size =
     bindS (errIf (elf_size < 64) (-1)) (\<lambda>_.
     bindS (orElse (read_fn 0 64) (-1)) (\<lambda>ebuf.
     let eh = elf64_ehdr_of ebuf in
     bindS (elf_header_check eh elf_size) (\<lambda>_.
     bindS (errIf (e_phentsize eh < 56) (-1)) (\<lambda>_.
     bindS (errIf (e_phentsize eh > 128) (-1)) (\<lambda>_.
     bindS (elf_stream_loop read_fn elf_size eh 0 (unat (e_phnum eh))) (\<lambda>_. retS (e_entry eh)))))))"

section \<open>Sections lie inside the file\<close>

lemma no_wrap_sum:
  fixes off :: u64
  assumes "\<not> (off + sz > ft \<or> off + sz < off)"
  shows "unat off + unat sz \<le> unat ft"
proof -
  have "unat off + unat sz < 2 ^ 64"
  proof (rule ccontr)
    assume ge: "\<not> unat off + unat sz < 2 ^ 64"
    then have "unat (off + sz) = unat off + unat sz - 2 ^ 64"
      using unat_u64_less [of off] unat_u64_less [of sz] by (simp add: unat_word_ariths mod_if)
    then show False using assms ge unat_u64_less [of sz] unfolding word_less_nat_alt by linarith
  qed
  then have "unat (off + sz) = unat off + unat sz" using unat_add_lem [of off sz] by simp
  then show ?thesis using assms unfolding word_less_nat_alt by linarith
qed

definition entry_off :: "nat \<Rightarrow> nat" where "entry_off i = header_size_of + i * 24"

lemma locate_loop_first:
  assumes "locate_loop prefix ft ty i n = Inr (off, sz)"
  shows "\<exists>j. i \<le> j \<and> j < i + n \<and> entry_off j + 24 \<le> length prefix \<and> rd_u32_le prefix (entry_off j) = ty \<and>
    (\<forall>l. i \<le> l \<and> l < j \<longrightarrow> rd_u32_le prefix (entry_off l) \<noteq> ty) \<and>
    off = rd_u64_le prefix (entry_off j + 8) \<and> sz = rd_u64_le prefix (entry_off j + 16) \<and>
    unat off + unat sz \<le> unat ft"
  using assms
proof (induction n arbitrary: i)
  case 0
  then show ?case by simp
next
  case (Suc n)
  show ?case
  proof (cases "rd_u32_le prefix (entry_off i) = ty")
    case True
    then have "entry_off i + 24 \<le> length prefix" and e: "off = rd_u64_le prefix (entry_off i + 8)"
      "sz = rd_u64_le prefix (entry_off i + 16)" "\<not> (off + sz > ft \<or> off + sz < off)"
      using Suc.prems by (auto simp: Let_def entry_off_def split: if_splits)
    then show ?thesis using True no_wrap_sum [OF e(3)] by (intro exI [of _ i]) auto
  next
    case False
    then have "locate_loop prefix ft ty (Suc i) n = Inr (off, sz)"
      using Suc.prems by (auto simp: Let_def entry_off_def split: if_splits)
    from Suc.IH [OF this] obtain j where j: "Suc i \<le> j \<and> j < Suc i + n" "entry_off j + 24 \<le> length prefix"
      "rd_u32_le prefix (entry_off j) = ty" "\<forall>l. Suc i \<le> l \<and> l < j \<longrightarrow> rd_u32_le prefix (entry_off l) \<noteq> ty"
      "off = rd_u64_le prefix (entry_off j + 8)" "sz = rd_u64_le prefix (entry_off j + 16)"
      "unat off + unat sz \<le> unat ft" by blast
    have "\<forall>l. i \<le> l \<and> l < j \<longrightarrow> rd_u32_le prefix (entry_off l) \<noteq> ty"
      using j(4) False by (metis Suc_leI le_neq_implies_less)
    then show ?thesis using j by (intro exI [of _ j]) auto
  qed
qed

text \<open>
  C22: a section returned from a package is the first entry of its type in the section table,
  the entry lies inside the file, and the bytes returned are exactly the range it names, which
  lies inside the file: neither offset nor size can wrap around.
\<close>

theorem section_inside_package:
  assumes "cnpkg_extract_section data ty = Inr s" and "length data < 2 ^ 64"
  shows "\<exists>j off sz. j < 256 \<and> entry_off j + 24 \<le> length data \<and> rd_u32_le data (entry_off j) = ty \<and>
    (\<forall>l<j. rd_u32_le data (entry_off l) \<noteq> ty) \<and>
    off = unat (rd_u64_le data (entry_off j + 8)) \<and> sz = unat (rd_u64_le data (entry_off j + 16)) \<and>
    off + sz \<le> length data \<and> s = take sz (drop off data) \<and> length s = sz"
proof -
  from assms(1) obtain off sz where loc: "cnpkg_locate_section data (of_nat (length data)) ty = Inr (off, sz)"
    and s: "s = get_at (unat off) (unat sz) data"
    by (auto simp: cnpkg_extract_section_def split: sum.splits if_splits)
  from loc obtain h where h: "cnpkg_probe_header data = Inr h"
    and loop: "locate_loop data (of_nat (length data)) ty 0 (unat (section_count h)) = Inr (off, sz)"
    by (auto simp: cnpkg_locate_section_def split: sum.splits if_splits)
  have "section_count h \<le> 256" using h by (auto simp: cnpkg_probe_header_def Let_def split: if_splits)
  then have "unat (section_count h) \<le> 256" by (simp add: word_le_nat_alt)
  moreover from locate_loop_first [OF loop] obtain j where "j < unat (section_count h)" "entry_off j + 24 \<le> length data"
    "rd_u32_le data (entry_off j) = ty" "\<forall>l<j. rd_u32_le data (entry_off l) \<noteq> ty"
    "off = rd_u64_le data (entry_off j + 8)" "sz = rd_u64_le data (entry_off j + 16)"
    "unat off + unat sz \<le> length data"
    using assms(2) by auto
  ultimately show ?thesis
    using s by (intro exI [of _ j] exI [of _ "unat off"] exI [of _ "unat sz"]) (auto simp: get_at_def)
qed

text \<open>A package with one image section of two bytes behind its header.\<close>

definition demo_package :: "u8 list" where
  "demo_package = le_list 4 CNPKG_MAGIC_CNPK @ le_list 2 CNPKG_FMT_MAJOR @ le_list 2 CNPKG_FMT_MINOR @
     le_list 4 CNPKG_KIND_PROGRAM @ le_list 4 (64 :: u32) @ le_list 4 (0 :: u32) @ le_list 4 (1 :: u32) @ replicate 16 0 @
     le_list 4 CNPKG_SECTION_IMAGE @ le_list 4 (0 :: u32) @ le_list 8 (64 :: u64) @ le_list 8 (2 :: u64) @ [0xAB, 0xCD]"

theorem section_inside_package_witness:
  "cnpkg_extract_section demo_package CNPKG_SECTION_IMAGE = Inr [0xAB, 0xCD] \<and>
   (\<exists>off sz. off + sz \<le> length demo_package \<and> [0xAB, 0xCD] = take sz (drop off demo_package))"
proof -
  have "cnpkg_extract_section demo_package CNPKG_SECTION_IMAGE = Inr [0xAB, 0xCD]" by code_simp
  moreover have "length demo_package < 2 ^ 64" by (simp add: demo_package_def)
  ultimately show ?thesis using section_inside_package [of demo_package CNPKG_SECTION_IMAGE] by blast
qed

section \<open>The manifest as a map\<close>

text \<open>Printed bindings: one line per key.\<close>

definition bind_line :: "string \<times> string \<Rightarrow> string" where
  "bind_line kv = fst kv @ CHR ''='' # snd kv @ [CHR 0x0A]"

definition key_ok :: "string \<Rightarrow> bool" where
  "key_ok s \<longleftrightarrow> s \<noteq> [] \<and> hd s \<noteq> CHR ''#'' \<and> (\<forall>c \<in> set s. \<not> is_ws c \<and> c \<noteq> CHR ''='' \<and> c \<noteq> CHR 0x0A)"

definition value_ok :: "string \<Rightarrow> bool" where
  "value_ok s \<longleftrightarrow> CHR 0x0A \<notin> set s \<and> (s \<noteq> [] \<longrightarrow> \<not> is_ws (hd s) \<and> \<not> is_ws (last s))"

lemma key_match_iff [simp]: "key_match a b \<longleftrightarrow> a = b"
  by (induction a b rule: key_match.induct) auto

lemma strip_end_id: "(s \<noteq> [] \<Longrightarrow> \<not> is_ws (last s)) \<Longrightarrow> strip_end s = s"
  by (cases s rule: rev_cases) (auto simp: strip_end_def)

lemma dropWhile_id: "(s \<noteq> [] \<Longrightarrow> \<not> P (hd s)) \<Longrightarrow> dropWhile P s = s"
  by (cases s) auto

lemma line_value_bind:
  assumes "key_ok k" and "value_ok v"
  shows "line_value key (k @ CHR ''='' # v) = (if k = key then Some v else None)"
proof -
  let ?l = "k @ CHR ''='' # v"
  have k: "k \<noteq> []" "hd k \<noteq> CHR ''#''" "\<forall>c \<in> set k. \<not> is_ws c" "\<forall>c \<in> set k. c \<noteq> CHR ''=''"
    using assms(1) by (auto simp: key_ok_def)
  have l: "dropWhile is_ws ?l = ?l" using k by (intro dropWhile_id) simp
  have tw: "takeWhile (\<lambda>c. c \<noteq> CHR ''='') ?l = k" "dropWhile (\<lambda>c. c \<noteq> CHR ''='') ?l = CHR ''='' # v"
    using k by (simp_all add: takeWhile_append2 dropWhile_append2)
  have "strip_end k = k" using k by (intro strip_end_id) simp
  moreover have "strip_end (dropWhile is_ws v) = v"
    using assms(2) by (subst dropWhile_id) (auto simp: value_ok_def strip_end_id)
  ultimately show ?thesis using k l tw by (simp add: line_value_def Let_def)
qed



section \<open>Loading in pieces is loading at once\<close>

lemma wr_bytes_append: "wr_bytes m a (xs @ ys) = wr_bytes (wr_bytes m a xs) (a + of_nat (length xs)) ys"
  by (induction xs arbitrary: m a) (simp_all add: algebra_simps)

lemma get_at_split: "c \<le> n \<Longrightarrow> get_at off n p = get_at off c p @ get_at (off + c) (n - c) p"
  using take_add [of c "n - c" "drop off p"] by (simp add: get_at_def add.commute)

text \<open>What the streaming loaders expect of their reader: a range inside the file is returned.\<close>

definition reads_image :: "(u64 \<Rightarrow> u64 \<Rightarrow> ('s, u8 list) sm) \<Rightarrow> u8 list \<Rightarrow> bool" where
  "reads_image rd p \<longleftrightarrow>
     (\<forall>off len s. unat off + unat len \<le> length p \<longrightarrow> rd off len s = (Ok (get_at (unat off) (unat len) p), s))"

lemma storeM_run: "storeM a bs k = (Ok (), set_kmem (wr_bytes (mem (kmach k)) a bs) k)"
  by (simp add: storeM_def modifyS_def)

lemma stream_copy_flat:
  assumes "reads_image rd p" and "length p < 2 ^ 64" and "unat off + unat n \<le> length p"
  shows "stream_copy rd dest off n k = storeM dest (get_at (unat off) (unat n) p) k"
  using assms
proof (induction rd dest off n arbitrary: k rule: stream_copy.induct)
  case (1 rd dest off n)
  show ?case
  proof (cases "n > 0")
    case False
    then have "n = 0" by (simp add: word_gt_0)
    then show ?thesis by (simp add: stream_copy.simps storeM_run get_at_def retS_def)
  next
    case True
    define c where "c = (if n > 2048 then 2048 else n)"
    have c: "c \<le> n" by (auto simp: c_def intro: less_imp_le)
    then have cn: "unat c \<le> unat n" by (simp add: word_le_nat_alt)
    have rest: "unat (n - c) = unat n - unat c" using c by (simp add: unat_sub)
    have offc: "unat (off + c) = unat off + unat c"
      using 1(3,4) cn unat_add_lem [of off c] by simp
    have rd: "rd off c s = (Ok (get_at (unat off) (unat c) p), s)" for s
      using 1(2,4) cn by (simp add: reads_image_def)
    have "stream_copy rd (dest + c) (off + c) (n - c) k' = storeM (dest + c) (get_at (unat (off + c)) (unat (n - c)) p) k'" for k'
      using 1(2-4) cn offc rest by (intro 1(1) [OF True c_def]) auto
    moreover have "length (get_at (unat off) (unat c) p) = unat c" using 1(4) cn by simp
    ultimately show ?thesis
      using True rd offc rest get_at_split [OF cn, of "unat off" p]
      by (subst stream_copy.simps) (simp add: c_def [symmetric] Let_def bindS_def orElse_def storeM_run wr_bytes_append)
  qed
qed

lemma stream_segments_flat:
  assumes "reads_image rd p" and "length p < 2 ^ 64" and "off + 40 * n \<le> length p"
    and "fst (flat_segments p (of_nat off) n k) \<noteq> Oob"
  shows "stream_segments rd (of_nat (length p)) (map (\<lambda>i. cnim_segment_of (get_at (off + 40 * i) 40 p)) [0..<n]) k =
    flat_segments p (of_nat off) n k"
  using assms(3,4)
proof (induction n arbitrary: off k)
  case 0
  then show ?case by simp
next
  case (Suc n)
  define sg where "sg = cnim_segment_of (get_at off 40 p)"
  have uoff: "unat (of_nat off :: u64) = off" using Suc.prems(1) assms(2) by simp
  have rd: "flat_read p (of_nat off) 40 s = (Ok (get_at off 40 p), s)" for s :: "'a kst"
    using Suc.prems(1) uoff by (simp add: flat_read_def retS_def)
  have list: "map (\<lambda>i. cnim_segment_of (get_at (off + 40 * i) 40 p)) [0..<Suc n] =
      sg # map (\<lambda>i. cnim_segment_of (get_at (off + 40 + 40 * i) 40 p)) [0..<n]"
    by (simp add: sg_def upt_conv_Cons map_Suc_upt [symmetric] comp_def add.assoc del: upt_Suc)
  show ?case
  proof (cases "file_offset sg + file_size sg > of_nat (length p) \<or> file_size sg > mem_size sg")
    case True
    then show ?thesis
      unfolding list by (simp add: rd sg_def [symmetric] cnim_segment_check_def sm_defs Let_def)
  next
    case False
    have flat: "flat_segments p (of_nat off) (Suc n) k =
        bindS (flat_read p (file_offset sg) (file_size sg)) (\<lambda>bs. bindS (storeM (virt_addr sg) bs)
          (\<lambda>_. bindS (cnim_zero sg) (\<lambda>_. flat_segments p (of_nat (off + 40)) n))) k"
      using False by (simp add: rd sg_def [symmetric] cnim_segment_check_def bindS_def errIf_def retS_def Let_def add.commute)
    have inside: "unat (file_offset sg) + unat (file_size sg) \<le> length p"
    proof (rule ccontr)
      assume "\<not> ?thesis"
      then show False using Suc.prems(2) unfolding flat by (simp add: flat_read_def sm_defs)
    qed
    then have seg: "flat_read p (file_offset sg) (file_size sg) s = (Ok (get_at (unat (file_offset sg)) (unat (file_size sg)) p), s)"
      for s :: "'a kst" by (simp add: flat_read_def retS_def)
    let ?bs = "get_at (unat (file_offset sg)) (unat (file_size sg)) p"
    define k1 where "k1 = snd (cnim_zero sg (snd (storeM (virt_addr sg) ?bs k)))"
    have step: "flat_segments p (of_nat off) (Suc n) k = flat_segments p (of_nat (off + 40)) n k1"
      unfolding flat by (simp add: bindS_def seg storeM_run cnim_zero_def k1_def)
    have "stream_segments rd (of_nat (length p)) (sg # ss) k = stream_segments rd (of_nat (length p)) ss k1" for ss
      using False stream_copy_flat [OF assms(1,2) inside]
      by (simp add: cnim_segment_check_def bindS_def errIf_def retS_def storeM_run cnim_zero_def k1_def)
    moreover have "fst (flat_segments p (of_nat (off + 40)) n k1) \<noteq> Oob" using Suc.prems(2) step by simp
    ultimately show ?thesis
      using Suc.IH [of "off + 40" k1] Suc.prems(1) step unfolding list by simp
  qed
qed

lemma get_at_get_at: "i + m \<le> n \<Longrightarrow> get_at i m (get_at j n p) = get_at (j + i) m p"
  by (simp add: get_at_def drop_take min_def add.commute)

lemma cnim_header_of_prefix: "cnim_header_of (get_at 0 64 p) = cnim_header_of p"
  by (simp add: cnim_header_of_def get16_def get32_def get64_def get_at_get_at)

lemma segments_of_prefix:
  "segments_of (get_at off (40 * n) p) n = map (\<lambda>i. cnim_segment_of (get_at (off + 40 * i) 40 p)) [0..<n]"
  by (simp add: segments_of_def get_at_get_at)

lemma segment_table_inside:
  fixes off w :: u64
  assumes "\<not> off + w > of_nat (length p)" and "unat w = 40 * n" and "n \<le> 16" and "length p < 2 ^ 63"
    and "fst (flat_segments p off n k) \<noteq> Oob"
  shows "unat off + 40 * n \<le> length p"
proof (cases n)
  case 0
  then have "w = 0" using assms(2) by (simp add: unat_eq_0)
  then show ?thesis using assms(1,4) 0 by (simp add: word_less_nat_alt)
next
  case (Suc m)
  have "unat off + 40 \<le> length p"
  proof (rule ccontr)
    assume "\<not> ?thesis"
    then show False using assms(5) by (simp add: Suc flat_read_def sm_defs)
  qed
  then have "unat (off + w) = unat off + 40 * n"
    using assms(2-4) unat_add_lem [of off w] by simp
  then show ?thesis using assms(1,4) by (simp add: word_less_nat_alt)
qed


text \<open>An image of one segment: the byte \<open>b\<close> for address \<open>a\<close>.\<close>

definition image_header :: "u8 list" where
  "image_header = le_list 4 CNIM_MAGIC_U32 @ le_list 2 CNIM_FMT_MAJOR @ le_list 2 CNIM_FMT_MINOR @
     le_list 4 CNIM_HEADER_SIZE @ replicate 4 0 @ le_list 8 (0 :: u64) @ le_list 8 (0 :: u64) @
     le_list 4 (1 :: u32) @ le_list 4 (0 :: u32) @ le_list 8 (64 :: u64) @ le_list 8 (0 :: u64) @ replicate 8 0"

definition image_segment :: "u64 \<Rightarrow> u8 list" where
  "image_segment a = le_list 8 (104 :: u64) @ le_list 8 a @ le_list 8 (1 :: u64) @ le_list 8 (1 :: u64) @ replicate 8 0"

definition one_byte_image :: "u64 \<Rightarrow> u8 \<Rightarrow> u8 list" where
  "one_byte_image a b = image_header @ image_segment a @ [b]"

lemma length_image [simp]: "length image_header = 64" "length (image_segment a) = 40" "length (one_byte_image a b) = 105"
  by (simp_all add: image_header_def image_segment_def one_byte_image_def)

lemma one_byte_image_header:
  "cnim_header_of (one_byte_image a b) = \<lparr>cmagic = CNIM_MAGIC_U32, cfmt_major = CNIM_FMT_MAJOR, cfmt_minor = CNIM_FMT_MINOR,
     header_size = CNIM_HEADER_SIZE, entry_rva = 0, image_base = 0, segment_count = 1, rela_count = 0,
     segment_table_offset = 64, rela_table_offset = 0\<rparr>"
proof -
  have "get_at 0 64 (one_byte_image a b) = image_header" by (simp add: get_at_def one_byte_image_def)
  moreover have "cnim_header_of image_header = \<lparr>cmagic = CNIM_MAGIC_U32, cfmt_major = CNIM_FMT_MAJOR, cfmt_minor = CNIM_FMT_MINOR,
     header_size = CNIM_HEADER_SIZE, entry_rva = 0, image_base = 0, segment_count = 1, rela_count = 0,
     segment_table_offset = 64, rela_table_offset = 0\<rparr>" by code_simp
  ultimately show ?thesis using cnim_header_of_prefix [of "one_byte_image a b"] by simp
qed

lemma one_byte_image_segment:
  "cnim_segment_of (get_at 64 40 (one_byte_image a b)) = \<lparr>file_offset = 104, virt_addr = a, file_size = 1, mem_size = 1\<rparr>"
proof -
  have "get_at 64 40 (one_byte_image a b) = image_segment a" by (simp add: get_at_def one_byte_image_def)
  then show ?thesis
    by (simp add: cnim_segment_of_def image_segment_def get64_def get_at_def of_le_le_list_full)
qed

lemma one_byte_image_data: "get_at 104 (Suc 0) (one_byte_image a b) = [b]"
  by (simp add: get_at_def one_byte_image_def)

lemma one_byte_image_loads:
  "cnim_load_flat (one_byte_image a b) k = (Ok 0, set_kmem ((mem (kmach k))(a := b)) k)"
  by (simp add: cnim_load_flat_def one_byte_image_header cnim_header_check_def Let_def sm_defs flat_read_def
      one_byte_image_segment cnim_segment_check_def one_byte_image_data storeM_run cnim_zero_def cnim_apply_rela_def)


text \<open>
  C36: the loader does not confine a segment to user memory. For every address, the kernel's
  own included, there is an image that the loader accepts and that stores a byte of its
  choice there.
\<close>

theorem cnim_segment_writes_anywhere:
  "\<exists>p. length p = 105 \<and> cnim_load_flat p k = (Ok 0, set_kmem ((mem (kmach k))(a := b)) k)"
  using one_byte_image_loads [of a b k] by (intro exI [of _ "one_byte_image a b"]) simp

end
