(* ===== verification/Ipc.thy ===== *)
theory Ipc
  imports Proc
begin

text \<open>
  Synchronous messages, \<open>src/kernel/ipc.c\<close>. The senders blocked on a process are a list linked
  through \<open>next_in_queue\<close>, as in the source; \<open>proc_t **pp\<close> is a reference to one of its links.
  A wait by \<open>sti; hlt; cli\<close> consumes one interrupt: the environment is an explicit list of the
  effects of the interrupts to come, and a wait that finds the list empty is still waiting.
\<close>

definition IPC_OK :: int where "IPC_OK = 0"
definition IPC_ERROR :: int where "IPC_ERROR = -1"

definition msg_copy_to_buffer :: "nat \<Rightarrow> nat \<Rightarrow> message \<Rightarrow> kcore \<Rightarrow> kcore" where
  "msg_copy_to_buffer dest src msg k =
     upd_task dest (\<lambda>t. t\<lparr>msg_buffer := \<lparr>sender = pid (task k src), mtype = mtype msg,
       payload = take MAX_MSG_PAYLOAD (payload msg)\<rparr>\<rparr>) k"

definition msg_copy_out :: "nat \<Rightarrow> kcore \<Rightarrow> message" where
  "msg_copy_out from k = msg_buffer (task k from)"

definition stash_outgoing :: "nat \<Rightarrow> message \<Rightarrow> kcore \<Rightarrow> kcore" where
  "stash_outgoing sndr msg k = msg_copy_to_buffer sndr sndr msg k"

definition sender_enqueue :: "nat \<Rightarrow> nat \<Rightarrow> kcore \<Rightarrow> kcore" where
  "sender_enqueue dest sndr k =
     (let k = upd_task sndr (\<lambda>t. t\<lparr>next_in_queue := sender_queue (task k dest)\<rparr>) k in
      upd_task dest (\<lambda>t. t\<lparr>sender_queue := Some sndr\<rparr>) k)"

datatype qlink = QHead nat | QNext nat

fun q_get :: "qlink \<Rightarrow> kcore \<Rightarrow> nat option" where
  "q_get (QHead r) k = sender_queue (task k r)"
| "q_get (QNext s) k = next_in_queue (task k s)"

fun q_set :: "qlink \<Rightarrow> nat option \<Rightarrow> kcore \<Rightarrow> kcore" where
  "q_set (QHead r) v k = upd_task r (\<lambda>t. t\<lparr>sender_queue := v\<rparr>) k"
| "q_set (QNext s) v k = upd_task s (\<lambda>t. t\<lparr>next_in_queue := v\<rparr>) k"

partial_function (option) dequeue_loop :: "u64 \<Rightarrow> qlink \<Rightarrow> kcore \<Rightarrow> (nat option \<times> kcore) option" where
  "dequeue_loop src_pid pp k =
     (case q_get pp k of
        None \<Rightarrow> Some (None, k)
      | Some s \<Rightarrow>
          if src_pid = 0 \<or> pid (task k s) = src_pid
          then Some (Some s, upd_task s (\<lambda>t. t\<lparr>next_in_queue := None\<rparr>)
                 (q_set pp (next_in_queue (task k s)) k))
          else dequeue_loop src_pid (QNext s) k)"

definition sender_dequeue :: "nat \<Rightarrow> u64 \<Rightarrow> kcore \<Rightarrow> (nat option \<times> kcore) option" where
  "sender_dequeue recv src_pid k = dequeue_loop src_pid (QHead recv) k"

definition ipc_wake_sender_after_deliver :: "nat \<Rightarrow> kcore \<Rightarrow> kcore" where
  "ipc_wake_sender_after_deliver sndr k =
     (if state (task k sndr) \<noteq> PROC_STATE_SENDING then k
      else upd_task sndr (\<lambda>t. t\<lparr>state := PROC_STATE_WAITING_REPLY\<rparr>) k)"

text \<open>\<open>None\<close>: still waiting when the interrupts are exhausted.\<close>

fun ipc_wait_until_pending :: "nat \<Rightarrow> (kcore \<Rightarrow> kcore) list \<Rightarrow> kcore \<Rightarrow> kcore option" where
  "ipc_wait_until_pending cur irqs k =
     (if msg_pending (task k cur) then Some k
      else case irqs of [] \<Rightarrow> None | irq # irqs' \<Rightarrow> ipc_wait_until_pending cur irqs' (irq k))"

definition ipc_consume_pending_message :: "nat \<Rightarrow> kcore \<Rightarrow> message \<times> kcore" where
  "ipc_consume_pending_message cur k =
     (msg_copy_out cur k, upd_task cur (\<lambda>t. t\<lparr>msg_pending := False\<rparr>) k)"

text \<open>\<open>while (current->state == PROC_STATE_SENDING) sched_yield();\<close>\<close>

partial_function (option) send_wait :: "nat \<Rightarrow> kcore \<Rightarrow> kcore option" where
  "send_wait current k =
     (if state (task k current) = PROC_STATE_SENDING then send_wait current (sched_yield k) else Some k)"

definition ipc_send :: "u64 \<Rightarrow> message option \<Rightarrow> kcore \<Rightarrow> (int \<times> kcore) option" where
  "ipc_send dest_pid msg k =
     (case msg of None \<Rightarrow> Some (IPC_ERROR, k)
      | Some msg \<Rightarrow>
        let current = process_current_task_for_ipc k in
        (case process_find_by_pid dest_pid k of
           None \<Rightarrow> Some (IPC_ERROR, k)
         | Some dest \<Rightarrow>
           if state (task k dest) = PROC_STATE_FREE then Some (IPC_ERROR, k)
           else if dest = current then Some (IPC_ERROR, k)
           else if state (task k dest) = PROC_STATE_RECEIVING
           then (let k = msg_copy_to_buffer dest current msg k;
                     k = upd_task dest (\<lambda>t. t\<lparr>msg_pending := True\<rparr>) k;
                     k = process_ipc_wake_from_receive dest k;
                     k = upd_task current (\<lambda>t. t\<lparr>state := PROC_STATE_WAITING_REPLY\<rparr>) k in
             Some (IPC_OK, k))
           else (let k = stash_outgoing current msg k;
                     k = upd_task current (\<lambda>t. t\<lparr>state := PROC_STATE_SENDING\<rparr>) k;
                     k = sender_enqueue dest current k in
             map_option (\<lambda>k. (IPC_OK, k)) (send_wait current k))))"

text \<open>One round of the loop of \<open>ipc_receive\<close>, up to the return or to the \<open>hlt\<close>.\<close>

definition receive_round :: "nat \<Rightarrow> u64 \<Rightarrow> kcore \<Rightarrow> (message option \<times> kcore) option" where
  "receive_round current src_pid k =
     (if msg_pending (task k current) \<and>
         (src_pid = 0 \<or> sender (msg_buffer (task k current)) = src_pid)
      then (let msg = msg_copy_out current k;
                k = upd_task current (\<lambda>t. t\<lparr>msg_pending := False\<rparr>) k in
        Some (Some msg, process_ipc_wake_from_receive current k))
      else case sender_dequeue current src_pid k of
          None \<Rightarrow> None
        | Some (Some sndr, k) \<Rightarrow>
            Some (Some (msg_copy_out sndr k), ipc_wake_sender_after_deliver sndr k)
        | Some (None, k) \<Rightarrow>
            Some (None, upd_task current (\<lambda>t. t\<lparr>state := PROC_STATE_RECEIVING\<rparr>) k))"

fun receive_loop :: "nat \<Rightarrow> u64 \<Rightarrow> (kcore \<Rightarrow> kcore) list \<Rightarrow> kcore \<Rightarrow> (message option \<times> kcore) option" where
  "receive_loop current src_pid irqs k =
     (case receive_round current src_pid k of
        None \<Rightarrow> None
      | Some (Some msg, k) \<Rightarrow> Some (Some msg, k)
      | Some (None, k) \<Rightarrow>
          (case irqs of [] \<Rightarrow> Some (None, k)
           | irq # irqs' \<Rightarrow> receive_loop current src_pid irqs' (irq k)))"

text \<open>The result is the received message, or \<open>None\<close> inside if the caller is still waiting.\<close>

definition ipc_receive :: "u64 \<Rightarrow> (kcore \<Rightarrow> kcore) list \<Rightarrow> kcore \<Rightarrow> (message option \<times> kcore) option" where
  "ipc_receive src_pid irqs k = receive_loop (get_current_process k) src_pid irqs k"

definition ipc_reply :: "u64 \<Rightarrow> message option \<Rightarrow> kcore \<Rightarrow> int \<times> kcore" where
  "ipc_reply dest_pid msg k =
     (case msg of None \<Rightarrow> (IPC_ERROR, k)
      | Some msg \<Rightarrow>
        let current = get_current_process k in
        (case process_find_by_pid dest_pid k of
           None \<Rightarrow> (IPC_ERROR, k)
         | Some peer \<Rightarrow>
           if state (task k peer) \<noteq> PROC_STATE_WAITING_REPLY then (IPC_ERROR, k)
           else (let k = msg_copy_to_buffer peer current msg k;
                     k = upd_task peer (\<lambda>t. t\<lparr>msg_pending := True\<rparr>) k in
             (IPC_OK, process_ipc_wake_after_reply peer k))))"

declare receive_loop.simps [simp del] ipc_wait_until_pending.simps [simp del]

section \<open>The queue of senders\<close>

text \<open>The list of senders reached from a link.\<close>

fun linked :: "kcore \<Rightarrow> nat option \<Rightarrow> nat list \<Rightarrow> bool" where
  "linked k p [] \<longleftrightarrow> p = None"
| "linked k p (s # ss) \<longleftrightarrow> p = Some s \<and> linked k (next_in_queue (task k s)) ss"

definition queue_of :: "kcore \<Rightarrow> nat \<Rightarrow> nat list \<Rightarrow> bool" where
  "queue_of k r ss \<longleftrightarrow> linked k (sender_queue (task k r)) ss \<and> distinct ss \<and>
     set ss \<subseteq> {..<MAX_TASKS}"

lemma linked_cong:
  "(\<And>s. s \<in> set ss \<Longrightarrow> next_in_queue (task k' s) = next_in_queue (task k s)) \<Longrightarrow>
   linked k' p ss = linked k p ss"
  by (induction ss arbitrary: p) auto

lemma enqueue_task:
  assumes "length (tasks k) = MAX_TASKS" and "dest < MAX_TASKS" and "sndr < MAX_TASKS"
  shows "next_in_queue (task (sender_enqueue dest sndr k) s) =
      (if s = sndr then sender_queue (task k dest) else next_in_queue (task k s))"
    and "sender_queue (task (sender_enqueue dest sndr k) s) =
      (if s = dest then Some sndr else sender_queue (task k s))"
    and "state (task (sender_enqueue dest sndr k) s) = state (task k s)"
  using assms by (auto simp: sender_enqueue_def Let_def task_simps)

lemma queue_of_enqueue:
  assumes "queue_of k dest ss" and "sndr \<notin> set ss" and "length (tasks k) = MAX_TASKS"
    and "dest < MAX_TASKS" and "sndr < MAX_TASKS"
  shows "queue_of (sender_enqueue dest sndr k) dest (sndr # ss)"
proof -
  have "linked (sender_enqueue dest sndr k) p ss = linked k p ss" for p
    using assms by (intro linked_cong) (auto simp: enqueue_task)
  then show ?thesis using assms by (auto simp: queue_of_def enqueue_task)
qed

text \<open>Fields that the queue operations leave alone.\<close>

definition same_but_links :: "kcore \<Rightarrow> kcore \<Rightarrow> bool" where
  "same_but_links k k' \<longleftrightarrow> length (tasks k') = length (tasks k) \<and>
     current_task_idx k' = current_task_idx k \<and>
     chaseros_active_user_pid k' = chaseros_active_user_pid k \<and>
     (\<forall>i. pid (task k' i) = pid (task k i) \<and> state (task k' i) = state (task k i) \<and>
        msg_buffer (task k' i) = msg_buffer (task k i) \<and> msg_pending (task k' i) = msg_pending (task k i))"

fun link_slot :: "qlink \<Rightarrow> nat" where
  "link_slot (QHead r) = r"
| "link_slot (QNext s) = s"

lemma q_set_same: "link_slot pp < length (tasks k) \<Longrightarrow> same_but_links k (q_set pp v k)"
  by (cases pp) (auto simp: same_but_links_def task_simps)

lemma q_get_set:
  "link_slot pp < length (tasks k) \<Longrightarrow> q_get l (q_set pp v k) = (if l = pp then v else q_get l k)"
  by (cases pp; cases l) (auto simp: task_simps)

lemma dequeue_loop_spec:
  assumes "linked k (q_get pp k) ss" and "distinct ss" and "pp \<notin> QNext ` set ss"
    and "set ss \<subseteq> {..<length (tasks k)}" and "link_slot pp < length (tasks k)"
  shows "\<exists>k'. dequeue_loop src pp k = Some (find (\<lambda>s. src = 0 \<or> pid (task k s) = src) ss, k') \<and>
    same_but_links k k' \<and>
    linked k' (q_get pp k') (case find (\<lambda>s. src = 0 \<or> pid (task k s) = src) ss of
        None \<Rightarrow> ss | Some x \<Rightarrow> remove1 x ss) \<and>
    (\<forall>l. l \<noteq> pp \<and> l \<notin> QNext ` set ss \<longrightarrow> q_get l k' = q_get l k)"
  using assms
proof (induction ss arbitrary: pp)
  case Nil
  then show ?case
    by (subst dequeue_loop.simps) (auto simp: same_but_links_def)
next
  case (Cons s ss)
  let ?M = "\<lambda>s. src = 0 \<or> pid (task k s) = src"
  have pp: "q_get pp k = Some s" and ss: "linked k (next_in_queue (task k s)) ss"
    using Cons.prems by auto
  show ?case
  proof (cases "?M s")
    case True
    define k1 where "k1 = q_set pp (next_in_queue (task k s)) k"
    have k1: "q_get l k1 = (if l = pp then next_in_queue (task k s) else q_get l k)" for l
      unfolding k1_def using Cons.prems(5) by (rule q_get_set)
    have len: "length (tasks k1) = length (tasks k)" by (cases pp) (auto simp: k1_def)
    let ?k = "upd_task s (\<lambda>t. t\<lparr>next_in_queue := None\<rparr>) k1"
    have k2: "q_get l ?k = (if l = QNext s then None else q_get l k1)" for l
      using q_get_set [of "QNext s" k1 l None] Cons.prems(4) len by simp
    have "linked ?k (q_get pp ?k) ss"
    proof -
      have "q_get pp ?k = next_in_queue (task k s)" using Cons.prems(3) k1 k2 by auto
      moreover have "linked ?k (next_in_queue (task k s)) ss = linked k (next_in_queue (task k s)) ss"
      proof (rule linked_cong)
        fix x assume "x \<in> set ss"
        then have "QNext x \<noteq> pp" "x \<noteq> s" using Cons.prems by auto
        then show "next_in_queue (task ?k x) = next_in_queue (task k x)"
          using k1 [of "QNext x"] k2 [of "QNext x"] by simp
      qed
      ultimately show ?thesis using ss by simp
    qed
    moreover have "same_but_links k ?k"
      using q_set_same [OF Cons.prems(5), of "next_in_queue (task k s)"] Cons.prems(4) len
      by (auto simp: same_but_links_def k1_def [symmetric] task_simps)
    moreover have "dequeue_loop src pp k = Some (Some s, ?k)"
      using True pp by (subst dequeue_loop.simps) (auto simp: k1_def)
    ultimately show ?thesis using True k1 k2 by auto
  next
    case False
    have "\<exists>k'. dequeue_loop src (QNext s) k = Some (find ?M ss, k') \<and> same_but_links k k' \<and>
      linked k' (q_get (QNext s) k') (case find ?M ss of None \<Rightarrow> ss | Some x \<Rightarrow> remove1 x ss) \<and>
      (\<forall>l. l \<noteq> QNext s \<and> l \<notin> QNext ` set ss \<longrightarrow> q_get l k' = q_get l k)"
      using Cons.prems ss by (intro Cons.IH) auto
    then obtain k' where k': "dequeue_loop src (QNext s) k = Some (find ?M ss, k')"
      "same_but_links k k'"
      "linked k' (next_in_queue (task k' s)) (case find ?M ss of None \<Rightarrow> ss | Some x \<Rightarrow> remove1 x ss)"
      "\<forall>l. l \<noteq> QNext s \<and> l \<notin> QNext ` set ss \<longrightarrow> q_get l k' = q_get l k" by auto
    have "dequeue_loop src pp k = Some (find ?M ss, k')"
      using False pp k'(1) by (subst dequeue_loop.simps) simp
    moreover have "q_get pp k' = Some s" using k'(4) Cons.prems(3) pp by auto
    moreover have "x \<noteq> s" if "find ?M ss = Some x" for x
      using that Cons.prems(2) by (auto simp: find_Some_iff)
    ultimately show ?thesis using False k' by (auto split: option.splits)
  qed
qed
text \<open>
  What the senders' list promises its clients: an abstract list, with enqueueing at the front
  and dequeueing from the front.
\<close>

locale sender_list =
  fixes repr :: "'s \<Rightarrow> 'a list \<Rightarrow> bool" and valid :: "'a \<Rightarrow> bool"
    and enq :: "'a \<Rightarrow> 's \<Rightarrow> 's" and deq :: "'s \<Rightarrow> ('a option \<times> 's) option"
  assumes enq: "\<lbrakk>repr s xs; valid x; x \<notin> set xs\<rbrakk> \<Longrightarrow> repr (enq x s) (x # xs)"
    and deq_Nil: "repr s [] \<Longrightarrow> \<exists>s'. deq s = Some (None, s') \<and> repr s' []"
    and deq_Cons: "repr s (x # xs) \<Longrightarrow> \<exists>s'. deq s = Some (Some x, s') \<and> repr s' xs"
begin

lemma newest_first:
  assumes "repr s xs" and "valid x" and "valid y" and "x \<notin> set xs" and "y \<notin> set (x # xs)"
  shows "\<exists>s'. deq (enq y (enq x s)) = Some (Some y, s') \<and> repr s' (x # xs)"
  using enq [OF enq [OF assms(1,2,4)] assms(3,5)] by (rule deq_Cons)

lemma deq_repr: "repr s xs \<Longrightarrow> \<exists>x s'. deq s = Some (x, s') \<and> repr s' (tl xs)"
  using deq_Nil [of s] deq_Cons [of s] by (cases xs) fastforce+

end

definition queue_repr :: "nat \<Rightarrow> kcore \<Rightarrow> nat list \<Rightarrow> bool" where
  "queue_repr r k ss \<longleftrightarrow> r < MAX_TASKS \<and> length (tasks k) = MAX_TASKS \<and> queue_of k r ss"

lemma sender_dequeue_spec:
  assumes "queue_repr r k ss"
  shows "\<exists>k'. sender_dequeue r src k = Some (find (\<lambda>s. src = 0 \<or> pid (task k s) = src) ss, k') \<and>
    same_but_links k k' \<and>
    queue_repr r k' (case find (\<lambda>s. src = 0 \<or> pid (task k s) = src) ss of
      None \<Rightarrow> ss | Some x \<Rightarrow> remove1 x ss)"
proof -
  have "linked k (q_get (QHead r) k) ss" "distinct ss" "QHead r \<notin> QNext ` set ss"
    "set ss \<subseteq> {..<length (tasks k)}" "link_slot (QHead r) < length (tasks k)"
    using assms by (auto simp: queue_repr_def queue_of_def)
  from dequeue_loop_spec [OF this, of src] show ?thesis
    using assms set_remove1_subset
    by (fastforce simp: sender_dequeue_def queue_repr_def queue_of_def same_but_links_def
        split: option.splits)
qed

interpretation sl: sender_list "queue_repr r" "\<lambda>s. s < MAX_TASKS" "sender_enqueue r" "sender_dequeue r 0" for r
proof (unfold_locales, goal_cases)
  case (1 s xs x)
  then show ?case
    by (auto simp: queue_repr_def queue_of_enqueue) (simp add: sender_enqueue_def Let_def)
next
  case (2 s)
  then show ?case using sender_dequeue_spec [of r s "[]" 0] by auto
next
  case (3 s x xs)
  then show ?case using sender_dequeue_spec [of r s "x # xs" 0] by auto
qed

text \<open>
  C27: the list of blocked senders refines a stack. Among two senders that queue up one after
  the other, the one that came last is served first, and the earlier one stays in the list.
\<close>

theorem sender_queue_is_lifo:
  assumes "queue_repr r k ss" and "a < MAX_TASKS" and "b < MAX_TASKS" and "a \<notin> set ss"
    and "b \<notin> set (a # ss)"
  shows "\<exists>k'. sender_dequeue r 0 (sender_enqueue r b (sender_enqueue r a k)) = Some (Some b, k') \<and>
    queue_repr r k' (a # ss)"
  using assms by (rule sl.newest_first)

theorem sender_queue_is_lifo_witness:
  "\<exists>k'. sender_dequeue 0 0 (sender_enqueue 0 2 (sender_enqueue 0 1 demo_kcore)) = Some (Some 2, k')"
proof -
  have "sender_queue (task demo_kcore 0) = None" by code_simp
  then have "queue_repr 0 demo_kcore []"
    using demo_kcore_ok by (simp add: queue_repr_def queue_of_def sched_ok_def MAX_TASKS_def)
  then show ?thesis using sender_queue_is_lifo [of 0 demo_kcore "[]" 1 2] by (auto simp: MAX_TASKS_def)
qed

section \<open>A queued send does not return\<close>

lemma schedule_keeps_sending:
  assumes "length (tasks k) = MAX_TASKS" and "current_task_idx k < MAX_TASKS"
    and "state (task k c) = PROC_STATE_SENDING"
  shows "state (task (sched_yield k) c) = PROC_STATE_SENDING"
    and "length (tasks (sched_yield k)) = MAX_TASKS" and "current_task_idx (sched_yield k) < MAX_TASKS"
  using assms(1,2) by (cases rule: schedule_cases; use assms in \<open>force simp: sched_yield_def\<close>)+

lemma send_wait_stuck:
  assumes "length (tasks k) = MAX_TASKS" and "current_task_idx k < MAX_TASKS"
    and "state (task k c) = PROC_STATE_SENDING"
  shows "send_wait c k = None"
proof (rule ccontr)
  assume "send_wait c k \<noteq> None"
  then obtain r where r: "send_wait c k = Some r" by auto
  let ?P = "\<lambda>c k. length (tasks k) = MAX_TASKS \<and> current_task_idx k < MAX_TASKS \<and>
    state (task k c) = PROC_STATE_SENDING"
  have "\<not> ?P c k"
  proof (rule send_wait.raw_induct [where P = "\<lambda>c k r. \<not> ?P c k", OF _ r])
    fix f c k y
    assume IH: "\<And>c k y. f c k = Some y \<Longrightarrow> \<not> ?P c k"
      and eq: "(if state (task k c) = PROC_STATE_SENDING then f c (sched_yield k) else Some k) = Some y"
    show "\<not> ?P c k"
    proof
      assume p: "?P c k"
      then have "f c (sched_yield k) = Some y" using eq by simp
      moreover have "?P c (sched_yield k)" using p schedule_keeps_sending by blast
      ultimately show False using IH by blast
    qed
  qed
  then show False using assms by blast
qed

lemma current_for_ipc_less: "sched_ok k \<Longrightarrow> process_current_task_for_ipc k < MAX_TASKS"
  by (auto simp: process_current_task_for_ipc_def process_find_by_pid_def get_current_process_def
      sched_ok_def dest: first_slot_Some split: option.splits)

lemma find_by_pid_less: "process_find_by_pid p k = Some i \<Longrightarrow> i < MAX_TASKS"
  by (auto simp: process_find_by_pid_def dest: first_slot_Some)

text \<open>
  C28: a send to a process that is not receiving never returns. The sender queues itself and
  yields while it is SENDING, but yielding only relabels other slots, so that no code runs
  which could take the message.
\<close>

theorem ipc_send_queued_never_returns:
  assumes "sched_ok k" and "process_find_by_pid d k = Some dest"
    and "dest \<noteq> process_current_task_for_ipc k"
    and "state (task k dest) \<noteq> PROC_STATE_FREE" and "state (task k dest) \<noteq> PROC_STATE_RECEIVING"
  shows "ipc_send d (Some msg) k = None"
proof -
  let ?c = "process_current_task_for_ipc k"
  have c: "?c < MAX_TASKS" "dest < MAX_TASKS" and len: "length (tasks k) = MAX_TASKS"
    and cur: "current_task_idx k < MAX_TASKS"
    using current_for_ipc_less find_by_pid_less assms by (auto simp: sched_ok_def)
  define k1 where "k1 = sender_enqueue dest ?c
    (upd_task ?c (\<lambda>t. t\<lparr>state := PROC_STATE_SENDING\<rparr>) (stash_outgoing ?c msg k))"
  have "state (task k1 ?c) = PROC_STATE_SENDING"
    using c len by (simp add: k1_def enqueue_task task_simps stash_outgoing_def msg_copy_to_buffer_def)
  moreover have "length (tasks k1) = MAX_TASKS" "current_task_idx k1 < MAX_TASKS"
    using len cur by (simp_all add: k1_def sender_enqueue_def Let_def stash_outgoing_def msg_copy_to_buffer_def)
  ultimately have "send_wait ?c k1 = None" by (intro send_wait_stuck)
  then show ?thesis using assms by (simp add: ipc_send_def Let_def k1_def)
qed

theorem ipc_send_queued_never_returns_witness:
  "ipc_send 1 (Some \<lparr>sender = 0, mtype = 1, payload = replicate 48 0\<rparr>) demo_kcore = None"
proof -
  have "process_find_by_pid 1 demo_kcore = Some 1" "process_current_task_for_ipc demo_kcore = 0"
    by code_simp+
  then show ?thesis
    using ipc_send_queued_never_returns [OF demo_kcore_ok, of 1 1] demo_kcore_ready by simp
qed

section \<open>A remote call\<close>

lemma sched_ok_copy [simp]:
  assumes "dest < MAX_TASKS" and "sched_ok k"
  shows "sched_ok (msg_copy_to_buffer dest src msg k)"
  using assms by (auto simp: sched_ok_def msg_copy_to_buffer_def task_simps)

lemma sched_ok_pending [simp]:
  "dest < MAX_TASKS \<Longrightarrow> sched_ok k \<Longrightarrow> sched_ok (upd_task dest (\<lambda>t. t\<lparr>msg_pending := b\<rparr>) k)"
  by (auto simp: sched_ok_def task_simps)

lemma ipc_send_direct:
  assumes "sched_ok k" and "process_find_by_pid d k = Some v" and "c = process_current_task_for_ipc k"
    and "v \<noteq> c" and "state (task k v) = PROC_STATE_RECEIVING" and "state (task k c) \<noteq> PROC_STATE_FREE"
    and "length (payload msg) = MAX_MSG_PAYLOAD"
  shows "\<exists>k1. ipc_send d (Some msg) k = Some (IPC_OK, k1) \<and> sched_ok k1 \<and>
    msg_pending (task k1 v) \<and> msg_buffer (task k1 v) = msg\<lparr>sender := pid (task k c)\<rparr> \<and>
    state (task k1 c) = PROC_STATE_WAITING_REPLY \<and>
    chaseros_active_user_pid k1 = chaseros_active_user_pid k \<and>
    state (task k1 v) =
      (if pid (task k v) = chaseros_active_user_pid k \<and> chaseros_active_user_pid k \<noteq> 0
       then PROC_STATE_USER_SLOT else PROC_STATE_READY) \<and>
    (\<forall>i. pid (task k1 i) = pid (task k i))"
proof -
  have l: "v < MAX_TASKS" "c < MAX_TASKS" "length (tasks k) = MAX_TASKS"
    using assms current_for_ipc_less find_by_pid_less by (auto simp: sched_ok_def)
  define k0 where "k0 = upd_task v (\<lambda>t. t\<lparr>msg_pending := True\<rparr>) (msg_copy_to_buffer v c msg k)"
  define k1 where "k1 = upd_task c (\<lambda>t. t\<lparr>state := PROC_STATE_WAITING_REPLY\<rparr>)
    (process_ipc_wake_from_receive v k0)"
  have t0: "task k0 i = (if i = v then (task k v)\<lparr>msg_buffer := \<lparr>sender = pid (task k c), mtype = mtype msg,
      payload = payload msg\<rparr>, msg_pending := True\<rparr> else task k i)" for i
    using l assms(7) by (simp add: k0_def msg_copy_to_buffer_def task_simps)
  have f0: "length (tasks k0) = MAX_TASKS" "chaseros_active_user_pid k0 = chaseros_active_user_pid k"
    using l by (simp_all add: k0_def msg_copy_to_buffer_def)
  have ok0: "sched_ok k0" using assms(1) l by (simp add: k0_def)
  have t1: "task k1 i = (if i = c then (task k0 c)\<lparr>state := PROC_STATE_WAITING_REPLY\<rparr>
      else task (process_ipc_wake_from_receive v k0) i)" for i
    using l f0 assms(4) by (auto simp: k1_def task_simps process_ipc_wake_from_receive_def)
  have v1: "task (process_ipc_wake_from_receive v k0) i = (if i = v then (task k0 v)\<lparr>state :=
      (if pid (task k v) = chaseros_active_user_pid k \<and> chaseros_active_user_pid k \<noteq> 0
       then PROC_STATE_USER_SLOT else PROC_STATE_READY)\<rparr> else task k0 i)" for i
    using l f0 assms(5) by (auto simp: process_ipc_wake_from_receive_def task_simps t0)
  have "sched_ok k1"
    unfolding k1_def using sched_ok_wake(1) [OF ok0 l(1)] l sched_ok_task [OF assms(1) l(2) assms(6)]
      assms(4) by (intro sched_ok_upd) (simp_all add: v1 t0)
  moreover have "ipc_send d (Some msg) k = Some (IPC_OK, k1)"
    using assms by (simp add: ipc_send_def Let_def k1_def k0_def)
  moreover have "chaseros_active_user_pid k1 = chaseros_active_user_pid k"
    by (simp add: k1_def process_ipc_wake_from_receive_def f0)
  ultimately show ?thesis
    using assms(4) by (intro exI [of _ k1]) (simp add: t1 v1 t0)
qed

lemma find_by_pid_current [simp]:
  "process_find_by_pid p (k\<lparr>current_task_idx := v\<rparr>) = process_find_by_pid p k"
  by (simp add: process_find_by_pid_def first_slot_def)

text \<open>
  C17: a remote call delivers. If the server is receiving, the send hands it the message with
  the client's id and the client waits for the reply; the server's receive returns exactly that
  message; its reply reaches the client, whose wait ends at once with the server's id and payload,
  and which is runnable again (as the user slot if it is the active user process).
\<close>

theorem ipc_rpc_roundtrip:
  assumes "sched_ok k" and "process_find_by_pid d k = Some v" and "c = process_current_task_for_ipc k"
    and "v \<noteq> c" and "state (task k v) = PROC_STATE_RECEIVING" and "state (task k c) \<noteq> PROC_STATE_FREE"
    and "length (payload msg) = MAX_MSG_PAYLOAD" and "length (payload rep) = MAX_MSG_PAYLOAD"
  shows "\<exists>k1 k2 k3. ipc_send d (Some msg) k = Some (IPC_OK, k1) \<and>
    receive_round v 0 k1 = Some (Some (msg\<lparr>sender := pid (task k c)\<rparr>), k2) \<and>
    ipc_reply (pid (task k c)) (Some rep) (k2\<lparr>current_task_idx := v\<rparr>) = (IPC_OK, k3) \<and>
    ipc_wait_until_pending c irqs k3 = Some k3 \<and>
    fst (ipc_consume_pending_message c k3) = rep\<lparr>sender := pid (task k v)\<rparr> \<and>
    state (task k3 c) =
      (if pid (task k c) = chaseros_active_user_pid k \<and> chaseros_active_user_pid k \<noteq> 0
       then PROC_STATE_USER_SLOT else PROC_STATE_READY)"
proof -
  have c: "c < MAX_TASKS" and v: "v < MAX_TASKS"
    using assms(1-3) current_for_ipc_less find_by_pid_less by auto
  obtain k1 where k1: "ipc_send d (Some msg) k = Some (IPC_OK, k1)" "sched_ok k1"
    "msg_pending (task k1 v)" "msg_buffer (task k1 v) = msg\<lparr>sender := pid (task k c)\<rparr>"
    "state (task k1 c) = PROC_STATE_WAITING_REPLY"
    "chaseros_active_user_pid k1 = chaseros_active_user_pid k"
    "state (task k1 v) \<noteq> PROC_STATE_RECEIVING" "\<forall>i. pid (task k1 i) = pid (task k i)"
    using ipc_send_direct [OF assms(1-7)] by auto
  have len: "length (tasks k1) = MAX_TASKS" using k1(2) by (simp add: sched_ok_def)
  define k2 where "k2 = upd_task v (\<lambda>t. t\<lparr>msg_pending := False\<rparr>) k1"
  have t2: "task k2 i = (if i = v then (task k1 v)\<lparr>msg_pending := False\<rparr> else task k1 i)" for i
    using v len by (simp add: k2_def task_simps)
  have ok2: "sched_ok k2" using k1(2) v by (simp add: k2_def)
  have r: "receive_round v 0 k1 = Some (Some (msg\<lparr>sender := pid (task k c)\<rparr>), k2)"
    using k1(3,4,7) t2 by (simp add: receive_round_def Let_def msg_copy_out_def k2_def [symmetric]
        process_ipc_wake_from_receive_def)
  have "process_find_by_pid (pid (task k1 c)) k2 = Some c"
    using find_by_pid_slot [OF ok2 c] sched_ok_task [OF ok2 c] t2 assms(4) k1(5) by simp
  then have f: "process_find_by_pid (pid (task k c)) k2 = Some c" using k1(8) by simp
  define k3 where "k3 = snd (ipc_reply (pid (task k c)) (Some rep) (k2\<lparr>current_task_idx := v\<rparr>))"
  have len2: "length (tasks k2) = MAX_TASKS" using len by (simp add: k2_def)
  have st: "state (task k2 c) = PROC_STATE_WAITING_REPLY" using t2 assms(4) k1(5) by simp
  have act: "chaseros_active_user_pid k2 = chaseros_active_user_pid k" using k1(6) by (simp add: k2_def)
  have rep: "fst (ipc_reply (pid (task k c)) (Some rep) (k2\<lparr>current_task_idx := v\<rparr>)) = IPC_OK"
    and t3: "msg_pending (task k3 c)" "msg_buffer (task k3 c) = rep\<lparr>sender := pid (task k v)\<rparr>"
    "state (task k3 c) = (if pid (task k c) = chaseros_active_user_pid k \<and> chaseros_active_user_pid k \<noteq> 0
       then PROC_STATE_USER_SLOT else PROC_STATE_READY)"
    using c v len2 st act k1(8) assms(4,8) t2 unfolding k3_def
    by (simp_all add: ipc_reply_def f Let_def get_current_process_def msg_copy_to_buffer_def
        process_ipc_wake_after_reply_def task_simps)
  then have "ipc_reply (pid (task k c)) (Some rep) (k2\<lparr>current_task_idx := v\<rparr>) = (IPC_OK, k3)"
    by (simp add: k3_def prod_eq_iff)
  moreover have "ipc_wait_until_pending c irqs k3 = Some k3"
    using t3(1) by (simp add: ipc_wait_until_pending.simps)
  ultimately show ?thesis
    using k1(1) r t3 by (auto simp: ipc_consume_pending_message_def msg_copy_out_def)
qed

definition demo_server :: kcore where
  "demo_server = upd_task 1 (\<lambda>t. t\<lparr>state := PROC_STATE_RECEIVING\<rparr>) demo_kcore"

definition demo_msg :: message where
  "demo_msg = \<lparr>sender = 0, mtype = 1, payload = replicate MAX_MSG_PAYLOAD 7\<rparr>"

lemma demo_server_facts:
  "sched_ok demo_server" "process_find_by_pid 1 demo_server = Some 1"
  "0 = process_current_task_for_ipc demo_server" "state (task demo_server 1) = PROC_STATE_RECEIVING"
  "state (task demo_server 0) \<noteq> PROC_STATE_FREE" "length (payload demo_msg) = MAX_MSG_PAYLOAD"
proof -
  have "pid (task demo_kcore 1) = of_nat 1" by code_simp
  then show "sched_ok demo_server"
    unfolding demo_server_def by (intro sched_ok_upd demo_kcore_ok) (simp_all add: MAX_TASKS_def)
  show "process_find_by_pid 1 demo_server = Some 1" "0 = process_current_task_for_ipc demo_server"
    "state (task demo_server 1) = PROC_STATE_RECEIVING" "state (task demo_server 0) \<noteq> PROC_STATE_FREE"
    by code_simp+
  show "length (payload demo_msg) = MAX_MSG_PAYLOAD" by (simp add: demo_msg_def)
qed

theorem ipc_rpc_roundtrip_witness:
  "\<exists>k1 k2. ipc_send 1 (Some demo_msg) demo_server = Some (IPC_OK, k1) \<and>
     receive_round 1 0 k1 = Some (Some (demo_msg\<lparr>sender := pid (task demo_server 0)\<rparr>), k2)"
  using ipc_rpc_roundtrip [OF demo_server_facts(1,2,3) _ demo_server_facts(4,5,6,6), of "[]"] by blast


definition demo_filter :: kcore where
  "demo_filter = upd_task 1 (\<lambda>t. t\<lparr>state := PROC_STATE_RECEIVING, msg_pending := True,
     msg_buffer := demo_msg\<lparr>sender := 2\<rparr>\<rparr>)
     (upd_task 2 (\<lambda>t. t\<lparr>state := PROC_STATE_WAITING_REPLY\<rparr>) demo_exit)"


end
