(* ===== verification/UserFd.thy ===== *)
theory UserFd
  imports Vfs Ipc
begin

text \<open>
  File descriptors of the user process, \<open>src/kernel/user_fd.c\<close>, and the file service of
  \<open>src/kernel/hybrid_ipc.c\<close> to which opening a file can be delegated. A system call may wait
  forever, so that these routines run in a monad whose result is \<open>None\<close> when they do not
  return; \<open>Err e\<close> is the negative error number of \<open>src/kernel/errno.h\<close>.
\<close>

type_synonym ('s, 'a) pm = "'s \<Rightarrow> ('a outcome \<times> 's) option"

definition liftP :: "('s, 'a) sm \<Rightarrow> ('s, 'a) pm" where "liftP m s = Some (m s)"

definition bindP :: "('s, 'a) pm \<Rightarrow> ('a \<Rightarrow> ('s, 'b) pm) \<Rightarrow> ('s, 'b) pm" where
  "bindP m f s = (case m s of
      None \<Rightarrow> None
    | Some (Ok x, s') \<Rightarrow> f x s'
    | Some (Err e, s') \<Rightarrow> Some (Err e, s')
    | Some (Oob, s') \<Rightarrow> Some (Oob, s'))"

definition retP :: "'a \<Rightarrow> ('s, 'a) pm" where "retP x = liftP (retS x)"
definition failP :: "int \<Rightarrow> ('s, 'a) pm" where "failP e = liftP (failS e)"
definition errIfP :: "bool \<Rightarrow> int \<Rightarrow> ('s, unit) pm" where "errIfP c e = liftP (errIf c e)"
definition waitP :: "'a option \<Rightarrow> ('s, 'a) pm" where
  "waitP r s = (case r of None \<Rightarrow> None | Some x \<Rightarrow> Some (Ok x, s))"

lemmas pm_defs = liftP_def bindP_def retP_def failP_def errIfP_def waitP_def

definition EPERM :: int where "EPERM = 1"
definition ENOENT :: int where "ENOENT = 2"
definition EIO :: int where "EIO = 5"
definition EBADF :: int where "EBADF = 9"
definition EMFILE :: int where "EMFILE = 24"
definition EINVAL :: int where "EINVAL = 22"
definition EFAULT :: int where "EFAULT = 14"
definition ENOSYS :: int where "ENOSYS = 38"
definition EAGAIN :: int where "EAGAIN = 11"

lemmas errno_defs = EPERM_def ENOENT_def EIO_def EBADF_def EMFILE_def EINVAL_def EFAULT_def ENOSYS_def EAGAIN_def

definition CHASEROS_USER_FD_MIN :: int where "CHASEROS_USER_FD_MIN = 3"
definition CHASEROS_USER_FD_NUM :: nat where "CHASEROS_USER_FD_NUM = 8"
definition CHASEROS_SYSCALL_MAX_IO_BYTES :: u64 where "CHASEROS_SYSCALL_MAX_IO_BYTES = 1024 * 1024"

text \<open>The copy of a user string: \<open>n\<close> bytes at most, each behind a check of its page.\<close>

fun copy_user_str :: "machine \<Rightarrow> u64 \<Rightarrow> nat \<Rightarrow> string outcome option" where
  "copy_user_str m ua 0 = Some (Err (- EINVAL))"
| "copy_user_str m ua (Suc n) =
     (case vmm_user_range_readable m ua 1 of
        None \<Rightarrow> None
      | Some False \<Rightarrow> Some (Err (- EFAULT))
      | Some True \<Rightarrow>
          (let c = char_of_byte (mem m ua) in
           if c = CHR 0x00 then Some (Ok [])
           else case copy_user_str m (ua + 1) n of
               Some (Ok s) \<Rightarrow> Some (Ok (c # s))
             | r \<Rightarrow> r))"

definition copy_user_path :: "nat \<Rightarrow> u64 \<Rightarrow> ('d kst, string) pm" where
  "copy_user_path dst_sz ua k =
     (case copy_user_str (kmach k) ua (dst_sz - 1) of None \<Rightarrow> None | Some r \<Rightarrow> Some (r, k))"

definition first_free_fd :: "user_fd_slot list \<Rightarrow> nat option" where
  "first_free_fd us = List.find (\<lambda>i. \<not> valid (us ! i)) [0..<CHASEROS_USER_FD_NUM]"

definition user_fd_open_kpath :: "'d io \<Rightarrow> string \<Rightarrow> ('d kst, int) sm" where
  "user_fd_open_kpath io path =
     bindS (getS vfs_is_mounted) (\<lambda>m.
     bindS (errIf (\<not> m) (- EINVAL)) (\<lambda>_.
     bindS (\<lambda>k. case vfs_stat_of io path k of
         (Err e, k) \<Rightarrow> (Err (if e = VFS_ERR_NOTMOUNTED then - EINVAL else - ENOENT), k)
       | r \<Rightarrow> r) (\<lambda>st.
     bindS (getS (\<lambda>k. first_free_fd (g_ufd k))) (\<lambda>slot.
     case slot of
       None \<Rightarrow> failS (- EMFILE)
     | Some idx \<Rightarrow>
         bindS (modifyS (\<lambda>k. k\<lparr>g_ufd := (g_ufd k)[idx :=
           \<lparr>valid = True, upath = take 127 path, uoffset = 0,
            usize = (if st_size st > 0xFFFFFFFF then 0xFFFFFFFF else ucast (st_size st))\<rparr>]\<rparr>)) (\<lambda>_.
         retS (CHASEROS_USER_FD_MIN + int idx))))))"

definition fd_slot :: "int \<Rightarrow> 'd kst \<Rightarrow> nat option" where
  "fd_slot fd k =
     (if fd < CHASEROS_USER_FD_MIN \<or> fd \<ge> CHASEROS_USER_FD_MIN + int CHASEROS_USER_FD_NUM then None
      else let idx = nat (fd - CHASEROS_USER_FD_MIN) in if valid (g_ufd k ! idx) then Some idx else None)"

definition user_fd_sys_close :: "int \<Rightarrow> ('d kst, int) sm" where
  "user_fd_sys_close fd =
     bindS (getS (fd_slot fd)) (\<lambda>slot.
     case slot of
       None \<Rightarrow> failS (- EBADF)
     | Some idx \<Rightarrow>
         bindS (modifyS (\<lambda>k. k\<lparr>g_ufd := (g_ufd k)[idx := (g_ufd k ! idx)\<lparr>valid := False\<rparr>]\<rparr>)) (\<lambda>_. retS 0))"

text \<open>
  The chunks of a read: at most 2048 bytes from the file into the kernel buffer and on to the
  user buffer. A failure of the file system is \<open>-EIO\<close>.
\<close>

function read_chunks :: "'d io \<Rightarrow> string \<Rightarrow> u32 \<Rightarrow> u64 \<Rightarrow> nat \<Rightarrow> nat \<Rightarrow> ('d kst, nat) sm" where
  "read_chunks io path off ua len tot k =
     (if tot < len then
        let chunk = min (len - tot) 2048 in
        case vfs_read_file_range io path (off + of_nat tot) (of_nat chunk) k of
          (Err _, k) \<Rightarrow> (Err (- EIO), k)
        | (Oob, k) \<Rightarrow> (Oob, k)
        | (Ok data, k) \<Rightarrow>
            if data = [] then (Ok tot, k)
            else let k = set_kmem (wr_bytes (mem (kmach k)) (ua + of_nat tot) data) k;
                     tot' = tot + length data in
                 if length data < chunk then (Ok tot', k) else read_chunks io path off ua len tot' k
      else (Ok tot, k))"
  by pat_completeness auto
termination by (relation "measure (\<lambda>(io, path, off, ua, len, tot, k). len - tot)") auto

declare read_chunks.simps [simp del]

definition user_fd_sys_read :: "'d io \<Rightarrow> int \<Rightarrow> u64 \<Rightarrow> u64 \<Rightarrow> ('d kst, int) pm" where
  "user_fd_sys_read io fd ua len =
     bindP (liftP (getS (fd_slot fd))) (\<lambda>slot.
     case slot of
       None \<Rightarrow> failP (- EBADF)
     | Some idx \<Rightarrow>
         bindP (errIfP (len > CHASEROS_SYSCALL_MAX_IO_BYTES) (- EINVAL)) (\<lambda>_.
         if len = 0 then retP 0
         else bindP (\<lambda>k. waitP (vmm_user_range_writable (kmach k) ua len) k) (\<lambda>w.
         bindP (errIfP (\<not> w) (- EFAULT)) (\<lambda>_.
         bindP (liftP (getS (\<lambda>k. g_ufd k ! idx))) (\<lambda>u.
         if uoffset u \<ge> usize u then retP 0
         else let remain = unat (usize u - uoffset u) in
           bindP (liftP (read_chunks io (upath u) (uoffset u) ua (min (unat len) remain) 0)) (\<lambda>total.
           bindP (liftP (modifyS (\<lambda>k. k\<lparr>g_ufd := (g_ufd k)[idx :=
             (g_ufd k ! idx)\<lparr>uoffset := uoffset u + of_nat total\<rparr>]\<rparr>))) (\<lambda>_.
           retP (int total))))))))"

section \<open>The file service\<close>

definition CHASEROS_HYBRID_SERVICE_PID :: u64 where "CHASEROS_HYBRID_SERVICE_PID = 3"
definition CHASEROS_MSG_NOP :: u64 where "CHASEROS_MSG_NOP = 0"
definition CHASEROS_MSG_PING :: u64 where "CHASEROS_MSG_PING = 1"
definition CHASEROS_MSG_PONG :: u64 where "CHASEROS_MSG_PONG = 2"
definition CHASEROS_MSG_FS_OPEN :: u64 where "CHASEROS_MSG_FS_OPEN = 10"
definition CHASEROS_MSG_FS_REPLY :: u64 where "CHASEROS_MSG_FS_REPLY = 11"

definition pack_i64 :: "int \<Rightarrow> u8 list" where "pack_i64 v = le_list 8 (of_int v :: u64)"
definition unpack_i64 :: "u8 list \<Rightarrow> int" where "unpack_i64 p = sint (of_le (take 8 p) :: u64)"

definition open_request :: "string \<Rightarrow> message" where
  "open_request path =
     (let bs = map byte_of_char (take (MAX_MSG_PAYLOAD - 1) path) in
      \<lparr>sender = 0, mtype = CHASEROS_MSG_FS_OPEN, payload = bs @ replicate (MAX_MSG_PAYLOAD - length bs) 0\<rparr>)"


definition liftCore :: "(kcore \<Rightarrow> ('a \<times> kcore) option) \<Rightarrow> ('d kst, 'a) pm" where
  "liftCore f k = (case f (core (fs k)) of
      None \<Rightarrow> None | Some (x, c) \<Rightarrow> Some (Ok x, k\<lparr>fs := (fs k)\<lparr>core := c\<rparr>\<rparr>))"

text \<open>\<open>irqs\<close> are the effects of the interrupts that arrive while the caller waits.\<close>

definition hybrid_user_fd_open_via_ipc :: "(kcore \<Rightarrow> kcore) list \<Rightarrow> string \<Rightarrow> ('d kst, int) pm" where
  "hybrid_user_fd_open_via_ipc irqs path =
     bindP (liftCore (ipc_send CHASEROS_HYBRID_SERVICE_PID (Some (open_request path)))) (\<lambda>r.
     bindP (errIfP (r \<noteq> IPC_OK) (- EIO)) (\<lambda>_.
     bindP (liftCore (\<lambda>c. let cur = process_current_task_for_ipc c in
       map_option (ipc_consume_pending_message cur) (ipc_wait_until_pending cur irqs c))) (\<lambda>rep.
     bindP (errIfP (mtype rep \<noteq> CHASEROS_MSG_FS_REPLY) (- EIO)) (\<lambda>_.
     retP (unpack_i64 (payload rep))))))"

definition request_path :: "message \<Rightarrow> string" where
  "request_path m = takeWhile (\<lambda>c. c \<noteq> CHR 0x00) (map char_of_byte (take (MAX_MSG_PAYLOAD - 1) (payload m)))"

text \<open>The answer to one message, and one round of the service loop.\<close>

definition hybrid_answer :: "'d io \<Rightarrow> message \<Rightarrow> ('d kst, message) sm" where
  "hybrid_answer io m =
     (if mtype m = CHASEROS_MSG_FS_OPEN
      then (\<lambda>k. case user_fd_open_kpath io (request_path m) k of
          (Oob, k) \<Rightarrow> (Oob, k)
        | (r, k) \<Rightarrow>
            (let fd = (case r of Ok fd \<Rightarrow> fd | Err e \<Rightarrow> e) in
             (Ok \<lparr>sender = CHASEROS_HYBRID_SERVICE_PID, mtype = CHASEROS_MSG_FS_REPLY,
                  payload = put_at 0 (pack_i64 fd) (replicate MAX_MSG_PAYLOAD 0)\<rparr>, k)))
      else retS \<lparr>sender = CHASEROS_HYBRID_SERVICE_PID,
                mtype = (if mtype m = CHASEROS_MSG_PING then CHASEROS_MSG_PONG else CHASEROS_MSG_NOP),
                payload = payload m\<rparr>)"

definition hybrid_service_round :: "'d io \<Rightarrow> (kcore \<Rightarrow> kcore) list \<Rightarrow> ('d kst, unit) pm" where
  "hybrid_service_round io irqs =
     bindP (liftCore (\<lambda>c. case ipc_receive 0 irqs c of
         Some (Some m, c) \<Rightarrow> Some (m, c) | _ \<Rightarrow> None)) (\<lambda>m.
     bindP (liftP (hybrid_answer io m)) (\<lambda>reply.
     bindP (liftCore (\<lambda>c. Some (ipc_reply (sender m) (Some reply) c))) (\<lambda>_. retP ())))"

definition chaseros_hybrid_ipc_service_spawn :: "u64 \<Rightarrow> kcore \<Rightarrow> kcore" where
  "chaseros_hybrid_ipc_service_spawn entry k =
     snd (process_spawn_kernel_at_pid CHASEROS_HYBRID_SERVICE_PID entry k)"

text \<open>
  \<open>user_fd_sys_open\<close>; \<open>via_ipc\<close> is the build option \<open>CHASEROS_HYBRID_FS_VIA_IPC\<close>.
\<close>

definition user_fd_sys_open :: "bool \<Rightarrow> 'd io \<Rightarrow> (kcore \<Rightarrow> kcore) list \<Rightarrow> u64 \<Rightarrow> ('d kst, int) pm" where
  "user_fd_sys_open via_ipc io irqs path_ptr =
     bindP (liftP (getS vfs_is_mounted)) (\<lambda>m.
     bindP (errIfP (\<not> m) (- EINVAL)) (\<lambda>_.
     bindP (copy_user_path 128 path_ptr) (\<lambda>path.
     bindP (liftP (getS g_user_cwd)) (\<lambda>cwd.
     case vfs_resolve_path cwd path 256 of
       None \<Rightarrow> failP (- EINVAL)
     | Some resolved \<Rightarrow>
         if via_ipc then hybrid_user_fd_open_via_ipc irqs resolved
         else liftP (user_fd_open_kpath io resolved)))))"

section \<open>Rules for routines that may not return\<close>

lemma bindP_simps [simp]:
  "bindP (retP x) f = f x" "bindP (failP e) f = failP e" "bindP (errIfP True e) g = failP e"
  "bindP (errIfP False e) g = g ()"
  by (auto simp: pm_defs sm_defs fun_eq_iff)

lemma pm_run:
  "retP x s = Some (Ok x, s)" "failP e s = Some (Err e, s)" "liftP m s = Some (m s)"
  "bindP (liftP (getS f)) f1 s = f1 (f s) s"
  "bindP (liftP (modifyS h)) f2 s = f2 () (h s)"
  "bindP (errIfP c e) f3 s = (if c then Some (Err e, s) else f3 () s)"
  "bindP (\<lambda>s. waitP (w s) s) f4 s = (case w s of None \<Rightarrow> None | Some y \<Rightarrow> f4 y s)"
  by (auto simp: pm_defs sm_defs split: option.splits)

lemma bindP_liftP:
  "bindP (liftP m) f s = (case m s of
     (Ok x, s') \<Rightarrow> f x s' | (Err e, s') \<Rightarrow> Some (Err e, s') | (Oob, s') \<Rightarrow> Some (Oob, s'))"
  by (simp add: bindP_def liftP_def split: prod.splits outcome.splits)

lemma bindP_Some:
  assumes "bindP m f s = Some (r, s')"
  obtains (Ok) x s1 where "m s = Some (Ok x, s1)" "f x s1 = Some (r, s')"
  | (Err) e where "m s = Some (Err e, s')" "r = Err e"
  | (Oob) "m s = Some (Oob, s')" "r = Oob"
  using assms by (auto simp: bindP_def split: option.splits prod.splits outcome.splits)

section \<open>A read touches the user's buffer only\<close>

text \<open>The state behind the chunks of a read: the device and the bytes of the buffer may differ.\<close>

definition read_effect :: "u64 \<Rightarrow> nat \<Rightarrow> 'd kst \<Rightarrow> 'd kst \<Rightarrow> bool" where
  "read_effect ua n k0 k \<longleftrightarrow>
     (\<exists>m. same_kst (set_kmem m k0) k \<and> (\<forall>a. unat (a - ua) \<ge> n \<longrightarrow> m a = mem (kmach k0) a))"

lemma same_kst_set_kmem:
  assumes "same_kst k0 k"
  shows "same_kst (set_kmem m k0) (set_kmem m k)"
proof -
  from assms obtain d where "k = k0\<lparr>fs := (fs k0)\<lparr>dev := d\<rparr>\<rparr>" by (auto simp: same_kst_def)
  then have "set_kmem m k = (set_kmem m k0)\<lparr>fs := (fs (set_kmem m k0))\<lparr>dev := d\<rparr>\<rparr>"
    by (simp add: set_kmem_def set_fmem_def)
  then show ?thesis unfolding same_kst_def by blast
qed

lemma read_effect_refl: "read_effect ua n k k"
  unfolding read_effect_def by (rule exI [of _ "mem (kmach k)"]) simp

lemma read_effect_same: "read_effect ua n k0 k \<Longrightarrow> same_kst k k' \<Longrightarrow> read_effect ua n k0 k'"
  unfolding read_effect_def using same_kst_trans by blast

lemma read_effect_store:
  assumes "read_effect ua n k0 k" and "t + length bs \<le> n" and "n < 2 ^ 64"
  shows "read_effect ua n k0 (set_kmem (wr_bytes (mem (kmach k)) (ua + of_nat t) bs) k)"
proof -
  let ?m = "wr_bytes (mem (kmach k)) (ua + of_nat t) bs"
  from assms(1) obtain m where m: "same_kst (set_kmem m k0) k"
    and out: "\<forall>a. unat (a - ua) \<ge> n \<longrightarrow> m a = mem (kmach k0) a" by (auto simp: read_effect_def)
  have "mem (kmach k) = m" using same_kst_fields(1) [OF m] by simp
  moreover have "?m a = mem (kmach k) a" if a: "unat (a - ua) \<ge> n" for a
  proof -
    have "unat (of_nat t :: u64) = t" using assms(2,3) by simp
    then have "of_nat t \<le> a - ua" using a assms(2) by (simp add: word_le_nat_alt)
    then have "unat (a - ua - of_nat t) = unat (a - ua) - t"
      using \<open>unat (of_nat t :: u64) = t\<close> by (simp add: unat_sub)
    then have "\<not> unat (a - (ua + of_nat t)) < length bs" using a assms(2) by (simp add: algebra_simps)
    then show ?thesis using assms(2,3) by (simp add: wr_bytes_apply)
  qed
  moreover have "same_kst (set_kmem ?m k0) (set_kmem ?m k)"
    using same_kst_set_kmem [OF m, of ?m] by simp
  ultimately show ?thesis using out unfolding read_effect_def by metis
qed

lemma read_chunks_done: "len \<le> t \<Longrightarrow> read_chunks io path off ua len t k = (Ok t, k)"
  by (simp add: read_chunks.simps)

lemma read_chunks_effect:
  assumes "read_chunks io path off ua len t k = (r, k')" and "read_effect ua n k0 k"
    and "t \<le> len" and "len \<le> n" and "n < 2 ^ 64"
  shows "read_effect ua n k0 k' \<and> (\<forall>x. r = Ok x \<longrightarrow> x \<le> len)"
  using assms
proof (induction io path off ua len t k rule: read_chunks.induct)
  case (1 io path off ua len t k)
  show ?case
  proof (cases "t < len")
    case False
    then have "read_chunks io path off ua len t k = (Ok t, k)" by (simp add: read_chunks_done)
    then show ?thesis using 1(2-) by auto
  next
    case True
    let ?chunk = "min (len - t) 2048"
    obtain r1 k1 where rd: "vfs_read_file_range io path (off + of_nat t) (of_nat ?chunk) k = (r1, k1)"
      by fastforce
    have "same_kst k k1" using keepsD [OF keeps_vfs_read, of k k] rd by (metis same_refl(2) snd_conv)
    with 1(3) have e1: "read_effect ua n k0 k1" by (rule read_effect_same)
    show ?thesis
    proof (cases r1)
      case (Ok data)
      have "length data \<le> unat (of_nat ?chunk :: u64)" using vfs_read_length rd Ok by blast
      then have len_data: "length data \<le> ?chunk" by simp
      let ?k2 = "set_kmem (wr_bytes (mem (kmach k1)) (ua + of_nat t) data) k1"
      have t': "t + length data \<le> len" using len_data True by linarith
      then have "t + length data \<le> n" using 1(5) by simp
      then have e2: "read_effect ua n k0 ?k2" using e1 1(6) by (intro read_effect_store)
      note IH = 1(1) [OF True refl rd [symmetric, unfolded Ok] refl _ refl refl]
      show ?thesis
        using 1(2) True rd Ok e1 e2 t' IH 1(5,6)
        by (auto simp: read_chunks.simps [of io path off ua len t] Let_def split: if_splits)
    next
      case (Err e)
      then show ?thesis using 1(2) True rd e1 by (auto simp: read_chunks.simps [of io path off ua len t] Let_def)
    next
      case Oob
      then show ?thesis using 1(2) True rd e1 by (auto simp: read_chunks.simps [of io path off ua len t] Let_def)
    qed
  qed
qed

text \<open>A range check that says yes vouches for every byte; in the last page it never says yes.\<close>

lemma page_loop_last_page:
  assumes "page_loop ok last_page pg = Some r" and "unat last_page = 2 ^ 64 - 4096" and "4096 dvd unat pg"
  shows "\<not> r"
proof -
  have "unat last_page = 2 ^ 64 - 4096 \<longrightarrow> 4096 dvd unat pg \<longrightarrow> \<not> r"
  proof (rule page_loop.raw_induct [where P = "\<lambda>ok l pg r. unat l = 2 ^ 64 - 4096 \<longrightarrow> 4096 dvd unat pg \<longrightarrow> \<not> r",
        OF _ assms(1)], intro impI)
    fix f ok l pg y
    assume IH: "\<And>ok l pg y. f ok l pg = Some y \<Longrightarrow> unat l = 2 ^ 64 - 4096 \<longrightarrow> 4096 dvd unat pg \<longrightarrow> \<not> y"
      and eq: "(if pg \<le> l then if \<not> ok pg then Some False else f ok l (pg + PAGE_SIZE) else Some True) = Some y"
      and l: "unat (l :: u64) = 2 ^ 64 - 4096" and pg: "4096 dvd unat (pg :: u64)"
    from pg obtain q where q: "unat pg = 4096 * q" by (auto simp: dvd_def)
    then have "pg \<le> l" using l unat_u64_less [of pg] by (simp add: word_le_nat_alt)
    moreover have "4096 dvd unat (pg + PAGE_SIZE)"
      using pg by (auto simp: unat_word_ariths PAGE_SIZE_def intro!: dvd_mod dvd_add)
    ultimately show "\<not> y" using eq IH [of ok l "pg + PAGE_SIZE" y] l by (auto split: if_splits)
  qed
  then show ?thesis using assms by blast
qed

lemma user_range_check_True:
  assumes "user_range_check ok addr len = Some True" and "len \<noteq> 0"
  shows "unat addr + unat len + 4096 \<le> 2 ^ 64"
proof (rule ccontr)
  assume big: "\<not> ?thesis"
  have no_wrap: "\<not> addr + len < addr" using assms by (auto simp: user_range_check_def)
  have len: "0 < unat len" using assms(2) by (simp add: unat_gt_0)
  have "unat (addr + len) = unat addr + unat len"
  proof (rule ccontr)
    assume "unat (addr + len) \<noteq> unat addr + unat len"
    then have ge: "unat addr + unat len \<ge> 2 ^ 64" using unat_add_lem [of addr len] by auto
    then have "unat (addr + len) = unat addr + unat len - 2 ^ 64"
      using unat_u64_less [of addr] unat_u64_less [of len] by (simp add: unat_word_ariths mod_if)
    then show False using no_wrap ge unat_u64_less [of len] unfolding word_less_nat_alt by linarith
  qed
  then have last: "unat (addr + len - 1) = unat addr + unat len - 1"
    using len by (subst unat_minus_one) auto
  have al: "unat (x AND NOT (PAGE_SIZE - 1)) = 4096 * (unat x div 4096)" for x
    using unat_align [of x 12] by (simp only: page_align_mask) simp
  have "unat ((addr + len - 1) AND NOT (PAGE_SIZE - 1)) = 2 ^ 64 - 4096"
    using al [of "addr + len - 1"] last big len unat_u64_less [of "addr + len - 1"] by simp
  then show False
    using page_loop_last_page [of ok _ "addr AND NOT (PAGE_SIZE - 1)" True] assms no_wrap al [of addr]
    by (simp add: user_range_check_def Let_def)
qed

lemma range_writable_bytes:
  assumes "vmm_user_range_writable m ua len = Some True" and "unat (a - ua) < unat len"
  shows "vmm_page_user_writable m a"
proof -
  let ?ok = "vmm_page_user_writable m"
  have chk: "user_range_check ?ok ua len = Some True" using assms(1) by (simp add: vmm_user_range_writable_def)
  have "len \<noteq> 0" using assms(2) by auto
  then have "user_range_check ?ok ua len = Some (\<forall>k<len. ?ok (ua + k))"
    using user_range_check_True [OF chk]
    by (intro user_range_check_iff) (simp_all add: vmm_page_user_writable_def vmm_page_has_flags_page)
  then have "\<forall>k<len. ?ok (ua + k)" using chk by simp
  then show ?thesis using assms(2) by (metis add_diff_cancel_left' diff_add_cancel add.commute word_less_nat_alt)
qed

text \<open>The read call, case by case.\<close>

lemma user_fd_sys_read_eq:
  "user_fd_sys_read io fd ua len k =
     (case fd_slot fd k of
        None \<Rightarrow> Some (Err (- EBADF), k)
      | Some idx \<Rightarrow>
          if len > CHASEROS_SYSCALL_MAX_IO_BYTES then Some (Err (- EINVAL), k)
          else if len = 0 then Some (Ok 0, k)
          else (case vmm_user_range_writable (kmach k) ua len of
              None \<Rightarrow> None
            | Some w \<Rightarrow>
                if \<not> w then Some (Err (- EFAULT), k)
                else if uoffset (g_ufd k ! idx) \<ge> usize (g_ufd k ! idx) then Some (Ok 0, k)
                else (let u = g_ufd k ! idx in
                  case read_chunks io (upath u) (uoffset u) ua (min (unat len) (unat (usize u - uoffset u))) 0 k of
                      (Ok t, k1) \<Rightarrow> Some (Ok (int t), k1\<lparr>g_ufd := (g_ufd k1)[idx :=
                        (g_ufd k1 ! idx)\<lparr>uoffset := uoffset u + of_nat t\<rparr>]\<rparr>)
                    | (Err e, k1) \<Rightarrow> Some (Err e, k1)
                    | (Oob, k1) \<Rightarrow> Some (Oob, k1))))"
proof (cases "fd_slot fd k")
  case None
  then show ?thesis by (simp add: user_fd_sys_read_def pm_run)
next
  case (Some idx)
  let ?u = "g_ufd k ! idx"
  obtain r k1 where rd: "read_chunks io (upath ?u) (uoffset ?u) ua (min (unat len) (unat (usize ?u - uoffset ?u))) 0 k = (r, k1)"
    by fastforce
  show ?thesis
    using Some rd
    by (cases r; cases "vmm_user_range_writable (kmach k) ua len")
      (simp_all add: user_fd_sys_read_def pm_run bindP_liftP getS_def modifyS_def)
qed

lemma read_chunks_confined:
  assumes "read_chunks io p off ua (min (unat (len :: u64)) rem) 0 k = (r1, k1)"
  shows "mem (kmach k1) a \<noteq> mem (kmach k) a \<Longrightarrow> unat (a - ua) < unat len"
    and "r1 = Ok x \<Longrightarrow> int x \<le> uint len"
proof -
  have "read_effect ua (unat len) k k1 \<and> (\<forall>x. r1 = Ok x \<longrightarrow> x \<le> min (unat len) rem)"
    by (rule read_chunks_effect [OF assms read_effect_refl]) (use unat_u64_less [of len] in simp_all)
  then obtain m where m: "same_kst (set_kmem m k) k1" "\<forall>a. unat (a - ua) \<ge> unat len \<longrightarrow> m a = mem (kmach k) a"
    and le: "\<forall>x. r1 = Ok x \<longrightarrow> x \<le> unat len" unfolding read_effect_def by fastforce
  have "mem (kmach k1) = m" using same_kst_fields(1) [OF m(1)] by simp
  with m(2) show "mem (kmach k1) a \<noteq> mem (kmach k) a \<Longrightarrow> unat (a - ua) < unat len" using not_le by metis
  from le show "r1 = Ok x \<Longrightarrow> int x \<le> uint len" using of_nat_le_iff [where ?'a = int, of x "unat len"] by simp
qed

text \<open>
  C6: a read system call changes memory only inside the buffer it was given, and every byte it
  changes lies in a page the user may write. The file, its path and the contents of the disk do
  not matter. The value returned is at most the length asked for.
\<close>

theorem user_read_confined:
  assumes "user_fd_sys_read io fd ua len k = Some (r, k')"
  shows "(mem (kmach k') a \<noteq> mem (kmach k) a \<longrightarrow> unat (a - ua) < unat len \<and> vmm_page_user_writable (kmach k) a) \<and>
    (\<forall>n. r = Ok n \<longrightarrow> 0 \<le> n \<and> n \<le> uint len)"
proof -
  show ?thesis
  proof (cases "fd_slot fd k")
    case None
    then show ?thesis using assms by (auto simp: user_fd_sys_read_eq)
  next
    case (Some idx)
    let ?u = "g_ufd k ! idx"
    obtain r1 k1 where rd: "read_chunks io (upath ?u) (uoffset ?u) ua (min (unat len) (unat (usize ?u - uoffset ?u))) 0 k = (r1, k1)"
      by fastforce
    note eq = assms [unfolded user_fd_sys_read_eq Some, simplified]
    show ?thesis
    proof (cases "len > CHASEROS_SYSCALL_MAX_IO_BYTES \<or> len = 0")
      case True
      then show ?thesis using eq by (auto split: if_splits)
    next
      case False
      then obtain w where w: "vmm_user_range_writable (kmach k) ua len = Some w" using eq by (auto split: option.splits)
      show ?thesis
      proof (cases "w \<and> \<not> uoffset ?u \<ge> usize ?u")
        case False
        then show ?thesis using eq w \<open>\<not> (len > CHASEROS_SYSCALL_MAX_IO_BYTES \<or> len = 0)\<close> by (auto split: if_splits)
      next
        case True
        have "mem (kmach k') = mem (kmach k1) \<and> (\<forall>n. r = Ok n \<longrightarrow> (\<exists>t. r1 = Ok t \<and> n = int t))"
          using eq w True \<open>\<not> (len > CHASEROS_SYSCALL_MAX_IO_BYTES \<or> len = 0)\<close> rd by (cases r1) auto
        then show ?thesis using read_chunks_confined [OF rd] range_writable_bytes [of "kmach k" ua len a] w True by auto
      qed
    qed
  qed
qed

lemma demo_kst_simps:
  "kmach demo_kst = demo_tables 0x400087" "mounted demo_kst"
  "vfs_active_vol demo_kst = Some demo_ram"
  "fd_slot 3 demo_kst = Some 0"
  by (simp_all add: demo_kst_def vfs_active_vol_def chaseros_vol_current_def blank_fstate_def demo_ram_def
      fd_slot_def CHASEROS_USER_FD_MIN_def CHASEROS_USER_FD_NUM_def demo_slot_def)

lemma demo_dev_zero: "chaseros_path_normalize ''/dev/zero'' 256 = Some ''/dev/zero''"
  by code_simp

lemma demo_writable: "vmm_user_range_writable (demo_tables 0x400087) 0x400010 4 = Some True"
proof -
  have p: "vmm_page_user_writable (demo_tables 0x400087) 0x400000" by code_simp
  show ?thesis
    by (simp add: vmm_user_range_writable_def user_range_check_def Let_def PAGE_SIZE_def)
      (subst page_loop.simps, simp add: p PAGE_SIZE_def, subst page_loop.simps, simp)
qed

lemma demo_read_zero:
  assumes "vfs_active_vol k = Some v" and "t + n \<le> 4" and "n > 0"
  shows "vfs_read_file_range io ''/dev/zero'' off (of_nat n) k = (Ok (replicate n 0), k)"
  using assms demo_dev_zero
  by (simp add: vfs_read_file_range_def with_path_def sm_defs vfs_devfs_handles_def is_under_dev_def
      vfs_devfs_read_range_def)

lemma demo_read:
  "user_fd_sys_read io 3 0x400010 4 demo_kst = Some (Ok 4,
     (set_kmem (wr_bytes (mem (kmach demo_kst)) 0x400010 [0, 0, 0, 0]) demo_kst)
       \<lparr>g_ufd := (g_ufd demo_kst)[0 := (g_ufd demo_kst ! 0)\<lparr>uoffset := 4\<rparr>]\<rparr>)"
proof -
  have u: "g_ufd demo_kst ! 0 = demo_slot ''/dev/zero'' 0xFFFFFFFF" by (simp add: demo_kst_def)
  have "replicate 4 (0 :: u8) = [0, 0, 0, 0]" by (simp add: numeral_eq_Suc)
  then have rd: "vfs_read_file_range io ''/dev/zero'' 0 4 demo_kst = (Ok [0, 0, 0, 0], demo_kst)"
    using demo_read_zero [of demo_kst _ 0 4 io 0] demo_kst_simps(3) by simp
  have "read_chunks io ''/dev/zero'' 0 0x400010 4 0 demo_kst =
      (Ok 4, set_kmem (wr_bytes (mem (kmach demo_kst)) 0x400010 [0, 0, 0, 0]) demo_kst)"
    by (subst read_chunks.simps) (simp add: rd Let_def read_chunks_done)
  then show ?thesis
    by (simp add: user_fd_sys_read_eq demo_kst_simps demo_writable u demo_slot_def Let_def
        CHASEROS_SYSCALL_MAX_IO_BYTES_def set_kmem_def)
qed

theorem user_read_confined_witness:
  "\<exists>k'. user_fd_sys_read (ata_io 3) 3 0x400010 4 demo_kst = Some (Ok 4, k') \<and> mem (kmach k') 0x400014 = 0"
proof -
  obtain k' where k': "user_fd_sys_read (ata_io 3) 3 0x400010 4 demo_kst = Some (Ok 4, k')"
    using demo_read by blast
  have "mem (demo_tables 0x400087) 0x400014 = 0" by code_simp
  then have "mem (kmach k') 0x400014 = 0"
    using user_read_confined [OF k', of "0x400014"] demo_kst_simps(1) by simp
  with k' show ?thesis by blast
qed

section \<open>Opening, closing, unmounting\<close>

lemma find_upt_Some:
  "List.find P [0..<n] = Some i \<Longrightarrow> i < n \<and> P i \<and> (\<forall>j<i. \<not> P j)"
  by (auto simp: find_Some_iff)

lemma find_upt_None: "List.find P [0..<n] = None \<longleftrightarrow> (\<forall>j<n. \<not> P j)"
  by (auto simp: find_None_iff)

lemma vfs_stat_same:
  assumes "vfs_stat_of io path k = (r, k1)"
  shows "core (fs k1) = core (fs k)" "g_ufd k1 = g_ufd k"
  using same_kst_fields [OF keepsD [OF keeps_vfs_stat same_refl(2)], of io path k] assms by simp_all

text \<open>The descriptor table after an open, and the errors an open can report.\<close>

lemma open_kpath_cases:
  assumes "user_fd_open_kpath io path k = (r, k')"
  obtains (Ok) i n where "r = Ok (CHASEROS_USER_FD_MIN + int i)" "i < CHASEROS_USER_FD_NUM"
      "\<not> valid (g_ufd k ! i)" "\<forall>j<i. valid (g_ufd k ! j)"
      "g_ufd k' = (g_ufd k)[i := \<lparr>valid = True, upath = take 127 path, uoffset = 0, usize = n\<rparr>]"
      "core (fs k') = core (fs k)"
  | (Err) e where "r = Err e" "e \<in> {- EINVAL, - ENOENT, - EMFILE}" "g_ufd k' = g_ufd k" "core (fs k') = core (fs k)"
      "e = - EMFILE \<longrightarrow> (\<forall>j<CHASEROS_USER_FD_NUM. valid (g_ufd k ! j))"
  | (Oob) "r = Oob"
proof (cases "vfs_is_mounted k")
  case False
  then show thesis using assms by (intro Err [of "- EINVAL"]) (auto simp: user_fd_open_kpath_def sm_defs errno_defs)
next
  case True
  obtain r1 k1 where st: "vfs_stat_of io path k = (r1, k1)" by fastforce
  note same = vfs_stat_same [OF st]
  show thesis
  proof (cases r1)
    case Oob
    then show thesis using assms True st by (intro that(3)) (auto simp: user_fd_open_kpath_def sm_defs)
  next
    case (Err e)
    then show thesis using assms True st same
      by (intro that(2) [of "if e = VFS_ERR_NOTMOUNTED then - EINVAL else - ENOENT"])
        (auto simp: user_fd_open_kpath_def sm_defs errno_defs)
  next
    case (Ok st')
    show thesis
    proof (cases "first_free_fd (g_ufd k)")
      case None
      then have "\<forall>j<CHASEROS_USER_FD_NUM. valid (g_ufd k ! j)" by (simp add: first_free_fd_def find_upt_None)
      then show thesis using assms True st Ok same None
        by (intro that(2) [of "- EMFILE"]) (auto simp: user_fd_open_kpath_def sm_defs)
    next
      case (Some i)
      then have "i < CHASEROS_USER_FD_NUM \<and> \<not> valid (g_ufd k ! i) \<and> (\<forall>j<i. valid (g_ufd k ! j))"
        unfolding first_free_fd_def by (auto dest: find_upt_Some)
      then show thesis using assms True st Ok same Some
        by (intro that(1) [of i "if st_size st' > 0xFFFFFFFF then 0xFFFFFFFF else ucast (st_size st')"])
          (auto simp: user_fd_open_kpath_def sm_defs)
    qed
  qed
qed

text \<open>
  C21: opening a file takes the lowest free descriptor, records the path cut to 127 characters
  and leaves every other descriptor alone; once closed, the descriptor is refused by read and
  by a second close.
\<close>

theorem open_close_cycle:
  assumes "length (g_ufd k) = CHASEROS_USER_FD_NUM" and "user_fd_open_kpath io path k = (Ok fd, k1)"
  shows "\<exists>i<CHASEROS_USER_FD_NUM. fd = CHASEROS_USER_FD_MIN + int i \<and>
      \<not> valid (g_ufd k ! i) \<and> (\<forall>j<i. valid (g_ufd k ! j)) \<and>
      valid (g_ufd k1 ! i) \<and> uoffset (g_ufd k1 ! i) = 0 \<and> upath (g_ufd k1 ! i) = take 127 path \<and>
      (\<forall>j<CHASEROS_USER_FD_NUM. j \<noteq> i \<longrightarrow> g_ufd k1 ! j = g_ufd k ! j) \<and>
      (\<exists>k2. user_fd_sys_close fd k1 = (Ok 0, k2) \<and> \<not> valid (g_ufd k2 ! i) \<and>
         user_fd_sys_close fd k2 = (Err (- EBADF), k2) \<and>
         user_fd_sys_read io fd ua len k2 = Some (Err (- EBADF), k2))"
  using assms(2)
proof (cases rule: open_kpath_cases)
  case (Ok i n)
  let ?k2 = "k1\<lparr>g_ufd := (g_ufd k1)[i := (g_ufd k1 ! i)\<lparr>valid := False\<rparr>]\<rparr>"
  have len: "length (g_ufd k1) = CHASEROS_USER_FD_NUM" using Ok assms(1) by simp
  have v: "valid (g_ufd k1 ! i)" using Ok assms(1) by simp
  have slot: "fd_slot fd k1 = Some i" using Ok v by (simp add: fd_slot_def CHASEROS_USER_FD_MIN_def)
  have dead: "fd_slot fd ?k2 = None" using Ok len by (simp add: fd_slot_def CHASEROS_USER_FD_MIN_def)
  have "user_fd_sys_close fd k1 = (Ok 0, ?k2)" using slot by (simp add: user_fd_sys_close_def sm_defs)
  moreover have "user_fd_sys_close fd ?k2 = (Err (- EBADF), ?k2)" using dead by (simp add: user_fd_sys_close_def sm_defs)
  moreover have "user_fd_sys_read io fd ua len ?k2 = Some (Err (- EBADF), ?k2)" using dead by (simp add: user_fd_sys_read_eq)
  moreover have "\<not> valid (g_ufd ?k2 ! i)" using Ok len by simp
  ultimately show ?thesis using Ok assms(1) v by (intro exI [of _ i]) auto
qed simp_all

lemma demo_open: "\<exists>k1. user_fd_open_kpath (ata_io 3) ''/dev/zero'' demo_kst = (Ok 4, k1)"
proof -
  have "vfs_stat_of (ata_io 3) ''/dev/zero'' demo_kst = (Ok \<lparr>st_ino = 3, st_size = 0xFFFFFFFF\<rparr>, demo_kst)"
    using demo_kst_simps(3) demo_dev_zero
    by (simp add: vfs_stat_of_def with_path_def sm_defs vfs_devfs_handles_def is_under_dev_def vfs_devfs_stat_def)
  moreover have "first_free_fd (g_ufd demo_kst) = Some 1"
    by (simp add: first_free_fd_def CHASEROS_USER_FD_NUM_def demo_kst_def demo_slot_def upt_conv_Cons)
  moreover have "vfs_is_mounted demo_kst"
    by (simp add: vfs_is_mounted_def demo_kst_def chaseros_vol_current_def blank_fstate_def demo_ram_def)
  ultimately show ?thesis by (simp add: user_fd_open_kpath_def sm_defs CHASEROS_USER_FD_MIN_def)
qed

theorem open_close_cycle_witness:
  "\<exists>k1. user_fd_open_kpath (ata_io 3) ''/dev/zero'' demo_kst = (Ok 4, k1) \<and> upath (g_ufd k1 ! 1) = ''/dev/zero''"
proof -
  obtain k1 where k1: "user_fd_open_kpath (ata_io 3) ''/dev/zero'' demo_kst = (Ok 4, k1)" using demo_open by blast
  have len: "length (g_ufd demo_kst) = CHASEROS_USER_FD_NUM" by (simp add: demo_kst_def CHASEROS_USER_FD_NUM_def)
  show ?thesis
    using open_close_cycle [OF len k1] k1 by (auto simp: CHASEROS_USER_FD_MIN_def)
qed



section \<open>Opening through the file service\<close>

lemma unpack_pack:
  assumes "- (2 ^ 63) \<le> x" and "x < 2 ^ 63"
  shows "unpack_i64 (put_at 0 (pack_i64 x) bs) = x"
proof -
  have "take 8 (put_at 0 (pack_i64 x) bs) = le_list 8 (of_int x :: u64)"
    by (simp add: put_at_def pack_i64_def)
  then have "unpack_i64 (put_at 0 (pack_i64 x) bs) = sint (of_int x :: u64)"
    by (simp add: unpack_i64_def of_le_le_list_full)
  then show ?thesis using assms by (simp add: sint_sbintrunc' signed_take_bit_int_eq_self)
qed

lemma request_path_open_request:
  assumes "no_nul path"
  shows "request_path (open_request path) = take (MAX_MSG_PAYLOAD - 1) path"
proof -
  let ?p = "take (MAX_MSG_PAYLOAD - 1) path"
  have "take (MAX_MSG_PAYLOAD - 1) (payload (open_request path)) =
      map byte_of_char ?p @ replicate (MAX_MSG_PAYLOAD - 1 - length ?p) 0"
    by (simp add: open_request_def Let_def MAX_MSG_PAYLOAD_def min_def)
  moreover have "char_of_byte 0 = CHR 0x00" by code_simp
  moreover have "\<forall>c \<in> set ?p. c \<noteq> CHR 0x00" using assms in_set_takeD by (fastforce simp: no_nul_def)
  ultimately show ?thesis
    by (simp add: request_path_def comp_def takeWhile_append2 takeWhile_replicate)
qed

text \<open>
  C20: asking the file service to open a path does what opening it directly does, and the value
  unpacked from the reply is the descriptor or the error number. The path is what fits into
  a message: its first 47 characters.
\<close>

theorem hybrid_open_equivalent:
  assumes "no_nul path" and "user_fd_open_kpath io (take (MAX_MSG_PAYLOAD - 1) path) k = (r, k')" and "r \<noteq> Oob"
  shows "\<exists>rep. hybrid_answer io (open_request path) k = (Ok rep, k') \<and> mtype rep = CHASEROS_MSG_FS_REPLY \<and>
    sender rep = CHASEROS_HYBRID_SERVICE_PID \<and>
    unpack_i64 (payload rep) = (case r of Ok fd \<Rightarrow> fd | Err e \<Rightarrow> e | Oob \<Rightarrow> 0)"
proof -
  let ?v = "case r of Ok fd \<Rightarrow> fd | Err e \<Rightarrow> e | Oob \<Rightarrow> 0"
  from assms(2) have "- (2 ^ 63) \<le> ?v \<and> ?v < 2 ^ 63"
    by (cases rule: open_kpath_cases) (auto simp: errno_defs CHASEROS_USER_FD_MIN_def CHASEROS_USER_FD_NUM_def)
  then have "unpack_i64 (put_at 0 (pack_i64 ?v) (replicate MAX_MSG_PAYLOAD 0)) = ?v" using unpack_pack by blast
  moreover have "mtype (open_request path) = CHASEROS_MSG_FS_OPEN" by (simp add: open_request_def Let_def)
  ultimately show ?thesis
    using assms request_path_open_request [OF assms(1)] by (cases r) (auto simp: hybrid_answer_def)
qed

theorem hybrid_open_equivalent_witness:
  "\<exists>rep k'. hybrid_answer (ata_io 3) (open_request ''/dev/zero'') demo_kst = (Ok rep, k') \<and> unpack_i64 (payload rep) = 4"
proof -
  obtain k1 where "user_fd_open_kpath (ata_io 3) ''/dev/zero'' demo_kst = (Ok 4, k1)" using demo_open by blast
  then show ?thesis
    using hybrid_open_equivalent [of "''/dev/zero''" "ata_io 3" demo_kst "Ok 4" k1]
    by (auto simp: no_nul_def MAX_MSG_PAYLOAD_def)
qed

end
