(* ===== verification/Loader.thy ===== *)
theory Loader
  imports Cnaf UserFd
begin

text \<open>
  The package loader, \<open>src/kernel/loader/cndyn_loader.c\<close>, and the launch helpers of
  \<open>src/kernel/user.c\<close>. Entering user mode is the end of a routine: its result is the pair of
  instruction and stack pointer that \<open>iretq\<close> loads. The contents of a destination buffer after
  a failing read are not modelled.
\<close>

definition CNDYN_MAX_FILE_BYTES :: u64 where "CNDYN_MAX_FILE_BYTES = 2 * 1024 * 1024"
definition CNDYN_MAX_HEADER_BYTES :: u32 where "CNDYN_MAX_HEADER_BYTES = 65536"
definition CNDYN_MAX_LOADED_LIBS :: nat where "CNDYN_MAX_LOADED_LIBS = 16"
definition USER_TEXT_BASE :: u64 where "USER_TEXT_BASE = 0x400000"
definition USER_STACK_TOP :: u64 where "USER_STACK_TOP = 0x801008"

definition kputs :: "string \<Rightarrow> ('d kst, unit) sm" where "kputs t = liftFs (putS t)"
definition failWith :: "string \<Rightarrow> ('d kst, unit) sm" where
  "failWith t = bindS (kputs (t @ newline)) (\<lambda>_. failS (-1))"

definition modCore :: "(kcore \<Rightarrow> kcore) \<Rightarrow> 'd kst \<Rightarrow> 'd kst" where
  "modCore f k = k\<lparr>fs := (fs k)\<lparr>core := f (core (fs k))\<rparr>\<rparr>"

definition cndyn_stream_read :: "'d io \<Rightarrow> string \<Rightarrow> u32 \<Rightarrow> u64 \<Rightarrow> u64 \<Rightarrow> ('d kst, u8 list) sm" where
  "cndyn_stream_read io path img_base off len =
     bindS (orElse (vfs_read_file_range io path (img_base + ucast off) len) (-1)) (\<lambda>bs.
     bindS (errIf (length bs \<noteq> unat len) (-1)) (\<lambda>_. retS bs))"

definition str_copy :: "nat \<Rightarrow> string \<Rightarrow> string" where "str_copy cap src = take (cap - 1) src"

text \<open>The copy of a user string without a check of its pages.\<close>

fun user_copy_loop :: "memory \<Rightarrow> u64 \<Rightarrow> nat \<Rightarrow> string option" where
  "user_copy_loop m ua 0 = None"
| "user_copy_loop m ua (Suc n) =
     (let c = char_of_byte (m ua) in
      if c = CHR 0x00 then Some [] else map_option (\<lambda>s. c # s) (user_copy_loop m (ua + 1) n))"

definition user_copy_cstr :: "u64 \<Rightarrow> nat \<Rightarrow> 'd kst \<Rightarrow> string option" where
  "user_copy_cstr user_ptr cap k = user_copy_loop (mem (kmach k)) user_ptr (cap - 1)"

definition load_prefix :: "'d io \<Rightarrow> string \<Rightarrow> ('d kst, u8 list \<times> u64 \<times> cnpkg_file_header) sm" where
  "load_prefix io abs_path =
     bindS (orElse (vfs_stat_of io abs_path) (-1)) (\<lambda>st.
     bindS (errIf (st_size st = 0 \<or> st_size st > CNDYN_MAX_FILE_BYTES) (-1)) (\<lambda>_.
     let first_sz = (if st_size st < 4096 then st_size st else 4096) in
     bindS (orElse (vfs_read_file_range io abs_path 0 first_sz) (-1)) (\<lambda>prefix.
     bindS (errIf (length prefix \<noteq> unat first_sz) (-1)) (\<lambda>_.
     case cnpkg_parse_header_prefix prefix of
       Inl _ \<Rightarrow> failS (-1)
     | Inr h \<Rightarrow> retS (prefix, st_size st, h)))))"

text \<open>
  The whole header: from the 4096-byte prefix when it fits, otherwise read into pages of its
  own. The result is the header, and the address and number of those pages. The tail of the
  prefix behind a shorter file is uninitialised in the source and zero here; a header that
  reaches into it is longer than the file, which the section search refuses first.
\<close>

definition alloc_pages :: "u64 \<Rightarrow> ('d kst, u64) pm" where
  "alloc_pages n k = (case pmm_alloc_contiguous_pages n (kpmm (core (fs k))) of
      None \<Rightarrow> None | Some (a, p) \<Rightarrow> Some (Ok a, modCore (\<lambda>c. c\<lparr>kpmm := p\<rparr>) k))"

definition free_pages :: "u64 \<Rightarrow> u64 \<Rightarrow> 'd kst \<Rightarrow> 'd kst" where
  "free_pages buf pages = modCore (\<lambda>c. c\<lparr>kpmm := pmm_free_contiguous buf pages (kpmm c)\<rparr>)"

definition read_header_full ::
  "'d io \<Rightarrow> string \<Rightarrow> u8 list \<Rightarrow> cnpkg_file_header \<Rightarrow> ('d kst, u8 list \<times> u64 \<times> u64) pm" where
  "read_header_full io abs_path prefix h =
     bindP (errIfP (header_bytes h > CNDYN_MAX_HEADER_BYTES \<or> unat (header_bytes h) < header_size_of) (-1)) (\<lambda>_.
     if header_bytes h \<le> 4096
     then retP (take (unat (header_bytes h)) (prefix @ replicate (4096 - length prefix) 0), 0, 0)
     else let pages = (ucast (header_bytes h) + PAGE_SIZE - 1) div PAGE_SIZE in
       bindP (alloc_pages pages) (\<lambda>buf.
       bindP (errIfP (buf = 0) (-1)) (\<lambda>_.
       liftP (\<lambda>k. case vfs_read_file_range io abs_path 0 (ucast (header_bytes h)) k of
           (Oob, k) \<Rightarrow> (Oob, k)
         | (Ok bs, k) \<Rightarrow>
             if length bs = unat (header_bytes h)
             then bindS (storeM buf bs) (\<lambda>_. retS (bs, buf, pages)) k
             else (Err (-1), free_pages buf pages k)
         | (Err _, k) \<Rightarrow> (Err (-1), free_pages buf pages k)))))"

definition release_header :: "u64 \<Rightarrow> u64 \<Rightarrow> ('d kst, unit) sm" where
  "release_header buf pages =
     modifyS (if pages \<noteq> 0 then free_pages buf pages else id)"

fun parse_u32_loop :: "string \<Rightarrow> u32 \<Rightarrow> u32 option" where
  "parse_u32_loop [] v = Some v"
| "parse_u32_loop (c # s) v =
     (if of_char c < (48 :: nat) \<or> of_char c > (57 :: nat) then None
      else parse_u32_loop s (v * 10 + of_nat (of_char c - 48)))"

definition parse_u32 :: "string \<Rightarrow> u32 option" where
  "parse_u32 s = (if s = [] then None else parse_u32_loop s 0)"

text \<open>
  The list of required libraries, \<open>lib@major.minor\<close> separated by commas: every library has a
  file in the system directory. The major version is parsed and not compared.
\<close>

definition lib_path :: "string \<Rightarrow> string" where
  "lib_path lib = CNPKG_SYS_LIB_DIR @ [slash] @ take (153 - length CNPKG_SYS_LIB_DIR) lib @ ''.cnlk''"

function requires_loop :: "'d io \<Rightarrow> string \<Rightarrow> ('d kst, unit) sm" where
  "requires_loop io s =
     (if s = [] then retS ()
      else let s1 = dropWhile (\<lambda>c. c = CHR '' '' \<or> c = CHR '','') s;
               lib = takeWhile (\<lambda>c. c \<noteq> CHR ''@'' \<and> c \<noteq> CHR '','') s1;
               s2 = drop (length lib) s1 in
        if s2 = [] \<or> hd s2 \<noteq> CHR ''@'' then failS (-1)
        else let s3 = tl s2; maj = takeWhile (\<lambda>c. c \<noteq> CHR ''.'' \<and> c \<noteq> CHR '','') s3;
                 s4 = dropWhile (\<lambda>c. c \<noteq> CHR '','') (drop (length maj) s3) in
          if take 47 lib = [] \<or> take 15 maj = [] then failS (-1)
          else if parse_u32 (take 15 maj) = None then failS (-1)
          else bindS (orElse (vfs_stat_of io (lib_path (take 47 lib))) (-1)) (\<lambda>_. requires_loop io s4))"
  by pat_completeness auto
termination
proof (relation "measure (\<lambda>(io, s). length s)", simp, goal_cases)
  case (1 io s s1 lib s2 s3 maj s4 st)
  have "length s4 \<le> length s3" using 1 by (metis diff_le_self le_trans length_drop length_dropWhile_le)
  moreover have "s2 \<noteq> []" and "s3 = tl s2" using 1 by (blast, blast)
  then have "length s3 < length s2" by (cases s2) simp_all
  moreover have "length s2 \<le> length s1" using 1 by simp
  moreover have "length s1 \<le> length s" using 1 by (simp add: length_dropWhile_le)
  ultimately show ?case by simp
qed

declare requires_loop.simps [simp del]

definition resolve_requires :: "'d io \<Rightarrow> u8 list \<Rightarrow> ('d kst, unit) sm" where
  "resolve_requires io manifest =
     (case cnpkg_manifest_get_value manifest CNPKG_MANIFEST_KEY_REQUIRES 192 of
        None \<Rightarrow> retS ()
      | Some reqs \<Rightarrow> requires_loop io (takeWhile (\<lambda>c. c \<noteq> CHR 0x00) reqs))"

definition grant_user_regions :: "machine \<Rightarrow> machine" where
  "grant_user_regions m =
     vmm_flush_tlb_all (vmm_grant_user_2mb_region (USER_STACK_TOP - 4096) True
       (vmm_grant_user_2mb_region USER_TEXT_BASE False m))"

definition grantK :: "('d kst, unit) sm" where
  "grantK = modifyS (modCore (\<lambda>c. c\<lparr>mach := grant_user_regions (mach c)\<rparr>))"

text \<open>\<open>if (f(...) != 0) { ...; return -1; }\<close>\<close>

definition orFail :: "('d kst, 'a) pm \<Rightarrow> ('d kst, unit) sm \<Rightarrow> ('d kst, 'a) pm" where
  "orFail m alt k = (case m k of
      Some (Err _, k) \<Rightarrow> (case alt k of (Oob, k) \<Rightarrow> Some (Oob, k) | (_, k) \<Rightarrow> Some (Err (-1), k))
    | r \<Rightarrow> r)"

definition sectionsS ::
  "u8 list \<Rightarrow> u64 \<Rightarrow> ('s, (u64 \<times> u64) \<times> (u64 \<times> u64)) sm" where
  "sectionsS hdr file_total =
     (case cnpkg_locate_section hdr file_total CNPKG_SECTION_IMAGE of
        Inl _ \<Rightarrow> failS (-1)
      | Inr img \<Rightarrow>
          (case cnpkg_locate_section hdr file_total CNPKG_SECTION_MANIFEST of
             Inl _ \<Rightarrow> failS (-1) | Inr man \<Rightarrow> retS (img, man)))"

text \<open>A failure that first releases the header pages and prints.\<close>

definition failRel :: "u64 \<Rightarrow> u64 \<Rightarrow> string \<Rightarrow> ('d kst, unit) sm" where
  "failRel buf pages t = bindS (release_header buf pages) (\<lambda>_. failWith t)"

definition cndyn_load_package_for_exec :: "'d io \<Rightarrow> string \<Rightarrow> ('d kst, u64) pm" where
  "cndyn_load_package_for_exec io abs_path =
     bindP (orFail (liftP (bindS (load_prefix io abs_path) (\<lambda>(prefix, fsz, h).
              bindS (errIf (pkg_kind h \<noteq> CNPKG_KIND_PROGRAM) (-1)) (\<lambda>_. retS (prefix, fsz, h)))))
            (failWith ''cnrun: invalid .cnpk'')) (\<lambda>(prefix, fsz, h).
     bindP (orFail (read_header_full io abs_path prefix h)
            (failWith ''cnrun: header read failed'')) (\<lambda>(hdr, buf, pages).
     bindP (orFail (liftP (sectionsS hdr fsz))
            (failRel buf pages ''cnrun: missing section'')) (\<lambda>((image_off, image_sz), (man_off, man_sz)).
     bindP (orFail (errIfP (man_sz > 4096) (-1)) (failRel buf pages ''cnrun: manifest too large'')) (\<lambda>_.
     bindP (orFail (liftP (bindS (vfs_read_file_range io abs_path (ucast man_off) man_sz) (\<lambda>man.
              bindS (errIf (length man \<noteq> unat man_sz) (-1)) (\<lambda>_. retS man))))
            (failRel buf pages ''cnrun: manifest read failed'')) (\<lambda>manifest.
     bindP (orFail (liftP (resolve_requires io manifest))
            (failRel buf pages ''cnrun: dependency/abi check failed'')) (\<lambda>_.
     bindP (liftP (release_header buf pages)) (\<lambda>_.
     bindP (orFail (errIfP (image_off > 0xFFFFFFFF \<or> image_sz > CNDYN_MAX_FILE_BYTES) (-1))
            (failWith ''cnrun: bad image layout'')) (\<lambda>_.
     bindP (liftP grantK) (\<lambda>_.
     orFail (liftP (cnim_load_streaming
              (cndyn_stream_read io (str_copy 256 abs_path) (ucast image_off)) image_sz))
            (failWith ''cnrun: CNIM load failed''))))))))))"

section \<open>Entering user mode\<close>

definition chaseros_user_set_cwd :: "string \<Rightarrow> 'd kst \<Rightarrow> 'd kst" where
  "chaseros_user_set_cwd abs_norm_path k = k\<lparr>g_user_cwd := take 255 abs_norm_path\<rparr>"

definition chaseros_user_get_cwd :: "'d kst \<Rightarrow> string" where "chaseros_user_get_cwd k = g_user_cwd k"

definition chaseros_user_jump_ring3 :: "'d io \<Rightarrow> u64 \<Rightarrow> u64 \<Rightarrow> ('d kst, u64 \<times> u64) sm" where
  "chaseros_user_jump_ring3 io ip sp =
     bindS (liftFs (liftDev (outb io 0x20 0x20))) (\<lambda>_. retS (ip, sp))"

text \<open>The slot of the user process, its descriptors and its working directory.\<close>

definition enter_user_slot :: "('d kst, unit) sm" where
  "enter_user_slot =
     modifyS (\<lambda>k.
       let k = modCore (\<lambda>c. process_bind_user_slot 2 (c\<lparr>chaseros_active_user_pid := 2\<rparr>)) k;
           k = user_fd_reset k
       in chaseros_user_set_cwd (shell_cwd k) k)"

definition cndyn_run_package_from_path :: "'d io \<Rightarrow> string \<Rightarrow> ('d kst, u64 \<times> u64) pm" where
  "cndyn_run_package_from_path io abs_path =
     bindP (orFail (cndyn_load_package_for_exec io abs_path) (retS ())) (\<lambda>entry.
     bindP (liftP enter_user_slot) (\<lambda>_.
     bindP (liftP (kputs (''[kernel] jumping to user (CNPK/CNIM, ring 3)...'' @ newline))) (\<lambda>_.
     liftP (chaseros_user_jump_ring3 io entry 0x801008))))"

definition embedded_sections :: "u8 list \<Rightarrow> ('s, u8 list \<times> u8 list) sm" where
  "embedded_sections blob =
     (case cnpkg_extract_section blob CNPKG_SECTION_IMAGE of
        Inl _ \<Rightarrow> failS (-1)
      | Inr img \<Rightarrow>
          (case cnpkg_extract_section blob CNPKG_SECTION_MANIFEST of
             Inl _ \<Rightarrow> failS (-1) | Inr man \<Rightarrow> retS (img, man)))"

definition cndyn_run_embedded_package :: "'d io \<Rightarrow> u8 list \<Rightarrow> string \<Rightarrow> ('d kst, u64 \<times> u64) pm" where
  "cndyn_run_embedded_package io blob tag =
     bindP (orFail (liftP (embedded_sections blob))
            (failWith ''cnrun: embedded package invalid'')) (\<lambda>(img, manifest).
     bindP (orFail (liftP (resolve_requires io manifest))
            (failWith ''cnrun: embedded dependency check failed'')) (\<lambda>_.
     bindP (liftP grantK) (\<lambda>_.
     bindP (orFail (liftP (cnim_load_flat img))
            (failWith ''cnrun: embedded CNIM load failed'')) (\<lambda>entry.
     bindP (liftP enter_user_slot) (\<lambda>_.
     bindP (liftP (kputs (''[kernel] jumping to user ('' @ tag @ '', ring 3)...'' @ newline))) (\<lambda>_.
     liftP (chaseros_user_jump_ring3 io entry 0x801008)))))))"

definition user_run_embedded_elf :: "'d io \<Rightarrow> u8 list \<Rightarrow> string \<Rightarrow> ('d kst, u64 \<times> u64) pm" where
  "user_run_embedded_elf io blob tag =
     bindP (liftP grantK) (\<lambda>_.
     bindP (orFail (liftP (elf_load_flat blob))
            (failWith (''user: embedded ELF load failed ('' @ tag @ '')''))) (\<lambda>entry.
     bindP (liftP enter_user_slot) (\<lambda>_.
     bindP (liftP (kputs (''[kernel] jumping to user ('' @ tag @ '', ring 3)...'' @ newline))) (\<lambda>_.
     liftP (chaseros_user_jump_ring3 io entry USER_STACK_TOP)))))"

text \<open>The embedded files are build products: \<open>hello\<close> and \<open>demo\<close> are their bytes. The Slime program
  is a build option that is off by default.\<close>

definition user_run_embedded_hello :: "'d io \<Rightarrow> u8 list \<Rightarrow> ('d kst, u64 \<times> u64) pm" where
  "user_run_embedded_hello io hello = user_run_embedded_elf io hello ''C hello''"

definition user_run_embedded_slime_hello :: "('d kst, unit) sm" where
  "user_run_embedded_slime_hello =
     kputs (''Slime user ELF not embedded. Reconfigure with -DCHASEROS_WITH_SLIME_USER=ON (needs slimec in PATH).'' @ newline)"

definition user_run_embedded_demo_cnaf :: "'d io \<Rightarrow> u8 list \<Rightarrow> ('d kst, u64 \<times> u64) pm" where
  "user_run_embedded_demo_cnaf io demo =
     cndyn_run_embedded_package io demo ''embedded demo.cnpk (C hello IMAGE)''"

definition user_run_cnaf_from_path_streaming :: "'d io \<Rightarrow> string \<Rightarrow> ('d kst, u64 \<times> u64) pm" where
  "user_run_cnaf_from_path_streaming io abs_path = cndyn_run_package_from_path io abs_path"

definition user_run_cnaf_from_owned_pages :: "'d io \<Rightarrow> u8 list \<Rightarrow> u64 \<Rightarrow> string \<Rightarrow> ('d kst, u64 \<times> u64) pm" where
  "user_run_cnaf_from_owned_pages io blob blob_pages tag = cndyn_run_embedded_package io blob tag"

section \<open>Loaded libraries\<close>

definition lib_find :: "(cndyn_lib_slot \<Rightarrow> bool) \<Rightarrow> 'd kst \<Rightarrow> nat option" where
  "lib_find P k = List.find (\<lambda>i. P (g_libs k ! i)) [0..<CNDYN_MAX_LOADED_LIBS]"

definition cndyn_dlopen :: "u64 \<Rightarrow> 'd kst \<Rightarrow> int \<times> 'd kst" where
  "cndyn_dlopen user_path_ptr k =
     (case user_copy_cstr user_path_ptr 192 k of
        None \<Rightarrow> (-1, k)
      | Some path \<Rightarrow>
          (case lib_find (\<lambda>l. used l \<and> str_eq (soname l) path) k of
             Some i \<Rightarrow> (int i + 1, k)
           | None \<Rightarrow>
               (case lib_find (\<lambda>l. \<not> used l) k of
                  None \<Rightarrow> (-1, k)
                | Some i \<Rightarrow> (int i + 1, k\<lparr>g_libs := (g_libs k)[i :=
                    \<lparr>soname = str_copy 64 path, abi_major = 1, abi_minor = 0, lib_base = 0, used = True\<rparr>]\<rparr>))))"

definition cndyn_dlsym :: "u64 \<Rightarrow> u64 \<Rightarrow> 'd kst \<Rightarrow> int" where
  "cndyn_dlsym handle user_symbol_ptr k =
     (if handle = 0 \<or> handle > of_nat CNDYN_MAX_LOADED_LIBS then -1
      else if \<not> used (g_libs k ! unat (handle - 1)) then -1 else 0)"

definition cndyn_dlclose :: "u64 \<Rightarrow> 'd kst \<Rightarrow> int \<times> 'd kst" where
  "cndyn_dlclose handle k =
     (if handle = 0 \<or> handle > of_nat CNDYN_MAX_LOADED_LIBS then (-1, k)
      else (0, k\<lparr>g_libs := (g_libs k)[unat (handle - 1) := (g_libs k ! unat (handle - 1))\<lparr>used := False\<rparr>]\<rparr>))"

end
