(* ===== verification/Isr.thy ===== *)
theory Isr
  imports Loader
begin

text \<open>
  Interrupts and system calls: \<open>src/kernel/interrupts.asm\<close>, \<open>src/kernel/isr.c\<close> and the process
  calls of \<open>src/kernel/loader/user_exec.c\<close>. A handler returns the saved registers; \<open>None\<close> means
  that it never returns. The keyboard handler calls the shell, which is a parameter. The
  address of \<open>userland_exit_done\<close> is a parameter as well.
\<close>

record registers =
  reg_rdi :: u64
  reg_rsi :: u64
  reg_rdx :: u64
  reg_rax :: u64
  int_no :: u64
  err_code :: u64
  reg_rip :: u64
  reg_cs :: u64
  reg_rflags :: u64
  reg_rsp :: u64
  reg_ss :: u64

section \<open>Process calls\<close>

definition USER_EXEC_STACK_TOP :: u64 where "USER_EXEC_STACK_TOP = 0x801008"

definition kcur :: "'d kst \<Rightarrow> kcore" where "kcur k = core (fs k)"

definition process_current_user_or_kernel :: "kcore \<Rightarrow> nat" where
  "process_current_user_or_kernel k =
     (case process_find_by_pid (chaseros_active_user_pid k) k of Some u \<Rightarrow> u | None \<Rightarrow> get_current_process k)"

definition resolve_user_path :: "u64 \<Rightarrow> ('d kst, string) pm" where
  "resolve_user_path user_path_ptr =
     bindP (copy_user_path 160 user_path_ptr) (\<lambda>rel.
     bindP (liftP (getS vfs_is_mounted)) (\<lambda>m.
     bindP (errIfP (\<not> m) (- EINVAL)) (\<lambda>_.
     bindP (liftP (getS g_user_cwd)) (\<lambda>cwd.
     case vfs_resolve_path cwd rel 256 of None \<Rightarrow> failP (- EINVAL) | Some path \<Rightarrow> retP path))))"

definition modTask :: "nat \<Rightarrow> (proc \<Rightarrow> proc) \<Rightarrow> ('d kst, unit) pm" where
  "modTask i f = liftP (modifyS (modCore (upd_task i f)))"

definition user_sys_spawn :: "'d io \<Rightarrow> u64 \<Rightarrow> ('d kst, int) pm" where
  "user_sys_spawn io user_path_ptr =
     bindP (liftP (getS (\<lambda>k. process_current_user_or_kernel (kcur k)))) (\<lambda>parent.
     bindP (resolve_user_path user_path_ptr) (\<lambda>path.
     bindP (liftCore (\<lambda>c. Some (process_alloc_user (pid (task c parent)) c))) (\<lambda>r.
     case r of
       None \<Rightarrow> failP (- EAGAIN)
     | Some child \<Rightarrow>
         bindP (\<lambda>k. case cndyn_load_package_for_exec io path k of
             Some (Err _, k) \<Rightarrow> bindP (modTask child (\<lambda>t. t\<lparr>state := PROC_STATE_FREE\<rparr>)) (\<lambda>_. failP (- ENOENT)) k
           | r \<Rightarrow> r) (\<lambda>entry.
         bindP (modTask child (\<lambda>t. t\<lparr>user_entry := entry, user_stack_top := USER_EXEC_STACK_TOP\<rparr>)) (\<lambda>_.
         bindP (liftP (modifyS (modCore (process_mark_exit (Some child) 0)))) (\<lambda>_.
         liftP (getS (\<lambda>k. sint (pid (task (kcur k) child))))))))))"

definition user_sys_exec :: "'d io \<Rightarrow> u64 \<Rightarrow> registers \<Rightarrow> ('d kst, int \<times> registers) pm" where
  "user_sys_exec io user_path_ptr regs =
     bindP (resolve_user_path user_path_ptr) (\<lambda>path.
     bindP (\<lambda>k. case cndyn_load_package_for_exec io path k of
         Some (Err _, k) \<Rightarrow> Some (Err (- ENOENT), k)
       | r \<Rightarrow> r) (\<lambda>entry.
     retP (0, regs\<lparr>reg_rip := entry, reg_rsp := USER_EXEC_STACK_TOP, reg_rax := 0\<rparr>)))"

text \<open>\<open>while (cur->state == PROC_STATE_BLOCKED) sched_yield();\<close>\<close>

partial_function (option) wait_loop :: "nat \<Rightarrow> kcore \<Rightarrow> kcore option" where
  "wait_loop cur k =
     (if state (task k cur) = PROC_STATE_BLOCKED then wait_loop cur (sched_yield k) else Some k)"

definition put_status :: "u64 \<Rightarrow> int \<Rightarrow> ('d kst, unit) pm" where
  "put_status user_status_ptr status =
     (if user_status_ptr = 0 then retP ()
      else bindP (\<lambda>k. waitP (vmm_user_range_writable (kmach k) user_status_ptr 4) k) (\<lambda>w.
           bindP (errIfP (\<not> w) (- EFAULT)) (\<lambda>_.
           liftP (storeM user_status_ptr (le_list 4 (of_int status :: u32))))))"

definition user_sys_waitpid :: "int \<Rightarrow> u64 \<Rightarrow> ('d kst, int) pm" where
  "user_sys_waitpid target_pid user_status_ptr =
     bindP (liftP (getS (\<lambda>k. process_current_user_or_kernel (kcur k)))) (\<lambda>cur.
     bindP (errIfP (target_pid < -1) (- EINVAL)) (\<lambda>_.
     let target = (if target_pid \<le> 0 then 0 else of_int target_pid :: u64) in
     bindP (liftCore (\<lambda>c. Some (process_reap_child (Some cur) target c))) (\<lambda>r.
     case r of
       Some (got_pid, got_status) \<Rightarrow>
         bindP (put_status user_status_ptr got_status) (\<lambda>_. retP (sint got_pid))
     | None \<Rightarrow>
         bindP (modTask cur (\<lambda>t. t\<lparr>wait_target := target, state := PROC_STATE_BLOCKED\<rparr>)) (\<lambda>_.
         bindP (liftCore (\<lambda>c. map_option (\<lambda>c. ((), c)) (wait_loop cur c))) (\<lambda>_.
         bindP (liftP (getS (\<lambda>k. task (kcur k) cur))) (\<lambda>t.
         bindP (errIfP (wait_result_pid t = 0) (- EINVAL)) (\<lambda>_.
         bindP (modTask cur (\<lambda>t. t\<lparr>wait_result_pid := 0, wait_result_status := 0\<rparr>)) (\<lambda>_.
         bindP (liftCore (\<lambda>c. Some (process_reap_child (Some cur) (wait_result_pid t) c))) (\<lambda>_.
         bindP (put_status user_status_ptr (wait_result_status t)) (\<lambda>_.
         retP (sint (wait_result_pid t)))))))))))) "

text \<open>The stack page for the exit path is allocated once.\<close>

definition user_on_syscall_exit :: "u64 \<Rightarrow> registers \<Rightarrow> ('d kst, registers) sm" where
  "user_on_syscall_exit exit_done regs =
     bindS (\<lambda>k. if exit_stk k \<noteq> 0 then (Ok (), k)
                else case pmm_alloc_page (kpmm (kcur k)) of
                    (a, p) \<Rightarrow> (Ok (), (modCore (\<lambda>c. c\<lparr>kpmm := p\<rparr>) k)\<lparr>exit_stk := a\<rparr>)) (\<lambda>_.
     bindS (getS exit_stk) (\<lambda>stk.
     retS (regs\<lparr>reg_rip := exit_done, reg_cs := 0x08, reg_ss := 0x10, reg_rsp := stk + 4096,
                reg_rflags := 0x202\<rparr>)))"

definition user_sys__exit :: "u64 \<Rightarrow> int \<Rightarrow> registers \<Rightarrow> ('d kst, int \<times> registers) sm" where
  "user_sys__exit exit_done code regs =
     bindS (modifyS (\<lambda>k. modCore (process_mark_exit (Some (process_current_user_or_kernel (kcur k)))
              (sint (of_int code :: i32))) k)) (\<lambda>_.
     bindS (user_on_syscall_exit exit_done regs) (\<lambda>regs. retS (0, regs)))"

definition user_sys_fork :: "registers \<Rightarrow> ('d kst, int) pm" where
  "user_sys_fork regs =
     bindP (liftP (getS (\<lambda>k. process_current_user_or_kernel (kcur k)))) (\<lambda>cur.
     bindP (liftCore (\<lambda>c. Some (process_alloc_user (pid (task c cur)) c))) (\<lambda>r.
     case r of
       None \<Rightarrow> failP (- EAGAIN)
     | Some child \<Rightarrow>
         bindP (\<lambda>k. modTask child (\<lambda>t. t\<lparr>pml4_phys := pml4_phys (task (kcur k) cur), vm_flags := 1,
             user_entry := reg_rip regs, user_stack_top := reg_rsp regs\<rparr>) k) (\<lambda>_.
         liftP (getS (\<lambda>k. sint (pid (task (kcur k) child)))))))"

section \<open>Messages of user programs\<close>

definition message_size :: u64 where "message_size = 64"

definition message_of_bytes :: "u8 list \<Rightarrow> message" where
  "message_of_bytes bs = \<lparr>sender = get64 0 bs, mtype = get64 8 bs, payload = get_at 16 MAX_MSG_PAYLOAD bs\<rparr>"

definition bytes_of_message :: "message \<Rightarrow> u8 list" where
  "bytes_of_message m = le_list 8 (sender m) @ le_list 8 (mtype m) @ payload m"

definition user_copy_message_in :: "u64 \<Rightarrow> ('d kst, message) sm" where
  "user_copy_message_in user_va = getS (\<lambda>k. message_of_bytes (rd_bytes (mem (kmach k)) user_va 64))"

definition user_copy_message_out :: "message \<Rightarrow> u64 \<Rightarrow> ('d kst, unit) sm" where
  "user_copy_message_out m user_va = storeM user_va (bytes_of_message m)"

definition readableP :: "u64 \<Rightarrow> u64 \<Rightarrow> ('d kst, bool) pm" where
  "readableP ua len k = waitP (vmm_user_range_readable (kmach k) ua len) k"

definition writableP :: "u64 \<Rightarrow> u64 \<Rightarrow> ('d kst, bool) pm" where
  "writableP ua len k = waitP (vmm_user_range_writable (kmach k) ua len) k"

definition sys_write :: "registers \<Rightarrow> ('d kst, int) pm" where
  "sys_write regs =
     (let fd = sint (ucast (reg_rdi regs) :: i32); buf_addr = reg_rsi regs; len = reg_rdx regs in
      bindP (errIfP (fd \<noteq> 1 \<and> fd \<noteq> 2) (- EBADF)) (\<lambda>_.
      if len = 0 then retP 0
      else bindP (errIfP (len > CHASEROS_SYSCALL_MAX_IO_BYTES) (- EINVAL)) (\<lambda>_.
           bindP (readableP buf_addr len) (\<lambda>r.
           bindP (errIfP (\<not> r) (- EFAULT)) (\<lambda>_.
           bindP (liftP (\<lambda>k. kputs (map char_of_byte (rd_bytes (mem (kmach k)) buf_addr (unat len))) k)) (\<lambda>_.
           retP (int (unat len))))))))"

definition sys_read :: "'d io \<Rightarrow> registers \<Rightarrow> ('d kst, int) pm" where
  "sys_read io regs =
     (let fd = sint (ucast (reg_rdi regs) :: i32); buf_addr = reg_rsi regs; len = reg_rdx regs in
      if fd = 0
      then if len = 0 then retP 0
           else bindP (errIfP (len > CHASEROS_SYSCALL_MAX_IO_BYTES) (- EINVAL)) (\<lambda>_.
                bindP (writableP buf_addr len) (\<lambda>w.
                bindP (errIfP (\<not> w) (- EFAULT)) (\<lambda>_. retP 0)))
      else if fd = 1 \<or> fd = 2 then failP (- EBADF)
      else if fd \<ge> 3 then user_fd_sys_read io fd buf_addr len
      else failP (- EBADF))"

definition sys_ipc_send :: "registers \<Rightarrow> ('d kst, int) pm" where
  "sys_ipc_send regs =
     bindP (readableP (reg_rsi regs) message_size) (\<lambda>r.
     bindP (errIfP (\<not> r) (- EFAULT)) (\<lambda>_.
     bindP (liftP (user_copy_message_in (reg_rsi regs))) (\<lambda>m.
     bindP (liftCore (ipc_send (reg_rdi regs) (Some m))) (\<lambda>r.
     if r = IPC_OK then retP 0 else failP (- EINVAL)))))"

definition sys_ipc_recv :: "(kcore \<Rightarrow> kcore) list \<Rightarrow> registers \<Rightarrow> ('d kst, int) pm" where
  "sys_ipc_recv irqs regs =
     bindP (writableP (reg_rsi regs) message_size) (\<lambda>w.
     bindP (errIfP (\<not> w) (- EFAULT)) (\<lambda>_.
     bindP (liftCore (\<lambda>c. case ipc_receive (reg_rdi regs) irqs c of
         Some (Some m, c) \<Rightarrow> Some (m, c) | _ \<Rightarrow> None)) (\<lambda>m.
     bindP (liftP (user_copy_message_out m (reg_rsi regs))) (\<lambda>_. retP 0))))"

definition sys_ipc_reply :: "registers \<Rightarrow> ('d kst, int) pm" where
  "sys_ipc_reply regs =
     bindP (readableP (reg_rsi regs) message_size) (\<lambda>r.
     bindP (errIfP (\<not> r) (- EFAULT)) (\<lambda>_.
     bindP (liftP (user_copy_message_in (reg_rsi regs))) (\<lambda>m.
     bindP (liftCore (\<lambda>c. Some (ipc_reply (reg_rdi regs) (Some m) c))) (\<lambda>r.
     if r = IPC_OK then retP 0 else failP (- EINVAL)))))"

definition sys_ipc_call :: "(kcore \<Rightarrow> kcore) list \<Rightarrow> registers \<Rightarrow> ('d kst, int) pm" where
  "sys_ipc_call irqs regs =
     bindP (readableP (reg_rsi regs) message_size) (\<lambda>r.
     bindP (errIfP (\<not> r) (- EFAULT)) (\<lambda>_.
     bindP (writableP (reg_rdx regs) message_size) (\<lambda>w.
     bindP (errIfP (\<not> w) (- EFAULT)) (\<lambda>_.
     bindP (liftP (user_copy_message_in (reg_rsi regs))) (\<lambda>m.
     bindP (liftCore (ipc_send (reg_rdi regs) (Some m))) (\<lambda>r.
     bindP (errIfP (r \<noteq> IPC_OK) (- EINVAL)) (\<lambda>_.
     bindP (liftCore (\<lambda>c. let cur = process_current_task_for_ipc c in
       map_option (ipc_consume_pending_message cur) (ipc_wait_until_pending cur irqs c))) (\<lambda>rep.
     bindP (liftP (user_copy_message_out rep (reg_rdx regs))) (\<lambda>_. retP 0)))))))))"


section \<open>The dispatcher\<close>

definition CHASEROS_SYS_EXIT :: u64 where "CHASEROS_SYS_EXIT = 0"
definition CHASEROS_SYS_WRITE :: u64 where "CHASEROS_SYS_WRITE = 1"
definition CHASEROS_SYS_GETPID :: u64 where "CHASEROS_SYS_GETPID = 2"
definition CHASEROS_SYS_READ :: u64 where "CHASEROS_SYS_READ = 3"
definition CHASEROS_SYS_UPTIME_TICKS :: u64 where "CHASEROS_SYS_UPTIME_TICKS = 4"
definition CHASEROS_SYS_OPEN :: u64 where "CHASEROS_SYS_OPEN = 5"
definition CHASEROS_SYS_CLOSE :: u64 where "CHASEROS_SYS_CLOSE = 6"
definition CHASEROS_SYS_IPC_SEND :: u64 where "CHASEROS_SYS_IPC_SEND = 7"
definition CHASEROS_SYS_IPC_RECV :: u64 where "CHASEROS_SYS_IPC_RECV = 8"
definition CHASEROS_SYS_IPC_REPLY :: u64 where "CHASEROS_SYS_IPC_REPLY = 9"
definition CHASEROS_SYS_IPC_CALL :: u64 where "CHASEROS_SYS_IPC_CALL = 10"
definition CHASEROS_SYS_DLOPEN :: u64 where "CHASEROS_SYS_DLOPEN = 11"
definition CHASEROS_SYS_DLSYM :: u64 where "CHASEROS_SYS_DLSYM = 12"
definition CHASEROS_SYS_DLCLOSE :: u64 where "CHASEROS_SYS_DLCLOSE = 13"
definition CHASEROS_SYS_SPAWN :: u64 where "CHASEROS_SYS_SPAWN = 14"
definition CHASEROS_SYS_EXEC :: u64 where "CHASEROS_SYS_EXEC = 15"
definition CHASEROS_SYS_WAITPID :: u64 where "CHASEROS_SYS_WAITPID = 16"
definition CHASEROS_SYS__EXIT :: u64 where "CHASEROS_SYS__EXIT = 17"
definition CHASEROS_SYS_FORK :: u64 where "CHASEROS_SYS_FORK = 18"

lemmas sys_numbers =
  CHASEROS_SYS_EXIT_def CHASEROS_SYS_WRITE_def CHASEROS_SYS_GETPID_def CHASEROS_SYS_READ_def
  CHASEROS_SYS_UPTIME_TICKS_def CHASEROS_SYS_OPEN_def CHASEROS_SYS_CLOSE_def CHASEROS_SYS_IPC_SEND_def
  CHASEROS_SYS_IPC_RECV_def CHASEROS_SYS_IPC_REPLY_def CHASEROS_SYS_IPC_CALL_def
  CHASEROS_SYS_DLOPEN_def CHASEROS_SYS_DLSYM_def CHASEROS_SYS_DLCLOSE_def CHASEROS_SYS_SPAWN_def
  CHASEROS_SYS_EXEC_def CHASEROS_SYS_WAITPID_def CHASEROS_SYS__EXIT_def CHASEROS_SYS_FORK_def

definition syscall_ret :: "registers \<Rightarrow> int \<Rightarrow> registers" where
  "syscall_ret regs value = regs\<lparr>reg_rax := of_int value\<rparr>"

text \<open>A call whose result goes to \<open>rax\<close>: the value or the negative error number.\<close>

definition retReg :: "registers \<Rightarrow> ('d kst, int) pm \<Rightarrow> ('d kst, registers) pm" where
  "retReg regs m k = (case m k of
      None \<Rightarrow> None
    | Some (Ok v, k) \<Rightarrow> Some (Ok (syscall_ret regs v), k)
    | Some (Err e, k) \<Rightarrow> Some (Ok (syscall_ret regs e), k)
    | Some (Oob, k) \<Rightarrow> Some (Oob, k))"

definition retRegs :: "registers \<Rightarrow> ('d kst, int \<times> registers) pm \<Rightarrow> ('d kst, registers) pm" where
  "retRegs regs m k = (case m k of
      None \<Rightarrow> None
    | Some (Ok (v, regs'), k) \<Rightarrow> Some (Ok (syscall_ret regs' v), k)
    | Some (Err e, k) \<Rightarrow> Some (Ok (syscall_ret regs e), k)
    | Some (Oob, k) \<Rightarrow> Some (Oob, k))"

text \<open>
  What the handler depends on besides the state: the ports, the build option, the interrupts
  that arrive while a call waits, the address of \<open>userland_exit_done\<close>, the value of \<open>cr2\<close>, and
  the shell.
\<close>

record 'd env =
  ports :: "'d io"
  via_ipc :: bool
  irqs :: "(kcore \<Rightarrow> kcore) list"
  exit_done :: u64
  cr2 :: u64
  shell_handle_input :: "char \<Rightarrow> ('d kst, unit) pm"

definition intP :: "('d kst \<Rightarrow> int \<times> 'd kst) \<Rightarrow> ('d kst, int) pm" where
  "intP f k = (case f k of (v, k) \<Rightarrow> Some (Ok v, k))"

definition syscall :: "'d env \<Rightarrow> registers \<Rightarrow> ('d kst, registers) pm" where
  "syscall e regs =
     (let n = reg_rax regs; io = ports e; ret = retReg regs in
      if n = CHASEROS_SYS_EXIT \<or> n = CHASEROS_SYS__EXIT
      then retRegs regs (liftP (user_sys__exit (exit_done e) (sint (reg_rdi regs)) regs))
      else if n = CHASEROS_SYS_WRITE then ret (sys_write regs)
      else if n = CHASEROS_SYS_GETPID
      then ret (liftP (getS (\<lambda>k. sint (chaseros_active_user_pid (kcur k)))))
      else if n = CHASEROS_SYS_UPTIME_TICKS then ret (liftP (getS (\<lambda>k. sint (chaseros_kernel_ticks k))))
      else if n = CHASEROS_SYS_READ then ret (sys_read io regs)
      else if n = CHASEROS_SYS_OPEN then ret (user_fd_sys_open (via_ipc e) io (irqs e) (reg_rdi regs))
      else if n = CHASEROS_SYS_CLOSE
      then ret (liftP (user_fd_sys_close (sint (ucast (reg_rdi regs) :: i32))))
      else if n = CHASEROS_SYS_IPC_SEND then ret (sys_ipc_send regs)
      else if n = CHASEROS_SYS_IPC_RECV then ret (sys_ipc_recv (irqs e) regs)
      else if n = CHASEROS_SYS_IPC_REPLY then ret (sys_ipc_reply regs)
      else if n = CHASEROS_SYS_IPC_CALL then ret (sys_ipc_call (irqs e) regs)
      else if n = CHASEROS_SYS_DLOPEN then ret (intP (cndyn_dlopen (reg_rdi regs)))
      else if n = CHASEROS_SYS_DLSYM
      then ret (liftP (getS (cndyn_dlsym (reg_rdi regs) (reg_rsi regs))))
      else if n = CHASEROS_SYS_DLCLOSE then ret (intP (cndyn_dlclose (reg_rdi regs)))
      else if n = CHASEROS_SYS_SPAWN then ret (user_sys_spawn io (reg_rdi regs))
      else if n = CHASEROS_SYS_EXEC then retRegs regs (user_sys_exec io (reg_rdi regs) regs)
      else if n = CHASEROS_SYS_WAITPID then ret (user_sys_waitpid (sint (reg_rdi regs)) (reg_rsi regs))
      else if n = CHASEROS_SYS_FORK then ret (user_sys_fork regs)
      else ret (failP (- ENOSYS)))"

definition nul :: char where "nul = CHR 0x00"

definition scancode_ascii :: string where
  "scancode_ascii =
     [nul, CHR 0x1B] @ ''1234567890-='' @ [CHR 0x08, CHR 0x09] @ ''qwertyuiop[]'' @ [CHR 0x0A, nul] @
     ''asdfghjkl;'' @ [CHR 0x27, CHR 0x60, nul, CHR 0x5C] @ ''zxcvbnm,./'' @ [nul, CHR ''*'', nul, CHR '' '']"

definition keyboard_irq :: "'d env \<Rightarrow> ('d kst, unit) pm" where
  "keyboard_irq e =
     bindP (liftP (liftFs (liftDev (inb (ports e) 0x60)))) (\<lambda>scancode.
     if scancode < 0x80 \<and> unat scancode < length scancode_ascii
     then let c = scancode_ascii ! unat scancode in
          if c \<noteq> nul then shell_handle_input e c else retP ()
     else retP ())"

definition irq_handler :: "'d env \<Rightarrow> u64 \<Rightarrow> ('d kst, unit) pm" where
  "irq_handler e n =
     bindP
       (if n = 32
        then liftP (modifyS (\<lambda>k. modCore sched_on_timer_tick
               (k\<lparr>chaseros_kernel_ticks := chaseros_kernel_ticks k + 1\<rparr>)))
        else if n = 33 then keyboard_irq e
        else if n = 44 then bindP (liftP (liftFs (liftDev (inb (ports e) 0x60)))) (\<lambda>_. retP ())
        else retP ()) (\<lambda>_.
     bindP (if n \<ge> 40 then liftP (liftFs (liftDev (outb (ports e) 0xA0 0x20))) else retP ()) (\<lambda>_.
     liftP (liftFs (liftDev (outb (ports e) 0x20 0x20)))))"

definition exception_text :: "registers \<Rightarrow> string" where
  "exception_text regs =
     newline @ ''!!! CPU EXCEPTION !!!'' @ newline @ ''Exception Number: '' @
     [hex_digit (int_no regs div 16), hex_digit (int_no regs mod 16)] @
     newline @ ''Error Code: '' @ puts_hex (err_code regs) @ newline @ ''RIP: '' @ puts_hex (reg_rip regs) @
     newline @ ''CS: '' @ puts_hex (reg_cs regs)"

text \<open>An exception that is not repaired halts the machine: the handler does not return.\<close>

definition isr_handler :: "'d env \<Rightarrow> registers \<Rightarrow> ('d kst, registers) pm" where
  "isr_handler e regs =
     (if int_no regs < 32
      then bindP (liftP (kputs (exception_text regs))) (\<lambda>_.
           if int_no regs = 14 \<and> vmm_try_handle_cow_fault (cr2 e) (err_code regs) = 0
           then retP regs else (\<lambda>_. None))
      else if int_no regs \<ge> 32 \<and> int_no regs \<le> 47
      then bindP (irq_handler e (int_no regs)) (\<lambda>_. retP regs)
      else if int_no regs = 128
      then if reg_cs regs AND 3 \<noteq> 3
           then bindP (liftP (kputs (newline @ ''[System call from kernel CPL0/CPL1/CPL2 '' @
                  [CHR 0xE2, CHR 0x80, CHR 0x94] @ '' denied]'' @ newline))) (\<lambda>_.
                retP (syscall_ret regs (- EPERM)))
           else syscall e regs
      else retP regs)"

text \<open>
  The entry stubs push the vector with \<open>push byte\<close>, an 8-bit immediate that the processor
  sign-extends to 64 bits. Vectors without an error code push a zero in its place.
\<close>

definition push_byte :: "nat \<Rightarrow> u64" where "push_byte n = scast (of_nat n :: u8)"

definition isr_stub :: "nat \<Rightarrow> u64 \<Rightarrow> registers \<Rightarrow> registers" where
  "isr_stub n code regs =
     regs\<lparr>int_no := push_byte n,
          err_code := (if n \<in> {8, 10, 11, 12, 13, 14, 17} then code else push_byte 0)\<rparr>"

definition interrupt :: "'d env \<Rightarrow> nat \<Rightarrow> u64 \<Rightarrow> registers \<Rightarrow> ('d kst, registers) pm" where
  "interrupt e n code regs = isr_handler e (isr_stub n code regs)"

section \<open>The kernel tables keep their shape\<close>

definition core_wf :: "kcore \<Rightarrow> bool" where
  "core_wf c \<longleftrightarrow> length (tasks c) = MAX_TASKS \<and> current_task_idx c < MAX_TASKS"

definition tables_ok :: "'d kst \<Rightarrow> bool" where
  "tables_ok k \<longleftrightarrow> core_wf (core (fs k)) \<and>
     length (g_ufd k) = CHASEROS_USER_FD_NUM \<and> (\<forall>u \<in> set (g_ufd k). length (upath u) \<le> 127 \<and> uoffset u \<le> usize u) \<and>
     length (g_libs k) = CNDYN_MAX_LOADED_LIBS \<and> (\<forall>l \<in> set (g_libs k). length (soname l) \<le> 63) \<and>
     length (g_user_cwd k) \<le> 255"

text \<open>\<open>keepsP I m\<close>: if the routine returns, it has kept \<open>I\<close>.\<close>

definition keepsP :: "('s \<Rightarrow> bool) \<Rightarrow> ('s, 'a) pm \<Rightarrow> bool" where
  "keepsP I m \<longleftrightarrow> (\<forall>s r s'. I s \<longrightarrow> m s = Some (r, s') \<longrightarrow> I s')"

named_theorems keepsP_intros \<open>rules for \<open>keepsP\<close>\<close>

lemma keepsPD: "keepsP I m \<Longrightarrow> I s \<Longrightarrow> m s = Some (r, s') \<Longrightarrow> I s'"
  by (auto simp: keepsP_def)

lemma keepsP_basic [keepsP_intros]:
  "keepsP I (retP x)" "keepsP I (failP e)" "keepsP I (errIfP c e)" "keepsP I (\<lambda>s. waitP (w s) s)"
  by (auto simp: keepsP_def pm_defs sm_defs split: option.splits if_splits)

lemma keepsP_liftP [keepsP_intros]: "keeps I m \<Longrightarrow> keepsP I (liftP m)"
  by (auto simp: keepsP_def keeps_def liftP_def)

lemma keepsP_bindP [keepsP_intros]:
  assumes "keepsP I m" and "\<And>x. keepsP I (f x)"
  shows "keepsP I (bindP m f)"
  unfolding keepsP_def
proof (intro allI impI)
  fix s r s'
  assume "I s" and "bindP m f s = Some (r, s')"
  from this(2) this(1) show "I s'"
    by (cases rule: bindP_Some) (use keepsPD assms in \<open>metis\<close>)+
qed

lemma keepsP_if [keepsP_intros]: "keepsP I m \<Longrightarrow> keepsP I m' \<Longrightarrow> keepsP I (if c then m else m')"
  by simp

lemma keepsP_option [keepsP_intros]:
  "(r = None \<Longrightarrow> keepsP I m) \<Longrightarrow> (\<And>x. r = Some x \<Longrightarrow> keepsP I (f x)) \<Longrightarrow> keepsP I (case r of None \<Rightarrow> m | Some x \<Rightarrow> f x)"
  by (cases r) auto

lemma keepsP_prod [keepsP_intros]: "(\<And>a b. r = (a, b) \<Longrightarrow> keepsP I (f a b)) \<Longrightarrow> keepsP I (case r of (a, b) \<Rightarrow> f a b)"
  by (cases r) auto

lemma keepsP_prod_app [keepsP_intros]:
  "(\<And>a b. r = (a, b) \<Longrightarrow> keepsP I (f a b y)) \<Longrightarrow> keepsP I ((case r of (a, b) \<Rightarrow> f a b) y)"
  by (cases r) auto

lemma keepsP_orElse:
  assumes "keepsP I m" and "keepsP I g"
  shows "keepsP I (\<lambda>s. case m s of Some (Err e, s') \<Rightarrow> g s' | r \<Rightarrow> r)"
  unfolding keepsP_def
proof (intro allI impI)
  fix s r s'
  assume s: "I s" and eq: "(case m s of Some (Err e, s') \<Rightarrow> g s' | r \<Rightarrow> r) = Some (r, s')"
  then obtain r1 s1 where m: "m s = Some (r1, s1)" by (cases "m s") auto
  have "I s1" using keepsPD [OF assms(1) s m] .
  then show "I s'" using eq m keepsPD [OF assms(2)] by (cases r1) auto
qed

lemma keepsP_err:
  assumes "keepsP I m"
  shows "keepsP I (\<lambda>s. case m s of Some (Err _, s') \<Rightarrow> Some (Err e, s') | r \<Rightarrow> r)"
  using keepsP_orElse [OF assms keepsP_basic(2), of e] unfolding pm_run(2) .

lemma keepsP_orFail [keepsP_intros]:
  assumes "keepsP I m" and "keeps I alt"
  shows "keepsP I (orFail m alt)"
proof -
  have "keepsP I (\<lambda>s. case alt s of (Oob, s) \<Rightarrow> Some (Oob, s) | (_, s) \<Rightarrow> Some (Err (-1), s))"
    using keepsD [OF assms(2)] by (auto simp: keepsP_def split: prod.splits outcome.splits) (metis snd_conv)+
  from keepsP_orElse [OF assms(1) this] show ?thesis unfolding orFail_def by simp
qed

subsection \<open>Parts of the state the tables do not depend on\<close>

lemma core_wf_upd [simp]: "core_wf (upd_task i f c) = core_wf c"
  by (simp add: core_wf_def)

lemma core_wf_frame [simp]:
  "core_wf (c\<lparr>task_count := n\<rparr>) = core_wf c" "core_wf (c\<lparr>kpmm := p\<rparr>) = core_wf c"
  "core_wf (c\<lparr>mach := m\<rparr>) = core_wf c" "core_wf (c\<lparr>chaseros_active_user_pid := w\<rparr>) = core_wf c"
  by (simp_all add: core_wf_def)

lemma tables_ok_frame [simp]:
  "tables_ok (k\<lparr>chaseros_kernel_ticks := t\<rparr>) = tables_ok k" "tables_ok (k\<lparr>exit_stk := a\<rparr>) = tables_ok k"
  "tables_ok (set_kmem m k) = tables_ok k"
  by (simp_all add: tables_ok_def set_kmem_def set_fmem_def)

lemma tables_ok_modCore: "tables_ok k \<Longrightarrow> core_wf (f (core (fs k))) \<Longrightarrow> tables_ok (modCore f k)"
  by (simp add: tables_ok_def modCore_def)

lemma tables_core: "tables_ok k \<Longrightarrow> core_wf (core (fs k))"
  by (simp add: tables_ok_def)

lemma keeps_tables_same:
  fixes m :: "('d kst, 'a) sm"
  assumes "\<And>k0. keeps (same_kst k0) m"
  shows "keeps tables_ok m"
  unfolding keeps_def
proof (intro allI impI)
  fix k :: "'d kst" assume "tables_ok k"
  moreover have same: "same_kst k (snd (m k))" using keepsD [OF assms] same_refl(2) by blast
  ultimately show "tables_ok (snd (m k))" using same_kst_fields [OF same] by (simp add: tables_ok_def)
qed

lemmas keeps_tables_vfs [keeps_intros] =
  keeps_tables_same [OF keeps_vfs_read] keeps_tables_same [OF keeps_vfs_stat]

lemma keeps_tables_liftFs:
  assumes "\<And>s. core (snd (m s)) = core s"
  shows "keeps tables_ok (liftFs m)"
proof -
  have "tables_ok (k\<lparr>fs := s'\<rparr>)" if "m (fs k) = (r, s')" and "tables_ok k" for k r s'
    using assms [of "fs k"] that by (simp add: tables_ok_def)
  then show ?thesis by (auto simp: keeps_def liftFs_def split: prod.splits)
qed

lemma keeps_tables_dev [keeps_intros]: "keeps tables_ok (liftFs (liftDev m))"
  by (rule keeps_tables_liftFs) (simp add: liftDev_def split: prod.splits)

lemma keeps_tables_kputs [keeps_intros]: "keeps tables_ok (kputs t)"
  unfolding kputs_def by (rule keeps_tables_liftFs) (simp add: putS_def modifyS_def)

lemma keeps_modifyS: "(\<And>s. I s \<Longrightarrow> I (f s)) \<Longrightarrow> keeps I (modifyS f)"
  by (simp add: keeps_def modifyS_def)

lemma keeps_tables_store [keeps_intros]: "keeps tables_ok (storeM a bs)"
  unfolding storeM_def by (rule keeps_modifyS) simp

lemma keepsP_liftCore:
  assumes "\<And>c x c'. core_wf c \<Longrightarrow> f c = Some (x, c') \<Longrightarrow> core_wf c'"
  shows "keepsP tables_ok (liftCore f)"
  using assms by (auto simp: keepsP_def liftCore_def tables_ok_def split: option.splits prod.splits)

lemma keepsP_modTask [keepsP_intros]: "keepsP tables_ok (modTask i f)"
  unfolding modTask_def by (intro keepsP_intros keeps_modifyS tables_ok_modCore) (simp_all add: tables_core)

lemma keepsP_modTask_state [keepsP_intros]: "keepsP tables_ok (\<lambda>k. modTask i (f k) k)"
  unfolding keepsP_def using keepsPD [OF keepsP_modTask] by blast

subsection \<open>Scheduling and messages\<close>

lemma core_wf_schedule [simp]: "core_wf c \<Longrightarrow> core_wf (schedule c)"
  unfolding core_wf_def by (elim conjE, cases c rule: schedule_cases) auto

lemma core_wf_mark_exit [simp]: "core_wf (process_mark_exit p st c) = core_wf c"
  by (auto simp: process_mark_exit_def Let_def split: option.splits)

lemma core_wf_reap: "core_wf (snd (process_reap_child p t c)) = core_wf c"
  by (auto simp: process_reap_child_def Let_def split: option.splits)

lemma core_wf_alloc_user: "core_wf (snd (process_alloc_user p c)) = core_wf c"
  by (auto simp: process_alloc_user_def bump_task_count_def split: option.splits)

lemma core_wf_wait_loop:
  assumes "wait_loop cur c = Some c'"
  shows "core_wf c \<Longrightarrow> core_wf c'"
proof -
  have "core_wf c \<longrightarrow> core_wf c'"
    by (rule wait_loop.raw_induct [where P = "\<lambda>cur c c'. core_wf c \<longrightarrow> core_wf c'", OF _ assms])
      (auto simp: sched_yield_def split: if_splits)
  then show "core_wf c \<Longrightarrow> core_wf c'" by blast
qed

lemma core_wf_send_wait:
  assumes "send_wait cur c = Some c'"
  shows "core_wf c \<Longrightarrow> core_wf c'"
proof -
  have "core_wf c \<longrightarrow> core_wf c'"
    by (rule send_wait.raw_induct [where P = "\<lambda>cur c c'. core_wf c \<longrightarrow> core_wf c'", OF _ assms])
      (auto simp: sched_yield_def split: if_splits)
  then show "core_wf c \<Longrightarrow> core_wf c'" by blast
qed

lemma core_wf_q_set [simp]: "core_wf (q_set l v c) = core_wf c"
  by (cases l) simp_all

lemma core_wf_dequeue:
  assumes "dequeue_loop src pp c = Some (r, c')" and "core_wf c"
  shows "core_wf c'"
proof -
  have "core_wf c \<longrightarrow> core_wf (snd (r, c'))"
    by (rule dequeue_loop.raw_induct [where P = "\<lambda>src pp c y. core_wf c \<longrightarrow> core_wf (snd y)", OF _ assms(1)])
      (auto split: option.splits if_splits)
  then show ?thesis using assms(2) by simp
qed

lemma core_wf_wake [simp]:
  "core_wf (process_ipc_wake_from_receive p c) = core_wf c" "core_wf (process_ipc_wake_after_reply p c) = core_wf c"
  "core_wf (ipc_wake_sender_after_deliver p c) = core_wf c" "core_wf (msg_copy_to_buffer d s m c) = core_wf c"
  by (simp_all add: process_ipc_wake_from_receive_def process_ipc_wake_after_reply_def
      ipc_wake_sender_after_deliver_def msg_copy_to_buffer_def)

lemma core_wf_send: "ipc_send p m c = Some (r, c') \<Longrightarrow> core_wf c \<Longrightarrow> core_wf c'"
  by (auto simp: ipc_send_def Let_def stash_outgoing_def sender_enqueue_def split: option.splits if_splits
      dest!: core_wf_send_wait)

lemma core_wf_reply: "core_wf (snd (ipc_reply p m c)) = core_wf c"
  by (auto simp: ipc_reply_def Let_def split: option.splits)

lemma core_wf_receive_round: "receive_round cur src c = Some (r, c') \<Longrightarrow> core_wf c \<Longrightarrow> core_wf c'"
  by (auto simp: receive_round_def Let_def sender_dequeue_def split: option.splits if_splits dest!: core_wf_dequeue)

lemma core_wf_receive_loop:
  assumes "\<forall>f \<in> set evs. \<forall>c. core_wf c \<longrightarrow> core_wf (f c)"
  shows "receive_loop cur src evs c = Some (r, c') \<Longrightarrow> core_wf c \<Longrightarrow> core_wf c'"
  using assms
proof (induction evs arbitrary: c)
  case Nil
  then show ?case
    by (subst (asm) receive_loop.simps) (auto split: option.splits dest: core_wf_receive_round)
next
  case (Cons f evs)
  show ?case
  proof (cases "receive_round cur src c")
    case None
    then show ?thesis using Cons.prems(1) by (simp add: receive_loop.simps [of cur src "f # evs"])
  next
    case (Some y)
    obtain r1 c1 where y: "y = (r1, c1)" by fastforce
    have "core_wf c1" using core_wf_receive_round Some y Cons.prems(2) by blast
    then show ?thesis
      using Cons Some y by (cases r1) (auto simp: receive_loop.simps [of cur src "f # evs"])
  qed
qed

lemma core_wf_pending:
  assumes "\<forall>f \<in> set evs. \<forall>c. core_wf c \<longrightarrow> core_wf (f c)"
  shows "ipc_wait_until_pending cur evs c = Some c' \<Longrightarrow> core_wf c \<Longrightarrow> core_wf c'"
  using assms
proof (induction evs arbitrary: c)
  case Nil
  then show ?case by (auto simp: ipc_wait_until_pending.simps split: if_splits)
next
  case (Cons f evs)
  then show ?case by (auto simp: ipc_wait_until_pending.simps [of cur "f # evs"] split: if_splits)
qed

subsection \<open>Descriptors\<close>

lemma all_upd:
  "\<forall>u \<in> set xs. P u \<Longrightarrow> (\<And>u. P u \<Longrightarrow> P (f u)) \<Longrightarrow> \<forall>u \<in> set (xs[i := f (xs ! i)]). P u"
  by (cases "i < length xs") (auto simp: set_conv_nth nth_list_update)

lemma all_upd_new: "\<forall>u \<in> set xs. P u \<Longrightarrow> P v \<Longrightarrow> \<forall>u \<in> set (xs[i := v]). P u"
  using set_update_subset_insert [of xs i v] by auto

lemma keeps_map_err:
  "keeps I m \<Longrightarrow> keeps I (\<lambda>s. case m s of (Err e, s') \<Rightarrow> (Err (h e), s') | r \<Rightarrow> r)"
  by (auto simp: keeps_def split: prod.splits outcome.splits)

lemma tables_ok_set_fd:
  assumes "tables_ok k" and "length (upath v) \<le> 127" and "uoffset v \<le> usize v"
  shows "tables_ok (k\<lparr>g_ufd := (g_ufd k)[i := v]\<rparr>)"
proof -
  have "\<forall>u \<in> set ((g_ufd k)[i := v]). length (upath u) \<le> 127 \<and> uoffset u \<le> usize u"
    by (rule all_upd_new) (use assms in \<open>simp_all add: tables_ok_def\<close>)
  with assms(1) show ?thesis by (simp add: tables_ok_def)
qed

lemma tables_ok_close_fd:
  assumes "tables_ok k"
  shows "tables_ok (k\<lparr>g_ufd := (g_ufd k)[i := (g_ufd k ! i)\<lparr>valid := False\<rparr>]\<rparr>)"
proof -
  have "\<forall>u \<in> set ((g_ufd k)[i := (g_ufd k ! i)\<lparr>valid := False\<rparr>]). length (upath u) \<le> 127 \<and> uoffset u \<le> usize u"
    by (rule all_upd) (use assms in \<open>simp_all add: tables_ok_def\<close>)
  with assms show ?thesis by (simp add: tables_ok_def)
qed

lemma keeps_tables_open [keeps_intros]: "keeps tables_ok (user_fd_open_kpath io path)"
  unfolding user_fd_open_kpath_def
  by (intro keeps_intros keeps_map_err keeps_modifyS tables_ok_set_fd) simp_all

lemma keeps_tables_close [keeps_intros]: "keeps tables_ok (user_fd_sys_close fd)"
  unfolding user_fd_sys_close_def
  by (intro keeps_intros keeps_modifyS tables_ok_close_fd)

lemma unat_u32_less: "unat (x :: u32) < 2 ^ 32"
  using unsigned_less [of x, where ?'a = nat] by simp

lemma unat_of_nat_u32: "x < 2 ^ 32 \<Longrightarrow> unat (of_nat x :: u32) = x"
  by (simp add: unsigned_of_nat take_bit_nat_eq_self)

lemma read_effect_tables:
  assumes "read_effect ua n k k1" and "tables_ok k"
  shows "tables_ok k1 \<and> g_ufd k1 = g_ufd k"
proof -
  from assms(1) obtain m where m: "same_kst (set_kmem m k) k1" by (auto simp: read_effect_def)
  have "tables_ok (set_kmem m k)" using assms(2) by simp
  with same_kst_fields [OF m] show ?thesis by (simp add: tables_ok_def set_kmem_def)
qed

lemma keepsP_tables_read [keepsP_intros]: "keepsP tables_ok (user_fd_sys_read io fd ua len)"
  unfolding keepsP_def
proof (intro allI impI)
  fix k r k'
  assume ok: "tables_ok k" and eq: "user_fd_sys_read io fd ua len k = Some (r, k')"
  show "tables_ok k'"
  proof (cases "fd_slot fd k")
    case None
    then show ?thesis using ok eq by (simp add: user_fd_sys_read_eq)
  next
    case (Some idx)
    let ?u = "g_ufd k ! idx"
    let ?n = "min (unat len) (unat (usize ?u - uoffset ?u))"
    obtain r1 k1 where rd: "read_chunks io (upath ?u) (uoffset ?u) ua ?n 0 k = (r1, k1)" by fastforce
    have "read_effect ua (unat len) k k1 \<and> (\<forall>x. r1 = Ok x \<longrightarrow> x \<le> ?n)"
      by (rule read_chunks_effect [OF rd read_effect_refl]) (use unat_u64_less [of len] in simp_all)
    then have ok1: "tables_ok k1" "g_ufd k1 = g_ufd k" and le: "r1 = Ok x \<Longrightarrow> x \<le> unat (usize ?u - uoffset ?u)" for x
      using read_effect_tables ok by auto
    have "idx < CHASEROS_USER_FD_NUM" using Some by (auto simp: fd_slot_def CHASEROS_USER_FD_MIN_def Let_def split: if_splits)
    then have u: "uoffset ?u \<le> usize ?u" "length (upath ?u) \<le> 127" using ok by (auto simp: tables_ok_def)
    have "tables_ok (k1\<lparr>g_ufd := (g_ufd k1)[idx := (g_ufd k1 ! idx)\<lparr>uoffset := uoffset ?u + of_nat x\<rparr>]\<rparr>)"
      if "r1 = Ok x" for x
    proof -
      have x: "x \<le> unat (usize ?u) - unat (uoffset ?u)" using le [OF that] u(1) by (simp add: unat_sub)
      have less: "x < 2 ^ 32" using le [OF that] unat_u32_less [of "usize ?u - uoffset ?u"] by simp
      then have "unat (uoffset ?u) + unat (of_nat x :: u32) < 2 ^ 32"
        using x u(1) unat_u32_less [of "usize ?u"] by (simp add: word_le_nat_alt unat_of_nat_u32)
      then have "unat (uoffset ?u + of_nat x) = unat (uoffset ?u) + x"
        using less unat_add_lem [of "uoffset ?u" "of_nat x"] by (simp add: unat_of_nat_u32)
      then have "uoffset ?u + of_nat x \<le> usize ?u" using x u(1) by (simp add: word_le_nat_alt)
      then show ?thesis using ok1 u(2) by (intro tables_ok_set_fd) simp_all
    qed
    then show ?thesis
      using eq Some rd ok ok1(1)
      by (cases r1) (auto simp: user_fd_sys_read_eq Let_def split: if_splits option.splits)
  qed
qed

subsection \<open>Loading a package\<close>

lemma keeps_tables_stream_read [keeps_intros]: "keeps tables_ok (cndyn_stream_read io path base off len)"
  unfolding cndyn_stream_read_def by (intro keeps_intros)

lemma keeps_tables_stream_copy [keeps_intros]:
  "(\<And>off len. keeps tables_ok (rd off len)) \<Longrightarrow> keeps tables_ok (stream_copy rd dest off n)"
  by (induction rd dest off n rule: stream_copy.induct, subst stream_copy.simps) (auto simp: Let_def intro!: keeps_intros)

lemma keeps_tables_stream_segments [keeps_intros]:
  "(\<And>off len. keeps tables_ok (rd off len)) \<Longrightarrow> keeps tables_ok (stream_segments rd sz sgs)"
  by (induction sgs) (auto simp: cnim_segment_check_def cnim_zero_def intro!: keeps_intros)

lemma keeps_tables_streaming [keeps_intros]:
  "(\<And>off len. keeps tables_ok (rd off len)) \<Longrightarrow> keeps tables_ok (cnim_load_streaming rd sz)"
  unfolding cnim_load_streaming_def Let_def cnim_header_check_def by (intro keeps_intros)

lemma keeps_tables_requires_loop [keeps_intros]: "keeps tables_ok (requires_loop io s)"
proof (induction io s rule: requires_loop.induct)
  case (1 io s)
  show ?case
    by (subst requires_loop.simps) (auto simp: Let_def intro!: keeps_intros 1)
qed

lemma tables_ok_free_pages: "tables_ok k \<Longrightarrow> tables_ok (free_pages a n k)"
  by (simp add: free_pages_def tables_ok_modCore tables_core)

lemma keeps_tables_release [keeps_intros]: "keeps tables_ok (release_header buf pages)"
  unfolding release_header_def by (rule keeps_modifyS) (simp add: tables_ok_free_pages)

lemma keeps_tables_failWith [keeps_intros]: "keeps tables_ok (failWith t)" "keeps tables_ok (failRel buf pages t)"
  unfolding failRel_def failWith_def by (intro keeps_intros)+

lemma keeps_tables_grant [keeps_intros]: "keeps tables_ok grantK"
  unfolding grantK_def by (intro keeps_modifyS tables_ok_modCore) (simp_all add: tables_core)

lemma keepsP_tables_alloc [keepsP_intros]: "keepsP tables_ok (alloc_pages n)"
  by (auto simp: keepsP_def alloc_pages_def intro!: tables_ok_modCore split: option.splits) (simp_all add: tables_core)

lemma keeps_sum [keeps_intros]:
  "(\<And>x. r = Inl x \<Longrightarrow> keeps I (f x)) \<Longrightarrow> (\<And>y. r = Inr y \<Longrightarrow> keeps I (g y)) \<Longrightarrow>
   keeps I (case r of Inl x \<Rightarrow> f x | Inr y \<Rightarrow> g y)"
  by (cases r) auto

lemma keeps_tables_header_read:
  "keeps tables_ok (\<lambda>k. case vfs_read_file_range io path 0 n k of
      (Oob, k) \<Rightarrow> (Oob, k)
    | (Ok bs, k) \<Rightarrow>
        if length bs = m then bindS (storeM buf bs) (\<lambda>_. retS (bs, buf, pages)) k
        else (Err (-1), free_pages buf pages k)
    | (Err _, k) \<Rightarrow> (Err (-1), free_pages buf pages k))"
  unfolding keeps_def
proof (intro allI impI)
  fix k :: "'a kst" assume "tables_ok k"
  obtain r k1 where rd: "vfs_read_file_range io path 0 n k = (r, k1)" by fastforce
  have "tables_ok k1" using keepsD [OF keeps_tables_vfs(1) \<open>tables_ok k\<close>] rd by (metis snd_conv)
  then show "tables_ok (snd (case vfs_read_file_range io path 0 n k of
      (Oob, k) \<Rightarrow> (Oob, k)
    | (Ok bs, k) \<Rightarrow>
        if length bs = m then bindS (storeM buf bs) (\<lambda>_. retS (bs, buf, pages)) k
        else (Err (-1), free_pages buf pages k)
    | (Err _, k) \<Rightarrow> (Err (-1), free_pages buf pages k)))"
    by (cases r) (simp_all add: rd bindS_def storeM_run retS_def tables_ok_free_pages)
qed

lemma keepsP_tables_load [keepsP_intros]: "keepsP tables_ok (cndyn_load_package_for_exec io path)"
proof -
  have "keepsP tables_ok (read_header_full io path prefix h)" for prefix h
    unfolding read_header_full_def Let_def by (intro keepsP_intros keeps_tables_header_read)
  moreover have "keeps tables_ok (load_prefix io path)"
    unfolding load_prefix_def Let_def by (intro keeps_intros)
  moreover have "keeps tables_ok (resolve_requires io man)" for man
    unfolding resolve_requires_def by (intro keeps_intros)
  moreover have "keeps tables_ok (sectionsS hdr ft)" for hdr ft
    unfolding sectionsS_def by (intro keeps_intros)
  ultimately show ?thesis
    unfolding cndyn_load_package_for_exec_def by (intro keepsP_intros keeps_intros)
qed

subsection \<open>Calls that wait, process calls, the library table\<close>

definition irqs_wf :: "(kcore \<Rightarrow> kcore) list \<Rightarrow> bool" where
  "irqs_wf evs \<longleftrightarrow> (\<forall>f \<in> set evs. \<forall>c. core_wf c \<longrightarrow> core_wf (f c))"

lemma keepsP_tables_send [keepsP_intros]: "keepsP tables_ok (liftCore (ipc_send p m))"
  by (rule keepsP_liftCore) (rule core_wf_send)

lemma keepsP_tables_pending [keepsP_intros]:
  assumes "irqs_wf evs"
  shows "keepsP tables_ok (liftCore (\<lambda>c. let cur = process_current_task_for_ipc c in
    map_option (ipc_consume_pending_message cur) (ipc_wait_until_pending cur evs c)))"
  using core_wf_pending [OF assms [unfolded irqs_wf_def]]
  by (intro keepsP_liftCore) (auto simp: Let_def ipc_consume_pending_message_def)

lemma keepsP_tables_receive [keepsP_intros]:
  assumes "irqs_wf evs"
  shows "keepsP tables_ok (liftCore (\<lambda>c. case ipc_receive p evs c of Some (Some m, c) \<Rightarrow> Some (m, c) | _ \<Rightarrow> None))"
  using core_wf_receive_loop [OF assms [unfolded irqs_wf_def]]
  by (intro keepsP_liftCore) (auto simp: ipc_receive_def split: option.splits prod.splits)

lemma keepsP_liftCore_total:
  "(\<And>c. core_wf c \<Longrightarrow> core_wf (snd (f c))) \<Longrightarrow> keepsP tables_ok (liftCore (\<lambda>c. Some (f c)))"
  by (rule keepsP_liftCore) (metis option.inject snd_conv)

lemma keepsP_tables_core [keepsP_intros]:
  "keepsP tables_ok (liftCore (\<lambda>c. Some (ipc_reply p m c)))"
  "keepsP tables_ok (liftCore (\<lambda>c. Some (process_reap_child q t c)))"
  "keepsP tables_ok (liftCore (\<lambda>c. map_option (\<lambda>c. ((), c)) (wait_loop cur c)))"
  by (intro keepsP_liftCore_total, simp add: core_wf_reply core_wf_reap)+
    (rule keepsP_liftCore, auto dest: core_wf_wait_loop)

lemma keepsP_tables_alloc_user [keepsP_intros]: "keepsP tables_ok (liftCore (\<lambda>c. Some (process_alloc_user (g c) c)))"
  by (intro keepsP_liftCore_total) (simp add: core_wf_alloc_user)

lemma keepsP_copy_user_path [keepsP_intros]: "keepsP I (copy_user_path n ua)"
  by (auto simp: keepsP_def copy_user_path_def split: option.splits)

lemma keepsP_resolve_user_path [keepsP_intros]: "keepsP I (resolve_user_path ua)"
  unfolding resolve_user_path_def by (intro keepsP_intros keeps_intros)

lemma keepsP_tables_open [keepsP_intros]: "irqs_wf evs \<Longrightarrow> keepsP tables_ok (user_fd_sys_open ipc io evs ptr)"
  unfolding user_fd_sys_open_def hybrid_user_fd_open_via_ipc_def by (intro keepsP_intros keeps_intros)

lemma keepsP_readable [keepsP_intros]: "keepsP I (readableP ua n)" "keepsP I (writableP ua n)"
  by (auto simp: keepsP_def readableP_def writableP_def waitP_def split: option.splits)

lemma keepsP_put_status [keepsP_intros]: "keepsP tables_ok (put_status p st)"
  unfolding put_status_def by (intro keepsP_intros keeps_intros)

lemma keeps_tables_exit [keeps_intros]: "keeps tables_ok (user_sys__exit a code regs)"
proof -
  have "keeps tables_ok (\<lambda>k. if exit_stk k \<noteq> 0 then (Ok (), k) else case pmm_alloc_page (kpmm (kcur k)) of
      (a, p) \<Rightarrow> (Ok (), (modCore (\<lambda>c. c\<lparr>kpmm := p\<rparr>) k)\<lparr>exit_stk := a\<rparr>))"
    by (auto simp: keeps_def tables_ok_modCore tables_core split: prod.splits)
  moreover have "keeps tables_ok (modifyS (\<lambda>k :: 'a kst. modCore (process_mark_exit
      (Some (process_current_user_or_kernel (kcur k))) (sint (of_int code :: i32))) k))"
    by (rule keeps_modifyS) (simp add: tables_ok_modCore tables_core)
  ultimately show ?thesis
    unfolding user_sys__exit_def user_on_syscall_exit_def by (intro keeps_intros)
qed

lemma keepsP_tables_process [keepsP_intros]:
  "keepsP tables_ok (user_sys_spawn io p)" "keepsP tables_ok (user_sys_exec io p regs)"
  "keepsP tables_ok (user_sys_waitpid t st)" "keepsP tables_ok (user_sys_fork regs)"
proof -
  have exit: "keeps tables_ok (modifyS (modCore (process_mark_exit q 0)))" for q
    by (rule keeps_modifyS) (simp add: tables_ok_modCore tables_core)
  show "keepsP tables_ok (user_sys_spawn io p)"
    unfolding user_sys_spawn_def by (intro keepsP_intros keeps_intros keepsP_orElse exit)
  show "keepsP tables_ok (user_sys_exec io p regs)"
    unfolding user_sys_exec_def by (intro keepsP_intros keepsP_err)
  show "keepsP tables_ok (user_sys_waitpid t st)" "keepsP tables_ok (user_sys_fork regs)"
    unfolding user_sys_waitpid_def user_sys_fork_def Let_def by (intro keepsP_intros keeps_intros)+
qed

lemma tables_ok_set_lib:
  assumes "tables_ok k" and "length (soname v) \<le> 63"
  shows "tables_ok (k\<lparr>g_libs := (g_libs k)[i := v]\<rparr>)"
proof -
  have "\<forall>l \<in> set ((g_libs k)[i := v]). length (soname l) \<le> 63"
    by (rule all_upd_new) (use assms in \<open>simp_all add: tables_ok_def\<close>)
  with assms(1) show ?thesis by (simp add: tables_ok_def)
qed

lemma tables_ok_close_lib:
  assumes "tables_ok k"
  shows "tables_ok (k\<lparr>g_libs := (g_libs k)[i := (g_libs k ! i)\<lparr>used := False\<rparr>]\<rparr>)"
proof -
  have "\<forall>l \<in> set ((g_libs k)[i := (g_libs k ! i)\<lparr>used := False\<rparr>]). length (soname l) \<le> 63"
    by (rule all_upd) (use assms in \<open>simp_all add: tables_ok_def\<close>)
  with assms show ?thesis by (simp add: tables_ok_def)
qed

lemma keepsP_tables_lib [keepsP_intros]:
  "keepsP tables_ok (intP (cndyn_dlopen p))" "keepsP tables_ok (intP (cndyn_dlclose h))"
  by (auto simp: keepsP_def intP_def cndyn_dlopen_def cndyn_dlclose_def str_copy_def
      intro!: tables_ok_set_lib tables_ok_close_lib split: option.splits if_splits)

lemma keepsP_retReg [keepsP_intros]: "keepsP I m \<Longrightarrow> keepsP I (retReg regs m)"
  unfolding keepsP_def retReg_def by (auto split: option.splits prod.splits outcome.splits)

lemma keepsP_retRegs [keepsP_intros]: "keepsP I m' \<Longrightarrow> keepsP I (retRegs regs m')"
  unfolding keepsP_def retRegs_def by (auto split: option.splits prod.splits outcome.splits)

lemma keeps_tables_print [keeps_intros]: "keeps tables_ok (\<lambda>k. kputs (t k) k)"
  using keeps_tables_kputs by (auto simp: keeps_def)

lemma keepsP_tables_syscall:
  assumes "irqs_wf (irqs e)"
  shows "keepsP tables_ok (syscall e regs)"
  unfolding syscall_def Let_def sys_write_def sys_read_def sys_ipc_send_def sys_ipc_recv_def sys_ipc_reply_def
    sys_ipc_call_def user_copy_message_in_def user_copy_message_out_def
  using assms by (intro keepsP_intros keeps_intros keepsP_tables_pending [unfolded Let_def])

lemma keepsP_tables_irq:
  assumes "\<And>c. keepsP tables_ok (shell_handle_input e c)"
  shows "keepsP tables_ok (irq_handler e n)"
proof -
  have "keeps tables_ok (modifyS (\<lambda>k. modCore sched_on_timer_tick
      (k\<lparr>chaseros_kernel_ticks := chaseros_kernel_ticks k + 1\<rparr>)))"
    by (rule keeps_modifyS) (simp add: tables_ok_modCore sched_on_timer_tick_def tables_core)
  then show ?thesis
    unfolding irq_handler_def keyboard_irq_def Let_def using assms by (intro keepsP_intros keeps_intros)
qed


text \<open>An environment for examples: the reference disk, a shell that ignores its input.\<close>

definition demo_env :: "ata env" where
  "demo_env = \<lparr>ports = ata_io 3, via_ipc = False, irqs = [], exit_done = 0x100000, cr2 = 0,
     shell_handle_input = (\<lambda>_. retP ())\<rparr>"

definition demo_regs :: registers where
  "demo_regs = \<lparr>reg_rdi = 0, reg_rsi = 0, reg_rdx = 0, reg_rax = 4, int_no = 0, err_code = 0, reg_rip = 0x400000,
     reg_cs = 0x1B, reg_rflags = 0x202, reg_rsp = 0x801008, reg_ss = 0x23\<rparr>"

lemma demo_tables_ok: "tables_ok demo_kst"
proof -
  have "core_wf demo_kcore" using demo_kcore_ok by (simp add: core_wf_def sched_ok_def)
  then show ?thesis
    by (auto simp: tables_ok_def demo_kst_def demo_slot_def CHASEROS_USER_FD_NUM_def CNDYN_MAX_LOADED_LIBS_def)
qed


section \<open>The system call vector\<close>

text \<open>
  C37: no system call is ever dispatched. The entry stub of vector 128 pushes the number as a
  sign-extended byte, the handler compares it with 128 and returns: registers and state are
  as they were, whatever the call number. The vectors below 128 arrive unchanged.
\<close>

theorem syscall_vector_lost:
  "interrupt e 128 code regs k = Some (Ok (isr_stub 128 code regs), k) \<and>
   reg_rax (isr_stub 128 code regs) = reg_rax regs \<and>
   map (\<lambda>n. int_no (isr_stub n code regs)) [0..<128] = map of_nat [0..<128]"
proof -
  have "push_byte 128 = 0xFFFFFFFFFFFFFF80" by code_simp
  moreover have "map push_byte [0..<128] = map of_nat [0..<128]" by code_simp
  ultimately show ?thesis by (simp add: interrupt_def isr_stub_def isr_handler_def pm_run)
qed

section \<open>Waiting for a child\<close>

lemma schedule_keeps_blocked:
  assumes "core_wf c" and "state (task c i) = PROC_STATE_BLOCKED"
  shows "state (task (sched_yield c) i) = PROC_STATE_BLOCKED"
proof -
  from assms(1) have "length (tasks c) = MAX_TASKS" "current_task_idx c < MAX_TASKS" by (simp_all add: core_wf_def)
  then show ?thesis by (cases rule: schedule_cases; use assms in \<open>force simp: sched_yield_def\<close>)
qed

lemma wait_loop_stuck:
  assumes "core_wf c" and "state (task c i) = PROC_STATE_BLOCKED"
  shows "wait_loop i c = None"
proof (rule ccontr)
  assume "wait_loop i c \<noteq> None"
  then obtain r where r: "wait_loop i c = Some r" by auto
  let ?P = "\<lambda>i c. core_wf c \<and> state (task c i) = PROC_STATE_BLOCKED"
  have "\<not> ?P i c"
  proof (rule wait_loop.raw_induct [where P = "\<lambda>i c r. \<not> ?P i c", OF _ r])
    fix f i c y
    assume IH: "\<And>i c y. f i c = Some y \<Longrightarrow> \<not> ?P i c"
      and eq: "(if state (task c i) = PROC_STATE_BLOCKED then f i (sched_yield c) else Some c) = Some y"
    show "\<not> ?P i c"
    proof
      assume p: "?P i c"
      then have "?P i (sched_yield c)" using schedule_keeps_blocked by (auto simp: sched_yield_def)
      then show False using p eq IH by auto
    qed
  qed
  then show False using assms by blast
qed

lemma kcur_run:
  "kcur (k\<lparr>fs := s\<rparr>) = core s"
  "liftCore f k = (case f (kcur k) of None \<Rightarrow> None | Some (x, c) \<Rightarrow> Some (Ok x, k\<lparr>fs := (fs k)\<lparr>core := c\<rparr>\<rparr>))"
  "modCore g k = k\<lparr>fs := (fs k)\<lparr>core := g (kcur k)\<rparr>\<rparr>"
  by (simp_all add: kcur_def liftCore_def modCore_def)

lemma reap_None: "fst (process_reap_child p t c) = None \<Longrightarrow> process_reap_child p t c = (None, c)"
  by (auto simp: process_reap_child_def Let_def split: option.splits)

text \<open>
  C38: waiting for a child that has not exited never returns. The caller marks itself blocked and
  yields until its state changes, but yielding only relabels slots: the child does not run.
\<close>

theorem waitpid_never_returns:
  assumes "core_wf (kcur k)" and "-1 \<le> t"
    and "fst (process_reap_child (Some (process_current_user_or_kernel (kcur k)))
           (if t \<le> 0 then 0 else of_int t) (kcur k)) = None"
  shows "user_sys_waitpid t status_ptr k = None"
proof -
  let ?cur = "process_current_user_or_kernel (kcur k)" and ?target = "if t \<le> 0 then 0 else of_int t :: u64"
  have cur: "?cur < length (tasks (kcur k))"
    using assms(1) by (auto simp: process_current_user_or_kernel_def process_find_by_pid_def get_current_process_def
        core_wf_def dest: first_slot_Some split: option.splits)
  have reap: "process_reap_child (Some ?cur) ?target (kcur k) = (None, kcur k)"
    by (rule reap_None) (rule assms(3))
  define c where "c = upd_task ?cur (\<lambda>p. p\<lparr>wait_target := ?target, state := PROC_STATE_BLOCKED\<rparr>) (kcur k)"
  have "wait_loop ?cur c = None"
    using cur assms(1) by (intro wait_loop_stuck) (simp_all add: c_def task_simps)
  moreover have "k\<lparr>fs := (fs k)\<lparr>core := kcur k\<rparr>\<rparr> = k" by (simp add: kcur_def)
  ultimately show ?thesis
    using assms(2) reap unfolding c_def
    by (cases "t \<le> 0") (simp_all add: user_sys_waitpid_def Let_def pm_run bindP_def [of "liftCore _"] modTask_def kcur_run)
qed

theorem waitpid_never_returns_witness: "user_sys_waitpid (-1) 0 demo_kst = None"
proof -
  have "core_wf (kcur demo_kst)" using demo_tables_ok by (simp add: tables_ok_def kcur_def)
  moreover have "fst (process_reap_child (Some (process_current_user_or_kernel (kcur demo_kst))) 0 (kcur demo_kst)) = None"
    by code_simp
  ultimately show ?thesis using waitpid_never_returns [of demo_kst "-1" 0] by simp
qed

end
