(* ===== verification/Ext2_Dir.thy ===== *)
theory Ext2_Dir
  imports Ext2
begin

text \<open>
  Bitmaps and directory blocks of \<open>Ext2\<close>: allocation takes the first clear bit and marks it,
  and a directory block is a list of entries, searched from the front and extended at the end.
\<close>

section \<open>Bitmaps and the first free bit\<close>

definition used_bit :: "u8 list \<Rightarrow> u32 \<Rightarrow> bool" where
  "used_bit bm b \<longleftrightarrow> bit (bm ! unat (b div 8)) (unat (b mod 8))"

definition bm_in :: "u8 list \<Rightarrow> u32 \<Rightarrow> bool" where
  "bm_in bm b \<longleftrightarrow> unat b < 8 * length bm"

definition bm_mark :: "u8 list \<Rightarrow> u32 \<Rightarrow> u8 list" where
  "bm_mark bm b = bm[unat (b div 8) := bm ! unat (b div 8) OR push_bit (unat (b mod 8)) 1]"

lemma unat_div8: "unat (b div 8 :: u32) = unat b div 8" "unat (b mod 8 :: u32) = unat b mod 8"
  by (simp_all add: unat_div unat_mod)

lemma bm_in_byte: "bm_in bm b \<Longrightarrow> unat (b div 8) < length bm"
  by (simp add: bm_in_def unat_div8 less_mult_imp_div_less mult.commute)

lemma bm_get_eq: "bm_in bm b \<Longrightarrow> bm_get bm b = retS (used_bit bm b)"
  using drop_and_one [of "unat (b mod 8)" "bm ! unat (b div 8)"]
  by (simp add: bm_get_def Let_def bm_in_byte used_bit_def)

lemma bm_set_eq: "bm_in bm b \<Longrightarrow> bm_set bm b = retS (bm_mark bm b)"
  by (simp add: bm_set_def Let_def bm_in_byte bm_mark_def)

lemma length_bm_mark [simp]: "length (bm_mark bm b) = length bm"
  by (simp add: bm_mark_def)

lemma used_bm_mark:
  assumes "bm_in bm b"
  shows "used_bit (bm_mark bm b) c \<longleftrightarrow> c = b \<or> used_bit bm c"
proof (cases "unat c div 8 = unat b div 8")
  case True
  have "c = b \<longleftrightarrow> unat c mod 8 = unat b mod 8"
    using True by (metis div_mult_mod_eq word_unat_eq_iff)
  moreover have "push_bit (unat b mod 8) 1 = (2 ^ (unat b mod 8) :: u8)" by (simp add: push_bit_eq_mult)
  ultimately show ?thesis
    using True bm_in_byte [OF assms] bit_or_single [of "unat b mod 8" "bm ! (unat b div 8)" "unat c mod 8"]
    by (simp add: used_bit_def bm_mark_def unat_div8)
next
  case False
  then have "c \<noteq> b" by auto
  then show ?thesis using False by (simp add: used_bit_def bm_mark_def unat_div8)
qed

definition bm_unmark :: "u8 list \<Rightarrow> u32 \<Rightarrow> u8 list" where
  "bm_unmark bm b = bm[unat (b div 8) := bm ! unat (b div 8) AND NOT (push_bit (unat (b mod 8)) 1)]"

lemma bm_clr_eq: "bm_in bm b \<Longrightarrow> bm_clr bm b = retS (bm_unmark bm b)"
  by (simp add: bm_clr_def Let_def bm_in_byte bm_unmark_def)

lemma length_bm_unmark [simp]: "length (bm_unmark bm b) = length bm"
  by (simp add: bm_unmark_def)

lemma used_bm_unmark:
  assumes "bm_in bm b"
  shows "used_bit (bm_unmark bm b) c \<longleftrightarrow> c \<noteq> b \<and> used_bit bm c"
proof (cases "unat c div 8 = unat b div 8")
  case True
  have "c = b \<longleftrightarrow> unat c mod 8 = unat b mod 8"
    using True by (metis div_mult_mod_eq word_unat_eq_iff)
  moreover have "push_bit (unat b mod 8) 1 = (2 ^ (unat b mod 8) :: u8)" by (simp add: push_bit_eq_mult)
  ultimately show ?thesis
    using True bm_in_byte [OF assms] bit_and_not_single [of "unat c mod 8" "bm ! (unat b div 8)" "unat b mod 8"]
    by (simp add: used_bit_def bm_unmark_def unat_div8)
next
  case False
  then have "c \<noteq> b" by auto
  then show ?thesis using False by (simp add: used_bit_def bm_unmark_def unat_div8)
qed

text \<open>The scan as a function: the first clear bit among \<open>n\<close> candidates.\<close>

fun scan_first :: "u8 list \<Rightarrow> u32 \<Rightarrow> nat \<Rightarrow> u32 option" where
  "scan_first bm b 0 = None"
| "scan_first bm b (Suc n) = (if used_bit bm b then scan_first bm (b + 1) n else Some b)"

lemma alloc_scan_eq:
  "unat b + n \<le> 8 * length bm \<Longrightarrow> unat b + n < 2 ^ 32 \<Longrightarrow> alloc_scan bm b n = retS (scan_first bm b n)"
proof (induction n arbitrary: b)
  case 0
  then show ?case by simp
next
  case (Suc n)
  have "bm_in bm b" using Suc.prems(1) by (simp add: bm_in_def)
  note get = bm_get_eq [OF this]
  have "unat (b + 1) = Suc (unat b)" using Suc.prems(2) by (simp add: unat_word_ariths)
  then show ?case using Suc.IH [of "b + 1"] Suc.prems by (simp add: get)
qed

lemma scan_first_Some:
  "k < n \<Longrightarrow> \<not> used_bit bm (b + of_nat k) \<Longrightarrow> \<forall>j<k. used_bit bm (b + of_nat j) \<Longrightarrow>
   scan_first bm b n = Some (b + of_nat k)"
proof (induction n arbitrary: b k)
  case 0
  then show ?case by simp
next
  case (Suc n)
  have sh: "b + 1 + of_nat i = b + of_nat (Suc i)" for i by (simp add: add.assoc)
  show ?case
  proof (cases k)
    case 0
    then show ?thesis using Suc.prems(2) by simp
  next
    case k: (Suc k')
    have "scan_first bm (b + 1) n = Some (b + 1 + of_nat k')"
      unfolding sh
    proof (rule Suc.IH [of k' "b + 1", unfolded sh])
      show "k' < n" "\<not> used_bit bm (b + of_nat (Suc k'))" using Suc.prems k by simp_all
      show "\<forall>j<k'. used_bit bm (b + of_nat (Suc j))" using Suc.prems(3) k by (simp del: of_nat_Suc)
    qed
    then show ?thesis using Suc.prems(3) [rule_format, of 0] sh k by simp
  qed
qed

lemma scan_first_None: "\<forall>k<n. used_bit bm (b + of_nat k) \<Longrightarrow> scan_first bm b n = None"
proof (induction n arbitrary: b)
  case 0
  then show ?case by simp
next
  case (Suc n)
  have sh: "b + 1 + of_nat i = b + of_nat (Suc i)" for i by (simp add: add.assoc)
  have "\<forall>k<n. used_bit bm (b + 1 + of_nat k)" unfolding sh using Suc.prems by (simp del: of_nat_Suc)
  then show ?case using Suc.IH [of "b + 1"] Suc.prems [rule_format, of 0] by simp
qed

lemma first_clear:
  fixes P :: "nat \<Rightarrow> bool"
  assumes "\<exists>k<n. P k"
  obtains k where "k < n" "P k" "\<forall>j<k. \<not> P j"
proof -
  from assms obtain k0 where k0: "k0 < n" "P k0" by blast
  show thesis
  proof (rule that)
    show "Least P < n" using Least_le [of P k0] k0 by linarith
    show "P (Least P)" using k0(2) by (rule LeastI)
    show "\<forall>j<Least P. \<not> P j" using not_less_Least by blast
  qed
qed

lemma unat_of_nat_32: "x < 2 ^ 32 \<Longrightarrow> unat (of_nat x :: u32) = x"
  by (simp add: unsigned_of_nat take_bit_nat_eq_self)

lemma word_split_from:
  fixes b lo :: u32
  assumes "unat lo \<le> unat b"
  shows "b = lo + of_nat (unat b - unat lo)"
proof -
  have "lo \<le> b" using assms by (simp add: word_le_nat_alt)
  then have "of_nat (unat b - unat lo) = b - lo" by (simp add: unat_sub [symmetric])
  then show ?thesis by simp
qed

text \<open>A scan of the bits from \<open>lo\<close> up to \<open>hi\<close>: the first clear one, or none.\<close>

lemma scan_range:
  assumes "hi < 2 ^ 32" and "unat lo \<le> hi"
  shows "case scan_first bm lo (hi - unat lo) of
      Some b \<Rightarrow> unat lo \<le> unat b \<and> unat b < hi \<and> \<not> used_bit bm b \<and>
        (\<forall>c. unat lo \<le> unat c \<and> unat c < unat b \<longrightarrow> used_bit bm c)
    | None \<Rightarrow> \<forall>b. unat lo \<le> unat b \<and> unat b < hi \<longrightarrow> used_bit bm b"
proof -
  let ?n = "hi - unat lo"
  have off: "unat (lo + of_nat k) = unat lo + k" if "k < ?n" for k
  proof -
    have k: "unat (of_nat k :: u32) = k" using that assms(1) by (intro unat_of_nat_32) linarith
    then have "unat lo + unat (of_nat k :: u32) < 2 ^ 32" using that assms(1) by linarith
    then show ?thesis using unat_add_lem [of lo "of_nat k"] k by simp
  qed
  show ?thesis
  proof (cases "\<exists>k<?n. \<not> used_bit bm (lo + of_nat k)")
    case True
    then obtain k where k: "k < ?n" "\<not> used_bit bm (lo + of_nat k)" "\<forall>j<k. \<not> \<not> used_bit bm (lo + of_nat j)"
      by (rule first_clear)
    have "used_bit bm c" if c: "unat lo \<le> unat c" "unat c < unat (lo + of_nat k)" for c
    proof -
      have "unat c - unat lo < k" using c off [OF k(1)] by linarith
      then show ?thesis using k(3) word_split_from [OF c(1)] by metis
    qed
    moreover have "scan_first bm lo ?n = Some (lo + of_nat k)" using k(3) by (intro scan_first_Some [OF k(1,2)]) simp
    ultimately show ?thesis using k off [OF k(1)] by auto
  next
    case False
    have "used_bit bm b" if b: "unat lo \<le> unat b" "unat b < hi" for b
    proof -
      have "unat b - unat lo < ?n" using b by linarith
      then show ?thesis using False word_split_from [OF b(1)] by metis
    qed
    moreover have "scan_first bm lo ?n = None" using False by (intro scan_first_None) blast
    ultimately show ?thesis by simp
  qed
qed

definition free_block :: "nat \<Rightarrow> u8 list \<Rightarrow> u32 \<Rightarrow> bool" where
  "free_block n bb b \<longleftrightarrow> 23 \<le> unat b \<and> unat b < n \<and> \<not> used_bit bb b"

text \<open>The result of \<open>alloc_block\<close> and of \<open>alloc_inode\<close>, and what it means.\<close>

definition block_choice :: "nat \<Rightarrow> u8 list \<Rightarrow> u32 option" where
  "block_choice n bb = scan_first bb 23 (n - 23)"

definition inode_choice :: "u8 list \<Rightarrow> u32 option" where
  "inode_choice ib = map_option (\<lambda>b. b + 1) (scan_first ib 11 117)"

lemma block_choice_Some:
  assumes "block_choice n bb = Some b" and "23 \<le> n" and "n \<le> 8192"
  shows "free_block n bb b" and "free_block n bb c \<Longrightarrow> unat b \<le> unat c"
proof -
  have "23 \<le> unat b \<and> unat b < n \<and> \<not> used_bit bb b \<and> (\<forall>c. 23 \<le> unat c \<and> unat c < unat b \<longrightarrow> used_bit bb c)"
    using scan_range [of n 23 bb] assms by (simp add: block_choice_def)
  then show "free_block n bb b" and "free_block n bb c \<Longrightarrow> unat b \<le> unat c"
    using not_le by (auto simp: free_block_def)
qed

lemma block_choice_None:
  "23 \<le> n \<Longrightarrow> n \<le> 8192 \<Longrightarrow> block_choice n bb = None \<longleftrightarrow> (\<forall>b. \<not> free_block n bb b)"
  using scan_range [of n 23 bb] by (auto simp: block_choice_def free_block_def split: option.splits)

lemma alloc_block_eq:
  assumes "length bb = CHASEROS_BLK" and "23 \<le> n" and "n \<le> 8192"
  shows "alloc_block bb (of_nat n) = retS (case block_choice n bb of None \<Rightarrow> (0, bb) | Some b \<Rightarrow> (b, bm_mark bb b))"
proof -
  have "bm_in bb b" if "block_choice n bb = Some b" for b
    using block_choice_Some(1) [OF that assms(2,3)] assms by (simp add: bm_in_def free_block_def CHASEROS_BLK_def)
  moreover have "unat (of_nat n :: u32) = n" using assms(3) by (intro unat_of_nat_32) simp
  ultimately show ?thesis
    using assms by (auto simp: alloc_scan_eq alloc_block_def FIRST_DATA_BLOCK_def CHASEROS_BLK_def block_choice_def bm_set_eq split: option.splits)
qed

lemma inode_choice_Some:
  assumes "inode_choice ib = Some ino"
  shows "12 \<le> unat ino" "unat ino \<le> 128" "\<not> used_bit ib (ino - 1)"
proof -
  obtain b where b: "scan_first ib 11 117 = Some b" "ino = b + 1" using assms by (auto simp: inode_choice_def)
  then have r: "11 \<le> unat b \<and> unat b < 128 \<and> \<not> used_bit ib b" using scan_range [of 128 11 ib] by simp
  then have "unat ino = unat b + 1" using b(2) by (simp add: unat_word_ariths)
  then show "12 \<le> unat ino" "unat ino \<le> 128" "\<not> used_bit ib (ino - 1)" using r b(2) by simp_all
qed

lemma inode_choice_None:
  assumes "12 \<le> unat ino" and "unat ino \<le> 128" and "\<not> used_bit ib (ino - 1)"
  shows "inode_choice ib \<noteq> None"
proof -
  have "ino \<noteq> 0" using assms(1) by auto
  then have "unat (ino - 1) = unat ino - 1" by (rule unat_minus_one)
  then have "11 \<le> unat (ino - 1) \<and> unat (ino - 1) < 128" using assms(1,2) by linarith
  then have "scan_first ib 11 117 \<noteq> None" using scan_range [of 128 11 ib] assms(3) by (auto split: option.splits)
  then show ?thesis by (simp add: inode_choice_def)
qed

lemma alloc_inode_eq:
  assumes "length ib = CHASEROS_BLK"
  shows "alloc_inode ib = retS (case inode_choice ib of None \<Rightarrow> (0, ib) | Some ino \<Rightarrow> (ino, bm_mark ib (ino - 1)))"
proof -
  have "bm_in ib b" if "scan_first ib 11 117 = Some b" for b
    using scan_range [of 128 11 ib] that assms by (simp add: bm_in_def CHASEROS_BLK_def)
  then show ?thesis
    using assms by (auto simp: alloc_scan_eq alloc_inode_def CHASEROS_BLK_def inode_choice_def bm_set_eq split: option.splits)
qed

section \<open>Directory blocks as lists of entries\<close>

lemma put_le16_eq: "put_le16 p v = set16 p v"
proof -
  have "ucast (v AND mask 8) = (ucast v :: u8)" by (rule bit_word_eqI) (auto simp: bit_simps)
  then have "ucast (v AND 0xFF) = (ucast v :: u8)" by (simp add: mask_eq_exp_minus_1)
  then show ?thesis by (simp add: put_le16_def set16_def numeral_2_eq_2)
qed

lemma put_le32_eq: "put_le32 p v = set32 p v"
proof -
  have "ucast (w AND mask 8) = (ucast w :: u8)" for w :: u32 by (rule bit_word_eqI) (auto simp: bit_simps)
  then have m: "ucast (w AND 0xFF) = (ucast w :: u8)" for w :: u32 by (simp add: mask_eq_exp_minus_1)
  have "le_list 4 v = [ucast v, ucast (drop_bit 8 v), ucast (drop_bit 16 v), ucast (drop_bit 24 v)]"
    by (simp add: numeral_eq_Suc)
  then show ?thesis by (simp add: put_le32_def set32_def m)
qed

text \<open>
  \<open>dir_at blk pos es e\<close>: from offset \<open>pos\<close> on the block holds the entries \<open>es\<close>, the last of
  them ends at \<open>e\<close>, and the rest of the block is zero.
\<close>

fun dir_at :: "u8 list \<Rightarrow> nat \<Rightarrow> (u32 \<times> string) list \<Rightarrow> nat \<Rightarrow> bool" where
  "dir_at blk pos [] e \<longleftrightarrow> pos = e \<and> e \<le> CHASEROS_BLK \<and> (\<forall>i. e \<le> i \<and> i < CHASEROS_BLK \<longrightarrow> blk ! i = 0)"
| "dir_at blk pos ((ino, name) # es) e \<longleftrightarrow>
     ent_ino blk pos = ino \<and> ent_name blk pos = name \<and> 8 \<le> ent_rec blk pos \<and>
     8 + ent_nl blk pos \<le> unat (ent_rec blk pos) \<and> dir_at blk (pos + unat (ent_rec blk pos)) es e"

lemma dir_at_end: "dir_at blk pos es e \<Longrightarrow> pos \<le> e \<and> e \<le> CHASEROS_BLK"
  by (induction blk pos es e rule: dir_at.induct) auto

lemma ent_nl_less: "ent_nl blk pos < 256"
proof -
  have "get16 (pos + 6) blk AND 0xFF \<le> 0xFF" by (rule word_and_le1)
  then show ?thesis by (simp add: ent_nl_def word_le_nat_alt)
qed

lemma no_nul_ent_name: "no_nul (ent_name blk pos)"
  by (auto simp: ent_name_def no_nul_def dest: set_takeWhileD)

lemma get16_zero:
  assumes "p + 2 \<le> length blk" and "blk ! p = 0" and "blk ! (p + 1) = 0"
  shows "get16 p blk = 0"
proof -
  have "get_at p 2 blk = [blk ! p, blk ! (p + 1)]"
    using assms(1) by (intro nth_equalityI) (auto simp: get_at_def less_Suc_eq numeral_2_eq_2)
  then show ?thesis using assms by (simp add: get16_def)
qed

text \<open>Searching and finding the end, on such a block.\<close>

definition ent_lookup :: "(u32 \<times> string) list \<Rightarrow> string \<Rightarrow> u32 option" where
  "ent_lookup es name = map_of (map (\<lambda>(i, n). (n, i)) es) name"

lemma find_loop_dir:
  assumes "dir_at blk pos es e" and "length blk = CHASEROS_BLK" and "no_nul name"
  shows "find_loop blk name pos = retS (ent_lookup es name)"
  using assms(1)
proof (induction es arbitrary: pos)
  case Nil
  then have "ent_rec blk pos = 0" if "pos + 8 \<le> CHASEROS_BLK"
    using that assms(2) by (auto simp: ent_rec_def intro!: get16_zero)
  then show ?case by (simp add: find_loop.simps ent_lookup_def)
next
  case (Cons ent es)
  obtain ino nm where ent: "ent = (ino, nm)" by fastforce
  note d = Cons.prems [unfolded ent dir_at.simps]
  have le: "pos + unat (ent_rec blk pos) \<le> CHASEROS_BLK" using d dir_at_end by (meson order_trans)
  have "8 \<le> unat (ent_rec blk pos)" using d by (simp add: word_le_nat_alt)
  then have cond: "pos + 8 \<le> CHASEROS_BLK" "\<not> ent_rec blk pos < 8" "\<not> 256 \<le> ent_nl blk pos"
      "\<not> length blk < pos + 8 + ent_nl blk pos"
    using le d assms(2) ent_nl_less [of blk pos] by (auto simp: not_less)
  have "no_nul nm" using d no_nul_ent_name [of blk pos] by simp
  then have "chaseros_strcmp nm name = 0 \<longleftrightarrow> nm = name" using assms(3) by (rule chaseros_strcmp_0)
  then show ?case
    using Cons.IH [of "pos + unat (ent_rec blk pos)"] d cond ent
    by (subst find_loop.simps) (auto simp: ent_lookup_def)
qed

lemma dir_end_dir:
  assumes "dir_at blk pos es e" and "length blk = CHASEROS_BLK"
  shows "dir_end blk pos = e"
  using assms(1)
proof (induction es arbitrary: pos)
  case Nil
  then have "ent_rec blk pos = 0" if "pos + 8 \<le> CHASEROS_BLK"
    using that assms(2) by (auto simp: ent_rec_def intro!: get16_zero)
  then show ?case using Nil by (simp add: dir_end.simps)
next
  case (Cons ent es)
  obtain ino nm where ent: "ent = (ino, nm)" by fastforce
  note d = Cons.prems [unfolded ent dir_at.simps]
  have "pos + unat (ent_rec blk pos) \<le> CHASEROS_BLK" using d dir_at_end by (meson order_trans)
  moreover have "8 \<le> unat (ent_rec blk pos)" using d by (simp add: word_le_nat_alt)
  moreover have "\<not> ent_rec blk pos < 8" using d by (simp add: not_less)
  ultimately show ?case
    using Cons.IH [of "pos + unat (ent_rec blk pos)"] d by (subst dir_end.simps) simp
qed

lemma unat_rec_len:
  assumes "length name \<le> 255"
  shows "unat (rec_len name) = 4 * ((length name + 11) div 4)"
proof -
  have "(8 + of_nat (length name) + 3 :: u16) = of_nat (length name + 11)" by simp
  moreover have "unat (of_nat (length name + 11) :: u16) = length name + 11"
    using assms by (simp add: unsigned_of_nat take_bit_nat_eq_self del: of_nat_add)
  moreover have "(3 :: u16) = mask 2" by (simp add: mask_eq_exp_minus_1)
  ultimately show ?thesis
    using unat_align [of "of_nat (length name + 11) :: u16" 2]
    by (simp add: rec_len_def chaseros_strlen_def add.commute)
qed

lemma rec_len_bounds:
  assumes "length name \<le> 255"
  shows "8 + length name \<le> unat (rec_len name)" "8 \<le> rec_len name"
proof -
  have "8 + length name \<le> 4 * ((length name + 11) div 4)" by presburger
  then show "8 + length name \<le> unat (rec_len name)" using unat_rec_len [OF assms] by simp
  then show "8 \<le> rec_len name" by (simp add: word_le_nat_alt)
qed

lemma get_at_cong:
  assumes "p + n \<le> length a" and "p + n \<le> length b" and "\<forall>i. p \<le> i \<and> i < p + n \<longrightarrow> a ! i = b ! i"
  shows "get_at p n a = get_at p n b"
  using assms by (intro nth_equalityI) (auto simp: get_at_def)

lemma dir_at_append:
  assumes "dir_at blk pos es e" and "length blk = CHASEROS_BLK" and "length blk' = CHASEROS_BLK"
    and "\<forall>i<e. blk' ! i = blk ! i" and "dir_at blk' e fs e'"
  shows "dir_at blk' pos (es @ fs) e'"
  using assms(1)
proof (induction es arbitrary: pos)
  case Nil
  then show ?case using assms(5) by simp
next
  case (Cons ent es)
  obtain ino nm where ent: "ent = (ino, nm)" by fastforce
  note d = Cons.prems [unfolded ent dir_at.simps]
  let ?rec = "unat (ent_rec blk pos)"
  have "pos + ?rec \<le> e" "e \<le> CHASEROS_BLK" using d dir_at_end by blast+
  moreover have "8 \<le> ?rec" using d by (simp add: word_le_nat_alt)
  moreover have "get_at p n blk' = get_at p n blk" if "p + n \<le> e" for p n
    using that assms(2-4) \<open>e \<le> CHASEROS_BLK\<close> by (intro get_at_cong) auto
  ultimately have same: "ent_ino blk' pos = ent_ino blk pos" "ent_rec blk' pos = ent_rec blk pos"
    "ent_nl blk' pos = ent_nl blk pos"
    by (simp_all add: ent_ino_def ent_rec_def ent_nl_def get32_def get16_def)
  moreover have "ent_name blk' pos = ent_name blk pos"
    using d \<open>pos + ?rec \<le> e\<close> same(3) \<open>\<And>n p. p + n \<le> e \<Longrightarrow> get_at p n blk' = get_at p n blk\<close>
    by (simp add: ent_name_def)
  ultimately show ?case using d Cons.IH [of "pos + ?rec"] ent by simp
qed

text \<open>The block with an entry written at \<open>e\<close>, and the entry read back.\<close>

definition ent_put :: "nat \<Rightarrow> u32 \<Rightarrow> string \<Rightarrow> u8 list \<Rightarrow> u8 list" where
  "ent_put e ino name blk =
     put_at (e + 8) (map byte_of_char name)
       (set16 (e + 6) (of_nat (length name)) (set16 (e + 4) (rec_len name) (set32 e ino blk)))"

lemma dirent_put_eq:
  assumes "e + 8 + length name \<le> length blk"
  shows "dirent_put blk e ino name = retS (ent_put e ino name blk, e + unat (rec_len name))"
  using assms by (simp add: dirent_put_def ent_put_def put_le16_eq put_le32_eq chaseros_strlen_def Let_def)

lemma length_ent_put [simp]:
  "e + 8 + length name \<le> length blk \<Longrightarrow> length (ent_put e ino name blk) = length blk"
  by (simp add: ent_put_def)

lemma nth_ent_put:
  assumes "e + 8 + length name \<le> length blk" and "i < length blk" and "i < e \<or> e + 8 + length name \<le> i"
  shows "ent_put e ino name blk ! i = blk ! i"
  using assms by (auto simp: ent_put_def set16_def set32_def nth_put_at)

lemma name_len_masked:
  assumes "n < 256"
  shows "unat ((of_nat n :: u16) AND 0xFF) = n"
proof -
  have "(of_nat n :: u16) AND mask 8 = take_bit 8 (of_nat n)" by (simp add: take_bit_eq_mask)
  then show ?thesis
    using assms by (simp add: unsigned_take_bit_eq unsigned_of_nat take_bit_nat_eq_self mask_eq_exp_minus_1)
qed

lemma ent_put_fields:
  assumes "e + 8 + length name \<le> length blk" and "length name < 256" and "no_nul name"
  shows "ent_ino (ent_put e ino name blk) e = ino" "ent_rec (ent_put e ino name blk) e = rec_len name"
    "ent_nl (ent_put e ino name blk) e = length name" "ent_name (ent_put e ino name blk) e = name"
proof -
  show "ent_ino (ent_put e ino name blk) e = ino" "ent_rec (ent_put e ino name blk) e = rec_len name"
    using assms(1) by (simp_all add: ent_ino_def ent_rec_def ent_put_def mem_simps)
  show nl: "ent_nl (ent_put e ino name blk) e = length name"
    using assms(1,2) by (simp add: ent_nl_def ent_put_def mem_simps name_len_masked)
  have "get_at (e + 8) (length name) (ent_put e ino name blk) = map byte_of_char name"
    using assms(1) by (simp add: ent_put_def mem_simps)
  then show "ent_name (ent_put e ino name blk) e = name"
    using assms(3) by (auto simp: ent_name_def nl comp_def no_nul_def takeWhile_eq_all_conv)
qed

lemma dir_at_tail: "dir_at blk pos es e \<Longrightarrow> e \<le> i \<Longrightarrow> i < CHASEROS_BLK \<Longrightarrow> blk ! i = 0"
  by (induction blk pos es e rule: dir_at.induct) auto

lemma dir_at_ent_put:
  assumes d: "dir_at blk 0 es e" and l: "length blk = CHASEROS_BLK" and n: "length name < 256" "no_nul name"
    and room: "e + unat (rec_len name) \<le> CHASEROS_BLK"
  shows "dir_at (ent_put e ino name blk) 0 (es @ [(ino, name)]) (e + unat (rec_len name))"
proof (rule dir_at_append [OF d l])
  have fit: "e + 8 + length name \<le> length blk"
    using rec_len_bounds(1) [of name] n room l by linarith
  then show "length (ent_put e ino name blk) = CHASEROS_BLK" using l by simp
  show "\<forall>i<e. ent_put e ino name blk ! i = blk ! i" using fit by (auto intro!: nth_ent_put)
  have "ent_put e ino name blk ! i = 0" if "e + unat (rec_len name) \<le> i" "i < CHASEROS_BLK" for i
    using that nth_ent_put [OF fit, of i] dir_at_tail [OF d, of i] rec_len_bounds(1) [of name] n l by simp
  then show "dir_at (ent_put e ino name blk) e [(ino, name)] (e + unat (rec_len name))"
    using ent_put_fields [OF fit n] rec_len_bounds [of name] n room by simp
qed

lemma dir_append_dir:
  assumes "dir_at blk 0 es e" and "length blk = CHASEROS_BLK" and "length name < 256"
  shows "dir_append blk ino name =
    (if e + unat (rec_len name) \<le> CHASEROS_BLK then retS (ent_put e ino name blk) else failS (-1))"
  using assms rec_len_bounds(1) [of name]
  by (auto simp: dir_append_def dir_end_dir dirent_put_eq sm_simps Let_def errIf_def)

end
