(* ===== verification/Ext2_Inode.thy ===== *)
theory Ext2_Inode
  imports Ext2_Dir
begin

text \<open>
  Inodes of \<open>Ext2\<close>: the fields of a byte image, the inode table as blocks 5 to 20 of the volume,
  the blocks and the contents of a file, and the release of its blocks. A volume is here its map
  from block numbers to blocks.
\<close>

type_synonym blockmap = "u32 \<Rightarrow> u8 list"
type_synonym 's wsm = "('s, (u8 list \<times> u8 list) \<times> u8 list \<times> u8 list) sm"

section \<open>Fields\<close>

lemma i_block_set_i_block:
  assumes "length fi = 128" and "i < 12" and "j < 12"
  shows "i_block (set_i_block i b fi) j = (if j = i then b else i_block fi j)"
proof (cases "j = i")
  case True
  then show ?thesis using assms by (simp add: i_block_def set_i_block_def mem_simps)
next
  case False
  then have "40 + 4 * j + 4 \<le> 40 + 4 * i \<or> 40 + 4 * i + 4 \<le> 40 + 4 * j" by linarith
  then show ?thesis using assms False by (simp add: i_block_def set_i_block_def mem_simps)
qed

lemma length_set_i_block [simp]: "length fi = 128 \<Longrightarrow> i < 12 \<Longrightarrow> length (set_i_block i b fi) = 128"
  by (simp add: set_i_block_def)

lemma fields_set_i_block:
  assumes "length fi = 128" and "i < 12"
  shows "i_size (set_i_block i b fi) = i_size fi" "i_mode (set_i_block i b fi) = i_mode fi"
  using assms by (simp_all add: i_size_def i_mode_def set_i_block_def mem_simps)

lemma file_inode_fields:
  assumes "length fi = 128"
  shows "length (file_inode n fi) = 128" "is_reg (file_inode n fi)" "i_size (file_inode n fi) = of_nat n"
    "j < 12 \<Longrightarrow> i_block (file_inode n fi) j = i_block fi j"
  using assms by (simp_all add: file_inode_def Let_def is_reg_def i_mode_def i_size_def i_block_def mem_simps)

lemma dir_inode_fields:
  "length (dir_inode n b) = 128" "is_dir (dir_inode n b)" "i_block (dir_inode n b) 0 = b"
  by (simp_all add: dir_inode_def is_dir_def i_mode_def i_block_def set_i_block_def mem_simps)

lemma reg_not_dir: "is_reg fi \<Longrightarrow> \<not> is_dir fi"
  by (auto simp: is_reg_def is_dir_def)

section \<open>The inode table\<close>

definition inode_no :: "u32 \<Rightarrow> bool" where "inode_no n \<longleftrightarrow> 1 \<le> unat n \<and> unat n \<le> 128"

definition inode_of :: "blockmap \<Rightarrow> u32 \<Rightarrow> u8 list" where
  "inode_of B n = get_at (inode_off n) 128 (B (inode_blk n))"

definition set_inode :: "u32 \<Rightarrow> u8 list \<Rightarrow> blockmap \<Rightarrow> blockmap" where
  "set_inode n fi B = B(inode_blk n := put_at (inode_off n) fi (B (inode_blk n)))"

lemma inode_place:
  assumes "inode_no n"
  shows "unat (inode_blk n) = 5 + (unat n - 1) div 8" "inode_off n = 128 * ((unat n - 1) mod 8)"
proof -
  have "n \<noteq> 0" using assms by (auto simp: inode_no_def)
  then have "unat (n - 1) = unat n - 1" by (rule unat_minus_one)
  moreover have "unat (n - 1) * unat (128 :: u32) < 2 ^ LENGTH(32)"
    using assms calculation unfolding inode_no_def by simp linarith
  then have "unat ((n - 1) * 128) = unat (n - 1) * 128" using unat_mult_lem [of "n - 1" 128] by simp
  ultimately have m: "unat ((n - 1) * 128) = (unat n - 1) * 128" by simp
  then have d: "unat ((n - 1) * 128 div 1024) = (unat n - 1) div 8" by (simp add: unat_div)
  have "unat (5 :: u32) + unat ((n - 1) * 128 div 1024) < 2 ^ LENGTH(32)"
    unfolding d using assms unfolding inode_no_def by simp linarith
  then show "unat (inode_blk n) = 5 + (unat n - 1) div 8"
    using unat_add_lem [of 5 "(n - 1) * 128 div 1024"] d by (simp add: inode_blk_def CHASEROS_BLK_def)
  have "(unat n - 1) * 128 mod 1024 = 128 * ((unat n - 1) mod 8)"
    using mult_mod_right [of 128 "unat n - 1" 8] by (simp add: mult.commute)
  then show "inode_off n = 128 * ((unat n - 1) mod 8)"
    using m by (simp add: inode_off_def CHASEROS_BLK_def unat_mod)
qed

lemma inode_range:
  assumes "inode_no n"
  shows "5 \<le> unat (inode_blk n)" "unat (inode_blk n) \<le> 20" "inode_off n + 128 \<le> CHASEROS_BLK"
proof -
  have "(unat n - 1) div 8 \<le> 15" using assms unfolding inode_no_def by linarith
  then show "5 \<le> unat (inode_blk n)" "unat (inode_blk n) \<le> 20" using inode_place(1) [OF assms] by simp_all
  have "(unat n - 1) mod 8 \<le> 7" by (simp add: less_Suc_eq_le [symmetric])
  then show "inode_off n + 128 \<le> CHASEROS_BLK" using inode_place(2) [OF assms] by (simp add: CHASEROS_BLK_def)
qed

lemma inode_apart:
  assumes "inode_no n" and "inode_no m" and "n \<noteq> m" and "inode_blk n = inode_blk m"
  shows "inode_off n + 128 \<le> inode_off m \<or> inode_off m + 128 \<le> inode_off n"
proof -
  have "unat n \<noteq> unat m" using assms(3) by (simp add: word_unat_eq_iff)
  moreover have "(unat n - 1) div 8 = (unat m - 1) div 8"
    using assms inode_place(1) by (metis add_left_cancel)
  ultimately have "(unat n - 1) mod 8 \<noteq> (unat m - 1) mod 8"
    using assms(1,2) div_mult_mod_eq [of "unat n - 1" 8] div_mult_mod_eq [of "unat m - 1" 8]
    unfolding inode_no_def by linarith
  then show ?thesis using inode_place(2) assms(1,2) by fastforce
qed

lemma length_inode_of:
  "inode_no n \<Longrightarrow> length (B (inode_blk n)) = CHASEROS_BLK \<Longrightarrow> length (inode_of B n) = 128"
  using inode_range(3) [of n] by (simp add: inode_of_def)

lemma inode_of_set_inode:
  assumes "inode_no n" and "inode_no m" and "length fi = 128"
    and "length (B (inode_blk n)) = CHASEROS_BLK" and "length (B (inode_blk m)) = CHASEROS_BLK"
  shows "inode_of (set_inode n fi B) m = (if m = n then fi else inode_of B m)"
proof (cases "m = n \<or> inode_blk m \<noteq> inode_blk n")
  case True
  then show ?thesis using assms inode_range(3) [of n] by (auto simp: inode_of_def set_inode_def mem_simps)
next
  case False
  then show ?thesis
    using assms inode_range(3) [of n] inode_range(3) [of m] inode_apart [of n m]
    by (auto simp: inode_of_def set_inode_def mem_simps)
qed

lemma set_inode_other:
  "inode_no n \<Longrightarrow> unat b < 5 \<or> 20 < unat b \<Longrightarrow> set_inode n fi B b = B b"
  using inode_range(1,2) [of n] by (auto simp: set_inode_def)

lemma length_set_inode:
  "inode_no n \<Longrightarrow> length fi = 128 \<Longrightarrow> length (B (inode_blk n)) = CHASEROS_BLK \<Longrightarrow>
   length (set_inode n fi B b) = length (B b)"
  using inode_range(3) [of n] by (simp add: set_inode_def)

lemma inode_of_cong:
  "inode_no n \<Longrightarrow> (\<And>b. 5 \<le> unat b \<Longrightarrow> unat b \<le> 20 \<Longrightarrow> B' b = B b) \<Longrightarrow> inode_of B' n = inode_of B n"
  using inode_range(1,2) [of n] by (simp add: inode_of_def)

section \<open>Files\<close>

definition nblocks :: "nat \<Rightarrow> nat" where "nblocks n = (n + CHASEROS_BLK - 1) div CHASEROS_BLK"

lemma nblocks_bounds: "n \<le> 1024 * nblocks n" "n \<le> 12288 \<Longrightarrow> nblocks n \<le> 12"
proof -
  have "n + 1023 = 1024 * ((n + 1023) div 1024) + (n + 1023) mod 1024" "(n + 1023) mod 1024 < 1024" by simp_all
  then show "n \<le> 1024 * nblocks n" "n \<le> 12288 \<Longrightarrow> nblocks n \<le> 12"
    unfolding nblocks_def CHASEROS_BLK_def by simp_all
qed

lemma unat_blocks_of:
  assumes "unat sz \<le> 12288"
  shows "unat (blocks_of sz) = nblocks (unat sz)"
proof -
  have "unat (1023 :: u32) + unat sz < 2 ^ LENGTH(32)" using assms by simp
  then have "unat (1023 + sz) = 1023 + unat sz" using unat_add_lem [of 1023 sz] by simp
  moreover have "unat ((1023 + sz) div 1024) = unat (1023 + sz) div 1024" by (simp add: unat_div)
  ultimately show ?thesis by (simp add: blocks_of_def nblocks_def CHASEROS_BLK_def)
qed

definition fblocks :: "u8 list \<Rightarrow> u32 list" where
  "fblocks fi = map (i_block fi) [0..<nblocks (unat (i_size fi))]"

definition file_of :: "blockmap \<Rightarrow> u8 list \<Rightarrow> u8 list" where
  "file_of B fi = take (unat (i_size fi)) (concat (map B (fblocks fi)))"

definition file_ok :: "nat \<Rightarrow> u8 list \<Rightarrow> u8 list \<Rightarrow> bool" where
  "file_ok n bb fi \<longleftrightarrow> unat (i_size fi) \<le> 12288 \<and> distinct (fblocks fi) \<and>
     list_all (\<lambda>b. 23 \<le> unat b \<and> unat b < n \<and> used_bit bb b) (fblocks fi)"

lemma file_of_cong: "(\<And>b. b \<in> set (fblocks fi) \<Longrightarrow> B' b = B b) \<Longrightarrow> file_of B' fi = file_of B fi"
  by (simp add: file_of_def cong: map_cong)

subsection \<open>The counters\<close>

text \<open>Counter updates keep the sizes of both images and the magic number.\<close>

definition cnt_ok :: "u8 list \<times> u8 list \<Rightarrow> bool" where
  "cnt_ok cnt \<longleftrightarrow> length (fst cnt) = CHASEROS_BLK \<and> length (snd cnt) = 32 \<and> s_magic (fst cnt) = EXT2_SUPER_MAGIC"

lemma cnt_ok_add: "cnt_ok cnt \<Longrightarrow> cnt_ok (add_free_blocks d cnt)" "cnt_ok cnt \<Longrightarrow> cnt_ok (add_free_inodes d cnt)"
  by (auto simp: cnt_ok_def add_free_blocks_def add_free_inodes_def s_magic_def mem_simps CHASEROS_BLK_def
      split: prod.splits)

subsection \<open>Releasing the blocks of a file\<close>

lemma free_blocks_loop_ok:
  assumes "length fi = 128" and "i + rest \<le> 12" and "length bb = CHASEROS_BLK" and "cnt_ok cnt"
    and "\<forall>j<rest. 0 < unat (i_block fi (i + j)) \<and> unat (i_block fi (i + j)) < 8192"
  shows "\<exists>cnt' bb' fi'. free_blocks_loop i rest (cnt, bb, fi) = (retS (cnt', bb', fi') :: 's wsm) \<and>
    length fi' = 128 \<and> length bb' = CHASEROS_BLK \<and> cnt_ok cnt' \<and>
    (\<forall>c. used_bit bb' c \<longleftrightarrow> used_bit bb c \<and> c \<notin> (\<lambda>j. i_block fi (i + j)) ` {..<rest})"
  using assms
proof (induction rest arbitrary: i cnt bb fi)
  case 0
  then show ?case by (intro exI [of _ cnt] exI [of _ bb] exI [of _ fi]) simp
next
  case (Suc rest)
  let ?b = "i_block fi i" and ?fi = "set_i_block i 0 fi"
  have b: "0 < unat ?b" "unat ?b < 8192" using Suc.prems(5) [rule_format, of 0] by simp_all
  then have nz: "?b \<noteq> 0" and bm_b: "bm_in bb ?b" using Suc.prems(3) by (auto simp: bm_in_def CHASEROS_BLK_def)
  have shift: "i_block ?fi (Suc i + j) = i_block fi (i + Suc j)" if "j < rest" for j
    using that Suc.prems(1,2) by (simp add: i_block_set_i_block)
  have pre: "\<forall>j<rest. 0 < unat (i_block ?fi (Suc i + j)) \<and> unat (i_block ?fi (Suc i + j)) < 8192"
    using Suc.prems(5) by (simp add: shift del: add_Suc add_Suc_right)
  have len: "length ?fi = 128" "Suc i + rest \<le> 12" "length (bm_unmark bb ?b) = CHASEROS_BLK"
    "cnt_ok (add_free_blocks 1 cnt)"
    using Suc.prems(1-4) by (simp_all add: cnt_ok_add)
  note ih = Suc.IH [OF len pre]
  obtain cnt' bb' fi' where r:
    "free_blocks_loop (Suc i) rest (add_free_blocks 1 cnt, bm_unmark bb ?b, ?fi) = (retS (cnt', bb', fi') :: 's wsm)"
    "length fi' = 128" "length bb' = CHASEROS_BLK" "cnt_ok cnt'"
    "\<forall>c. used_bit bb' c \<longleftrightarrow> used_bit (bm_unmark bb ?b) c \<and> c \<notin> (\<lambda>j. i_block ?fi (Suc i + j)) ` {..<rest}"
    using ih by (elim exE conjE) (rule that)
  have im1: "(\<lambda>j. i_block ?fi (Suc i + j)) ` {..<rest} = (\<lambda>j. i_block fi (i + Suc j)) ` {..<rest}"
    by (intro image_cong refl) (simp add: shift del: add_Suc)
  have im2: "(\<lambda>j. i_block fi (i + j)) ` {..<Suc rest} = insert ?b ((\<lambda>j. i_block fi (i + Suc j)) ` {..<rest})"
    by (simp add: lessThan_Suc_eq_insert_0 image_image)
  have "\<forall>c. used_bit bb' c \<longleftrightarrow> used_bit bb c \<and> c \<notin> (\<lambda>j. i_block fi (i + j)) ` {..<Suc rest}"
    unfolding im2 r(5) [unfolded im1, rule_format] used_bm_unmark [OF bm_b] insert_iff by metis
  moreover have "free_blocks_loop i (Suc rest) (cnt, bb, fi) = (retS (cnt', bb', fi') :: 's wsm)"
    using nz r(1) by (simp add: bm_clr_eq [OF bm_b] Let_def)
  ultimately show ?case using r(2-4) by (intro exI conjI)
qed

lemma set_fblocks: "set (fblocks fi) = i_block fi ` {..<nblocks (unat (i_size fi))}"
  by (auto simp: fblocks_def)

lemma free_inode_blocks_ok:
  assumes "length fi = 128" and "length bb = CHASEROS_BLK" and "cnt_ok cnt"
    and "file_ok n bb0 fi" and "n \<le> 8192"
  shows "\<exists>cnt' bb' fi'. free_inode_blocks cnt bb fi = (retS (cnt', bb', fi') :: 's wsm) \<and>
    length fi' = 128 \<and> length bb' = CHASEROS_BLK \<and> cnt_ok cnt' \<and>
    (\<forall>c. used_bit bb' c \<longleftrightarrow> used_bit bb c \<and> c \<notin> set (fblocks fi))"
proof -
  have sz: "unat (i_size fi) \<le> 12288" and bl: "\<forall>b\<in>set (fblocks fi). 23 \<le> unat b \<and> unat b < n"
    using assms(4) by (simp_all add: file_ok_def list_all_iff)
  let ?k = "nblocks (unat (i_size fi))"
  have k: "unat (blocks_of (i_size fi)) = ?k" "?k \<le> 12" using unat_blocks_of [OF sz] nblocks_bounds(2) [OF sz] by simp_all
  then have "\<not> 12 < blocks_of (i_size fi)" by (simp add: word_less_nat_alt)
  moreover have "\<forall>j<?k. 0 < unat (i_block fi (0 + j)) \<and> unat (i_block fi (0 + j)) < 8192"
    using bl assms(5) unfolding set_fblocks by (simp add: Ball_def) fastforce
  note free_blocks_loop_ok [OF assms(1) _ assms(2,3) this, simplified, OF k(2), folded set_fblocks, where 's = 's]
  then obtain cnt' bb' fi' where "free_blocks_loop 0 ?k (cnt, bb, fi) = (retS (cnt', bb', fi') :: 's wsm)"
    "length fi' = 128" "length bb' = CHASEROS_BLK" "cnt_ok cnt'"
    "\<forall>c. used_bit bb' c \<longleftrightarrow> used_bit bb c \<and> c \<notin> set (fblocks fi)"
    by (elim exE conjE) (rule that)
  ultimately show ?thesis
    using k(1) by (intro exI [of _ cnt'] exI [of _ bb'] exI [of _ "set32 28 0 (set32 4 0 fi')"])
      (simp add: free_inode_blocks_def Let_def)
qed

section \<open>The volume as a map from names to contents\<close>

text \<open>
  The regular files of the root directory. \<open>fs_ents\<close> is the invariant of a formatted volume whose
  root directory has the entries \<open>es\<close> and ends at offset \<open>e\<close>: the inodes of the entries are
  marked used, the blocks of the files are data blocks that are marked used, and no two files
  share an inode or a block.
\<close>

definition regs :: "blockmap \<Rightarrow> (u32 \<times> string) list \<Rightarrow> u32 list" where
  "regs B es = filter (\<lambda>i. is_reg (inode_of B i)) (map fst es)"

definition vol_wf :: "nat \<Rightarrow> blockmap \<Rightarrow> bool" where
  "vol_wf n B \<longleftrightarrow> 256 \<le> n \<and> n \<le> 8192 \<and> (\<forall>b. unat b < n \<longrightarrow> length (B b) = CHASEROS_BLK) \<and>
     s_magic (B 1) = EXT2_SUPER_MAGIC \<and> is_dir (inode_of B 2) \<and> i_block (inode_of B 2) 0 = 21"

definition files_ok :: "nat \<Rightarrow> blockmap \<Rightarrow> u32 list \<Rightarrow> bool" where
  "files_ok n B is \<longleftrightarrow> distinct is \<and> list_all (\<lambda>i. file_ok n (B 3) (inode_of B i)) is \<and>
     (\<forall>i\<in>set is. \<forall>j\<in>set is. i \<noteq> j \<longrightarrow> set (fblocks (inode_of B i)) \<inter> set (fblocks (inode_of B j)) = {})"

definition fs_ents :: "nat \<Rightarrow> blockmap \<Rightarrow> (u32 \<times> string) list \<Rightarrow> nat \<Rightarrow> bool" where
  "fs_ents n B es e \<longleftrightarrow> vol_wf n B \<and> dir_at (B 21) 0 es e \<and> distinct (map snd es) \<and>
     list_all (\<lambda>(i, nm). inode_no i \<and> used_bit (B 4) (i - 1)) es \<and> files_ok n B (regs B es)"

definition fs_contents :: "blockmap \<Rightarrow> (u32 \<times> string) list \<Rightarrow> string \<rightharpoonup> u8 list" where
  "fs_contents B es nm = (case ent_lookup es nm of
      Some i \<Rightarrow> if is_reg (inode_of B i) then Some (file_of B (inode_of B i)) else None
    | None \<Rightarrow> None)"

definition fs_rel :: "nat \<Rightarrow> blockmap \<Rightarrow> (string \<rightharpoonup> u8 list) \<Rightarrow> bool" where
  "fs_rel n B M \<longleftrightarrow> (\<exists>es e. fs_ents n B es e \<and> M = fs_contents B es)"

lemma ent_lookup_iff: "distinct (map snd es) \<Longrightarrow> ent_lookup es nm = Some i \<longleftrightarrow> (i, nm) \<in> set es"
proof (induction es)
  case (Cons a es)
  then show ?case by (cases a) (force simp: ent_lookup_def)
qed (simp add: ent_lookup_def)

lemma ent_lookup_None: "ent_lookup es nm = None \<longleftrightarrow> nm \<notin> snd ` set es"
  by (force simp: ent_lookup_def map_of_eq_None_iff)

lemma ent_lookup_append:
  "ent_lookup (es @ [(i, nm)]) k = (case ent_lookup es k of None \<Rightarrow> if k = nm then Some i else None | Some j \<Rightarrow> Some j)"
  by (simp add: ent_lookup_def map_add_def split: option.split)

text \<open>An entry written in place, or appended.\<close>

definition entry_added :: "blockmap \<Rightarrow> u32 \<Rightarrow> string \<Rightarrow> (u32 \<times> string) list \<Rightarrow> (u32 \<times> string) list \<Rightarrow> bool" where
  "entry_added B i nm es es' \<longleftrightarrow>
     es' = es \<and> (i, nm) \<in> set es \<and> is_reg (inode_of B i) \<or>
     es' = es @ [(i, nm)] \<and> nm \<notin> snd ` set es \<and> i \<notin> fst ` set es"

definition inode_changed :: "blockmap \<Rightarrow> blockmap \<Rightarrow> u32 \<Rightarrow> bool" where
  "inode_changed B B' i \<longleftrightarrow> inode_no i \<and> is_reg (inode_of B' i) \<and>
     (\<forall>m. inode_no m \<and> m \<noteq> i \<longrightarrow> inode_of B' m = inode_of B m)"

lemma regs_changed:
  assumes "entry_added B i nm es es'" and "inode_changed B B' i" and "\<forall>(m, k)\<in>set es. inode_no m"
  shows "regs B' es' = (if es' = es then regs B es else regs B es @ [i])" "set (regs B' es') = insert i (set (regs B es))"
proof -
  have "is_reg (inode_of B' m) = is_reg (inode_of B m)" if "m \<in> fst ` set es" "m = i \<longrightarrow> es' = es" for m
    using that assms by (auto simp: inode_changed_def entry_added_def)
  then have "regs B' es = regs B es" if "es' = es \<or> i \<notin> fst ` set es"
    unfolding regs_def using that by (intro filter_cong refl) auto
  then show r: "regs B' es' = (if es' = es then regs B es else regs B es @ [i])"
    using assms(1,2) by (auto simp: entry_added_def inode_changed_def regs_def)
  have "i \<in> set (regs B es)" if "es' = es" using that assms(1) by (force simp: entry_added_def regs_def)
  then show "set (regs B' es') = insert i (set (regs B es))" unfolding r by auto
qed

definition others_kept :: "blockmap \<Rightarrow> blockmap \<Rightarrow> u32 \<Rightarrow> u32 list \<Rightarrow> bool" where
  "others_kept B B' i js \<longleftrightarrow> (\<forall>j\<in>set js. j \<noteq> i \<longrightarrow> (\<forall>b\<in>set (fblocks (inode_of B j)).
     used_bit (B' 3) b \<and> B' b = B b \<and> b \<notin> set (fblocks (inode_of B' i))))"

lemma regs_no: "\<forall>(m, k)\<in>set es. inode_no m \<Longrightarrow> j \<in> set (regs B es) \<Longrightarrow> inode_no j"
  by (auto simp: regs_def)

lemma files_changed:
  assumes "files_ok n B (regs B es)" and "entry_added B i nm es es'" and "inode_changed B B' i"
    and no: "\<forall>(m, k)\<in>set es. inode_no m" and "file_ok n (B' 3) (inode_of B' i)" and "others_kept B B' i (regs B es)"
  shows "files_ok n B' (regs B' es')"
proof -
  note r = regs_changed [OF assms(2,3) no]
  have same: "inode_of B' j = inode_of B j" if "j \<in> set (regs B es)" "j \<noteq> i" for j
    using regs_no [OF no that(1)] that(2) assms(3) by (simp add: inode_changed_def)
  have "distinct (regs B' es')"
    unfolding r(1) using assms(1,2) by (auto simp: files_ok_def entry_added_def regs_def)
  moreover have "file_ok n (B' 3) (inode_of B' j)" if "j \<in> set (regs B' es')" for j
  proof (cases "j = i")
    case False
    then have j: "j \<in> set (regs B es)" using that unfolding r(2) by simp
    then have "file_ok n (B 3) (inode_of B j)" using assms(1) by (simp add: files_ok_def list_all_iff)
    then show ?thesis
      using assms(6) False j by (simp add: file_ok_def same list_all_iff others_kept_def)
  qed (simp add: assms(5))
  moreover have "set (fblocks (inode_of B' j)) \<inter> set (fblocks (inode_of B' k)) = {}"
    if "j \<in> set (regs B' es')" "k \<in> set (regs B' es')" "j \<noteq> k" for j k
  proof -
    have "j = i \<or> j \<in> set (regs B es)" "k = i \<or> k \<in> set (regs B es)" using that unfolding r(2) by simp_all
    moreover have "set (fblocks (inode_of B m)) \<inter> set (fblocks (inode_of B' i)) = {}"
      if "m \<in> set (regs B es)" "m \<noteq> i" for m
      using assms(6) that unfolding others_kept_def by blast
    moreover have "set (fblocks (inode_of B j)) \<inter> set (fblocks (inode_of B k)) = {}"
      if "j \<in> set (regs B es)" "k \<in> set (regs B es)"
      using assms(1) that \<open>j \<noteq> k\<close> unfolding files_ok_def by blast
    ultimately show ?thesis using same \<open>j \<noteq> k\<close> by (metis inf_commute)
  qed
  ultimately show ?thesis unfolding files_ok_def list_all_iff by blast
qed

lemma regs_twice:
  assumes "(i, a) \<in> set es" and "is_reg (inode_of B i)" and "(i, b) \<in> set es" and "a \<noteq> b"
  shows "\<not> distinct (regs B es)"
  using assms
proof (induction es)
  case (Cons x es)
  have "i \<in> set (regs B es)" if "(i, c) \<in> set es" for c using that Cons.prems(2) by (force simp: regs_def)
  then show ?case using Cons by (auto simp: regs_def)
qed simp

lemma contents_changed:
  assumes ea: "entry_added B i nm es es'" and ic: "inode_changed B B' i" and d: "distinct (map snd es)"
    and no: "\<forall>(m, k)\<in>set es. inode_no m" and fo: "files_ok n B (regs B es)" and ok: "others_kept B B' i (regs B es)"
  shows "fs_contents B' es' = (fs_contents B es)(nm \<mapsto> file_of B' (inode_of B' i))"
proof
  fix k
  have look: "ent_lookup es' k = (if k = nm then Some i else ent_lookup es k)"
  proof (cases "es' = es")
    case True
    then show ?thesis using ea ent_lookup_iff [OF d, of nm i] by (auto simp: entry_added_def)
  next
    case False
    then have "es' = es @ [(i, nm)]" "ent_lookup es nm = None"
      using ea by (auto simp: entry_added_def ent_lookup_None)
    then show ?thesis by (auto simp: ent_lookup_append split: option.split)
  qed
  have uniq: "k = nm" if "ent_lookup es k = Some i"
  proof (rule ccontr)
    assume "k \<noteq> nm"
    have k: "(i, k) \<in> set es" using that ent_lookup_iff [OF d] by simp
    then have "(i, nm) \<in> set es" "is_reg (inode_of B i)" using ea by (force simp: entry_added_def)+
    then have "\<not> distinct (regs B es)" using regs_twice [OF k] \<open>k \<noteq> nm\<close> by blast
    then show False using fo by (simp add: files_ok_def)
  qed
  show "fs_contents B' es' k = ((fs_contents B es)(nm \<mapsto> file_of B' (inode_of B' i))) k"
  proof (cases "k = nm")
    case True
    then show ?thesis using ic look by (simp add: fs_contents_def inode_changed_def)
  next
    case False
    have "inode_of B' j = inode_of B j \<and> (is_reg (inode_of B j) \<longrightarrow> file_of B' (inode_of B j) = file_of B (inode_of B j))"
      if j: "ent_lookup es k = Some j" for j
    proof -
      have "j \<noteq> i" using uniq False j by blast
      moreover have "(j, k) \<in> set es" using j ent_lookup_iff [OF d] by simp
      moreover have "is_reg (inode_of B j) \<Longrightarrow> j \<in> set (regs B es)" using calculation(2) by (force simp: regs_def)
      ultimately show ?thesis
        using no ic ok by (auto simp: inode_changed_def others_kept_def intro!: file_of_cong)
    qed
    then show ?thesis using False by (auto simp: fs_contents_def look split: option.split)
  qed
qed

lemma fs_update:
  assumes fs: "fs_ents n B es e" and "vol_wf n B'" and "dir_at (B' 21) 0 es' e'"
    and ea: "entry_added B i nm es es'" and ic: "inode_changed B B' i" and "file_ok n (B' 3) (inode_of B' i)"
    and ok: "others_kept B B' i (regs B es)"
    and bits: "\<And>m. used_bit (B 4) m \<Longrightarrow> used_bit (B' 4) m" "used_bit (B' 4) (i - 1)"
  shows "fs_ents n B' es' e'" "fs_contents B' es' = (fs_contents B es)(nm \<mapsto> file_of B' (inode_of B' i))"
proof -
  have d: "distinct (map snd es)" and l: "list_all (\<lambda>(m, k). inode_no m \<and> used_bit (B 4) (m - 1)) es"
    and fo: "files_ok n B (regs B es)" using fs by (simp_all add: fs_ents_def)
  have no: "\<forall>(m, k)\<in>set es. inode_no m" using l by (auto simp: list_all_iff)
  have "distinct (map snd es')" using d ea by (auto simp: entry_added_def)
  moreover have "list_all (\<lambda>(m, k). inode_no m \<and> used_bit (B' 4) (m - 1)) es'"
    using l ea ic bits by (fastforce simp: entry_added_def list_all_iff inode_changed_def)
  moreover have "files_ok n B' (regs B' es')" by (rule files_changed [OF fo ea ic no assms(6) ok])
  ultimately show "fs_ents n B' es' e'" using assms(2,3) by (simp add: fs_ents_def)
  show "fs_contents B' es' = (fs_contents B es)(nm \<mapsto> file_of B' (inode_of B' i))"
    by (rule contents_changed [OF ea ic d no fo ok])
qed

section \<open>Copying out of a block\<close>

lemma copy_loop_eq:
  assumes "j + rest \<le> length tmp" and "length acc \<le> maxcopy"
  shows "copy_loop tmp fc off maxcopy j rest acc =
    acc @ take (maxcopy - length acc) (drop (off - (fc + j)) (take rest (drop j tmp)))"
  using assms
proof (induction rest arbitrary: j acc)
  case (Suc rest)
  have "drop j tmp = tmp ! j # drop (Suc j) tmp"
    using Suc.prems(1) by (intro Cons_nth_drop_Suc [symmetric]) simp
  then have hd: "take (Suc rest) (drop j tmp) = tmp ! j # take rest (drop (Suc j) tmp)" by simp
  show ?case
  proof (cases "length acc < maxcopy \<and> fc + j \<ge> off")
    case True
    then have "maxcopy - length acc = Suc (maxcopy - Suc (length acc))" by linarith
    then show ?thesis
      using Suc.IH [of "Suc j" "acc @ [tmp ! j]"] Suc.prems True by (auto simp: hd Let_def)
  next
    case False
    then have "off - (fc + j) = Suc (off - (fc + Suc j)) \<or> length acc = maxcopy" using Suc.prems(2) by linarith
    then show ?thesis using Suc.IH [of "Suc j" acc] Suc.prems False by (auto simp: hd)
  qed
qed simp

text \<open>One block of a file, appended to the part of the range copied so far.\<close>

lemma take_drop_step:
  assumes "fc \<le> length D"
  shows "take m (drop off (take (fc + k) D)) =
    take m (drop off (take fc D)) @
    take (m - length (take m (drop off (take fc D)))) (drop (off - fc) (take k (drop fc D)))"
proof -
  have "drop off (take (fc + k) D) = drop off (take fc D) @ drop (off - fc) (take k (drop fc D))"
    using assms by (simp add: take_add min_absorb2)
  then show ?thesis by (simp add: min_def)
qed

end
