(* ===== verification/Ext2_Refine.thy ===== *)
theory Ext2_Refine
  imports Ext2_Inode
begin

text \<open>
  The file system on a volume: formatting, writing and reading of \<open>Ext2\<close>, run on any volume
  that keeps the laws of \<open>block_volume\<close>, act on the map from names to contents of \<open>Ext2_Inode\<close>.
\<close>

text \<open>
  From every good state whose blocks are \<open>B\<close>, \<open>m\<close> returns \<open>r\<close> and leaves a good state whose
  blocks are \<open>B'\<close>.
\<close>

definition runs ::
  "('s \<Rightarrow> bool) \<Rightarrow> ('s \<Rightarrow> blockmap) \<Rightarrow> blockmap \<Rightarrow> ('s, 'a) sm \<Rightarrow> 'a outcome \<Rightarrow> blockmap \<Rightarrow> bool" where
  "runs ok blocks B m r B' \<longleftrightarrow>
     (\<forall>s. ok s \<and> blocks s = B \<longrightarrow> (\<exists>s'. m s = (r, s') \<and> ok s' \<and> blocks s' = B'))"

lemma runs_ret: "runs ok blocks B (retS x) (Ok x) B"
  by (simp add: runs_def retS_def)

lemma runs_fail: "runs ok blocks B (failS e) (Err e) B"
  by (simp add: runs_def failS_def)

lemma runs_errIf: "runs ok blocks B (errIf c e) (if c then Err e else Ok ()) B"
  by (simp add: runs_def errIf_def failS_def retS_def)

lemma runs_bind:
  "runs ok blocks B m (Ok x) B1 \<Longrightarrow> runs ok blocks B1 (f x) r B2 \<Longrightarrow> runs ok blocks B (bindS m f) r B2"
  unfolding runs_def bindS_def by fastforce

lemma runs_bind_err: "runs ok blocks B m (Err e) B1 \<Longrightarrow> runs ok blocks B (bindS m f) (Err e) B1"
  unfolding runs_def bindS_def by fastforce

lemma runs_orElse:
  "runs ok blocks B m (Ok x) B1 \<Longrightarrow> runs ok blocks B (orElse m e) (Ok x) B1"
  "runs ok blocks B m (Err d) B1 \<Longrightarrow> runs ok blocks B (orElse m e) (Err e) B1"
  unfolding runs_def orElse_def by fastforce+

lemma runs_guard: "\<not> c \<Longrightarrow> runs ok blocks B m r B' \<Longrightarrow> runs ok blocks B (bindS (errIf c e) (\<lambda>_. m)) r B'"
  by (simp add: errIf_def)

lemma runs_D: "runs ok blocks B m r B' \<Longrightarrow> ok s \<Longrightarrow> blocks s = B \<Longrightarrow> \<exists>s'. m s = (r, s') \<and> ok s' \<and> blocks s' = B'"
  by (simp add: runs_def)

lemma normS_name: "valid_seg name \<Longrightarrow> normS (slash # name) = retS (slash # name)"
proof -
  assume v: "valid_seg name"
  then have "canonical (slash # name)"
    unfolding canonical_def by (intro disjI2 exI [of _ "[name]"]) (simp add: CHASEROS_SEG_MAX_def)
  then have "chaseros_path_normalize (slash # name) CHASEROS_PATH_MAX = Some (slash # name)"
    by (rule normalize_fixed) (use v in \<open>simp add: valid_seg_def CHASEROS_PATH_MAX_def\<close>)
  then show ?thesis by (simp add: normS_def)
qed

lemma splitS_name: "valid_seg name \<Longrightarrow> length name < 127 \<Longrightarrow> splitS (slash # name) = retS ([slash], name)"
  using split_parent_joined [of "[]" name] by (simp add: splitS_def CHASEROS_PATH_MAX_def)

text \<open>The blocks of a file, one after the other.\<close>

lemma concat_blocks:
  assumes "\<forall>x\<in>set xs. length (f x) = k"
  shows "length (concat (map f xs)) = k * length xs" "drop (k * i) (concat (map f xs)) = concat (map f (drop i xs))"
  using assms
proof (induction xs arbitrary: i)
  case (Cons x xs)
  {
    case 1
    then show ?case using Cons.IH(1) by simp
  next
    case 2
    then show ?case using Cons.IH(2) by (cases i) simp_all
  }
qed simp_all

lemma file_block:
  assumes "i < nblocks (unat (i_size fi))" and "\<forall>b\<in>set (fblocks fi). length (B b) = CHASEROS_BLK"
    and "k \<le> CHASEROS_BLK" and "1024 * i + k \<le> unat (i_size fi)"
  shows "take k (drop (1024 * i) (file_of B fi)) = take k (B (i_block fi i))"
proof -
  have i: "i < length (fblocks fi)" "fblocks fi ! i = i_block fi i" using assms(1) by (simp_all add: fblocks_def)
  then have "drop (1024 * i) (concat (map B (fblocks fi))) =
      B (i_block fi i) @ concat (map B (drop (Suc i) (fblocks fi)))"
    using concat_blocks(2) [OF assms(2), of i] by (simp add: Cons_nth_drop_Suc [symmetric] CHASEROS_BLK_def)
  moreover have "length (B (i_block fi i)) = CHASEROS_BLK" using assms(2) i nth_mem by metis
  moreover have "k \<le> unat (i_size fi) - 1024 * i" using assms(4) by linarith
  ultimately show ?thesis using assms(3) by (simp add: file_of_def drop_take min_absorb1)
qed

lemma length_file_of:
  assumes "\<forall>b\<in>set (fblocks fi). length (B b) = CHASEROS_BLK"
  shows "length (file_of B fi) = unat (i_size fi)"
  using concat_blocks(1) [OF assms] nblocks_bounds(1) [of "unat (i_size fi)"]
  by (simp add: file_of_def fblocks_def CHASEROS_BLK_def)

lemma nblocks_less: "i < nblocks n \<Longrightarrow> 1024 * i < n"
proof -
  have "n + 1023 = 1024 * ((n + 1023) div 1024) + (n + 1023) mod 1024" by simp
  then show "i < nblocks n \<Longrightarrow> 1024 * i < n" unfolding nblocks_def CHASEROS_BLK_def by simp
qed

text \<open>What the loop of the writer stores in block \<open>bi\<close> of a file, and the file it makes up.\<close>

definition blk_data :: "u8 list \<Rightarrow> nat \<Rightarrow> u8 list" where
  "blk_data data bi =
     (let chunk = (if bi * CHASEROS_BLK + CHASEROS_BLK > length data
                   then length data - bi * CHASEROS_BLK else CHASEROS_BLK) in
      put_at 0 (get_at (bi * CHASEROS_BLK) chunk data) (replicate CHASEROS_BLK 0))"

lemma length_blk_data [simp]: "length (blk_data data bi) = CHASEROS_BLK"
  by (simp add: blk_data_def Let_def put_at_def get_at_def)

lemma blk_data_eq: "blk_data data bi = take CHASEROS_BLK (drop (bi * CHASEROS_BLK) data) @
    replicate (CHASEROS_BLK - (length data - bi * CHASEROS_BLK)) 0"
  by (simp add: blk_data_def Let_def put_at_def get_at_def min_def)

lemma concat_blk_data:
  assumes "length data \<le> 1024 * (bi + k)"
  shows "take (length data - 1024 * bi) (concat (map (blk_data data) [bi..<bi + k])) = drop (1024 * bi) data"
  using assms
proof (induction k arbitrary: bi)
  case (Suc k)
  have up: "[bi..<bi + Suc k] = bi # [Suc bi..<Suc bi + k]" by (simp add: upt_conv_Cons del: upt_Suc)
  have ih: "take (length data - 1024 * Suc bi) (concat (map (blk_data data) [Suc bi..<Suc bi + k])) = drop (1024 * Suc bi) data"
    using Suc.prems by (intro Suc.IH) simp
  have split: "drop (1024 * bi) data = take 1024 (drop (1024 * bi) data) @ drop (1024 * Suc bi) data"
    by (metis append_take_drop_id drop_drop mult_Suc_right)
  have "take (length data - 1024 * bi) (blk_data data bi) = take 1024 (drop (1024 * bi) data)"
    by (simp add: blk_data_eq CHASEROS_BLK_def mult.commute min_def)
  moreover have "length data - 1024 * bi - 1024 = length data - 1024 * Suc bi" by simp
  ultimately show ?case
    unfolding up using ih split by (simp add: CHASEROS_BLK_def del: upt_Suc)
qed simp

text \<open>
  The outcome of the writer's loop on \<open>rest\<close> blocks from \<open>bi\<close> on: it took the free blocks \<open>bns\<close>.
\<close>

definition wrote ::
  "nat \<Rightarrow> u8 list \<Rightarrow> nat \<Rightarrow> nat \<Rightarrow> u8 list \<Rightarrow> u8 list \<Rightarrow> blockmap \<Rightarrow>
   (u8 list \<times> u8 list) \<times> u8 list \<times> u8 list \<Rightarrow> blockmap \<Rightarrow> u32 list \<Rightarrow> bool" where
  "wrote n data bi rest bb fi B st B' bns \<longleftrightarrow> (case st of (cnt', bb', fi') \<Rightarrow>
     cnt_ok cnt' \<and> length bb' = CHASEROS_BLK \<and> length fi' = 128 \<and>
     i_size fi' = i_size fi \<and> i_mode fi' = i_mode fi \<and>
     (\<forall>j<12. i_block fi' j = (if bi \<le> j \<and> j < bi + rest then bns ! (j - bi) else i_block fi j)) \<and>
     length bns = rest \<and> distinct bns \<and> (\<forall>b\<in>set bns. free_block n bb b) \<and>
     (\<forall>b. used_bit bb' b \<longleftrightarrow> used_bit bb b \<or> b \<in> set bns) \<and>
     (\<forall>b. b \<notin> set bns \<longrightarrow> B' b = B b) \<and> (\<forall>j<rest. B' (bns ! j) = blk_data data (bi + j)))"

lemma wrote_step:
  assumes "free_block n bb bn" and "n \<le> 8192" and "length bb = CHASEROS_BLK" and fi: "length fi = 128" "bi + Suc rest \<le> 12"
    and w: "wrote n data (Suc bi) rest (bm_mark bb bn) (set_i_block bi bn fi) (B(bn := blk_data data bi)) st B' bns"
  shows "wrote n data bi (Suc rest) bb fi B st B' (bn # bns)"
proof -
  obtain cnt' bb' fi' where st: "st = (cnt', bb', fi')" by (cases st)
  have "bm_in bb bn" using assms(1-3) by (simp add: bm_in_def free_block_def CHASEROS_BLK_def)
  note mark = used_bm_mark [OF this]
  have new: "\<forall>b\<in>set bns. free_block n bb b \<and> b \<noteq> bn"
    using w by (auto simp: wrote_def st free_block_def mark)
  have "i_block fi' j = (if bi \<le> j \<and> j < bi + Suc rest then (bn # bns) ! (j - bi) else i_block fi j)" if "j < 12" for j
  proof -
    have "i_block fi' j = (if Suc bi \<le> j \<and> j < Suc bi + rest then bns ! (j - Suc bi) else i_block (set_i_block bi bn fi) j)"
      using w that by (simp add: wrote_def st)
    then show ?thesis using that fi by (auto simp: i_block_set_i_block nth_Cons' Suc_diff_le not_le)
  qed
  moreover have "B' ((bn # bns) ! j) = blk_data data (bi + j)" if "j < Suc rest" for j
    using w that new by (cases j) (auto simp: wrote_def st)
  moreover have "i_size fi' = i_size fi" "i_mode fi' = i_mode fi" using w fi by (simp_all add: wrote_def st fields_set_i_block)
  ultimately show ?thesis using w new assms(1) unfolding wrote_def st by (auto simp: mark)
qed

text \<open>
  The outcome of the choice of an inode: \<open>B1\<close> has the directory \<open>es'\<close> with the name in it, and
  the block bitmap \<open>bb\<close> no longer has the blocks of an older file of this name.
\<close>

definition old_blocks :: "blockmap \<Rightarrow> (u32 \<times> string) list \<Rightarrow> string \<Rightarrow> u32 set" where
  "old_blocks B es name = (case ent_lookup es name of Some i \<Rightarrow> set (fblocks (inode_of B i)) | None \<Rightarrow> {})"

definition claimed ::
  "blockmap \<Rightarrow> (u32 \<times> string) list \<Rightarrow> string \<Rightarrow> u32 \<times> (u8 list \<times> u8 list) \<times> u8 list \<times> u8 list \<times> u8 list \<Rightarrow>
   blockmap \<Rightarrow> (u32 \<times> string) list \<Rightarrow> nat \<Rightarrow> bool" where
  "claimed B es name st B1 es' e' \<longleftrightarrow> (case st of (i, cnt, bb, ib, fi) \<Rightarrow>
     cnt_ok cnt \<and> length bb = CHASEROS_BLK \<and> length ib = CHASEROS_BLK \<and> length fi = 128 \<and>
     inode_no i \<and> i \<noteq> 2 \<and> entry_added B i name es es' \<and>
     dir_at (B1 21) 0 es' e' \<and> length (B1 21) = CHASEROS_BLK \<and> (\<forall>b. b \<noteq> 3 \<and> b \<noteq> 21 \<longrightarrow> B1 b = B b) \<and>
     (\<forall>m. used_bit (B 4) m \<longrightarrow> used_bit ib m) \<and> used_bit ib (i - 1) \<and>
     (\<forall>b. used_bit bb b \<longleftrightarrow> used_bit (B 3) b \<and> b \<notin> old_blocks B es name))"

definition metas :: "u8 list \<times> u8 list \<Rightarrow> u8 list \<Rightarrow> u8 list \<Rightarrow> blockmap \<Rightarrow> blockmap" where
  "metas cnt bb ib B = B(1 := fst cnt, 2 := put_at 0 (snd cnt) (replicate CHASEROS_BLK 0), 3 := bb, 4 := ib)"

lemma others_not_old:
  assumes fs: "fs_ents n B es e" and ea: "entry_added B i name es es'"
    and j: "j \<in> set (regs B es)" "j \<noteq> i" "b \<in> set (fblocks (inode_of B j))"
  shows "b \<notin> old_blocks B es name"
proof (cases "ent_lookup es name")
  case (Some k)
  then have "(k, name) \<in> set es" "distinct (map snd es)" using fs by (simp_all add: ent_lookup_iff fs_ents_def)
  then have "k = i" "is_reg (inode_of B i)"
    using ea Some ent_lookup_iff [of es name i] by (force simp: entry_added_def)+
  then have "i \<in> set (regs B es)" using \<open>(k, name) \<in> set es\<close> by (force simp: regs_def)
  then have "set (fblocks (inode_of B j)) \<inter> set (fblocks (inode_of B i)) = {}"
    using fs j unfolding fs_ents_def files_ok_def by blast
  then show ?thesis using j(3) Some \<open>k = i\<close> by (auto simp: old_blocks_def)
qed (simp add: old_blocks_def)

lemma written_file:
  assumes w: "wrote n data 0 (nblocks (length data)) bb (file_inode (length data) fi) B (cnt', bb', fi') B' bns"
    and "length fi = 128" and "length data \<le> 12288"
  shows "is_reg fi'" "fblocks fi' = bns" "file_ok n bb' fi'" "(\<And>b. b \<in> set bns \<Longrightarrow> C b = B' b) \<Longrightarrow> file_of C fi' = data"
proof -
  let ?k = "nblocks (length data)"
  have k: "?k \<le> 12" using nblocks_bounds(2) [OF assms(3)] .
  have sz: "unat (i_size fi') = length data"
    using w assms(2,3) by (simp add: wrote_def file_inode_fields unat_of_nat_32)
  show "is_reg fi'" using w file_inode_fields(2) [OF assms(2), of "length data"] by (simp add: wrote_def is_reg_def)
  have "length bns = ?k" "\<forall>j<?k. i_block fi' j = bns ! j" using w k by (auto simp: wrote_def)
  then show fb: "fblocks fi' = bns" by (intro nth_equalityI) (auto simp: fblocks_def sz)
  show "file_ok n bb' fi'"
    using w assms(3) unfolding file_ok_def fb sz list_all_iff by (auto simp: wrote_def free_block_def)
  assume C: "\<And>b. b \<in> set bns \<Longrightarrow> C b = B' b"
  have "map C bns = map (blk_data data) [0..<0 + ?k]"
    using w C by (intro nth_equalityI) (auto simp: wrote_def)
  then show "file_of C fi' = data"
    using concat_blk_data [of data 0 ?k] nblocks_bounds(1) [of "length data"] by (simp add: file_of_def fb sz)
qed

text \<open>
  The volume after the writer stored the metadata and the inode, block by block and inode by
  inode.
\<close>

lemma written_map:
  assumes fs: "fs_ents n B es e" and cl: "claimed B es name (i, cnt, bb, ib, fi) B1 es' e'"
    and w: "wrote n data 0 k bb fi0 B1 (cnt', bb', fi') B2 bns"
  defines "B' \<equiv> set_inode i fi' (metas cnt' bb' ib B2)"
  shows "B' 3 = bb'" "B' 4 = ib" "vol_wf n B'" "inode_no m \<Longrightarrow> inode_of B' m = (if m = i then fi' else inode_of B m)"
    "20 < unat b \<Longrightarrow> B' b = B2 b" "20 < unat b \<Longrightarrow> b \<notin> set bns \<Longrightarrow> b \<noteq> 21 \<Longrightarrow> B' b = B b" "B' 21 = B1 21"
    "length (metas cnt' bb' ib B2 (inode_blk i)) = CHASEROS_BLK"
proof -
  have c: "inode_no i" "i \<noteq> 2" "length ib = CHASEROS_BLK" "length (B1 21) = CHASEROS_BLK"
    "\<And>b. b \<noteq> 3 \<Longrightarrow> b \<noteq> 21 \<Longrightarrow> B1 b = B b" using cl by (simp_all add: claimed_def)
  have o: "cnt_ok cnt'" "length bb' = CHASEROS_BLK" "length fi' = 128" "\<forall>b\<in>set bns. free_block n bb b"
    "\<And>b. b \<notin> set bns \<Longrightarrow> B2 b = B1 b" "length bns = k" "\<forall>j<k. B2 (bns ! j) = blk_data data j"
    using w by (simp_all add: wrote_def)
  have wf: "vol_wf n B" and n: "256 \<le> n" and B: "\<And>b. unat b < n \<Longrightarrow> length (B b) = CHASEROS_BLK"
    using fs by (auto simp: fs_ents_def vol_wf_def)
  let ?M = "metas cnt' bb' ib B2"
  have low: "B2 b = B1 b" if "unat b < 23" for b
    using o(4,5) that by (force simp: free_block_def)
  have "length (B2 b) = CHASEROS_BLK" if "unat b < n" "b \<noteq> 3" for b
  proof (cases "b \<in> set bns")
    case True
    then show ?thesis using o(6,7) by (metis in_set_conv_nth length_blk_data)
  next
    case False
    then show ?thesis using o(5) c(4,5) B that by (cases "b = 21") simp_all
  qed
  then have lenM: "length (?M b) = CHASEROS_BLK" if "unat b < n" for b
    using that o(1,2) c(3) by (auto simp: metas_def cnt_ok_def CHASEROS_BLK_def)
  then have iblk: "length (?M (inode_blk m)) = CHASEROS_BLK" if "inode_no m" for m
    using inode_range(2) [OF that] n by simp
  have "?M b = B b" if "5 \<le> unat b" "unat b \<le> 20" for b
  proof -
    have "b \<notin> {1, 2, 3, 4, 21}" using that by auto
    then show ?thesis using that low [of b] c(5) [of b] by (simp add: metas_def)
  qed
  then have ino: "inode_of B' m = (if m = i then fi' else inode_of B m)" if "inode_no m" for m
    using inode_of_set_inode [OF c(1) that o(3) iblk [OF c(1)] iblk [OF that]] inode_of_cong [OF that, of ?M B]
    by (simp add: B'_def)
  show hi: "B' b = B2 b" if "20 < unat b" for b
    using that set_inode_other [OF c(1)] by (auto simp: metas_def B'_def)
  show "20 < unat b \<Longrightarrow> b \<notin> set bns \<Longrightarrow> b \<noteq> 21 \<Longrightarrow> B' b = B b"
    using hi [of b] o(5) [of b] c(5) [of b] by (cases "b = 3") auto
  show "length (?M (inode_blk i)) = CHASEROS_BLK" by (rule iblk [OF c(1)])
  show "B' 21 = B1 21" using hi [of 21] low [of 21] by simp
  show small: "B' 3 = bb'" "B' 4 = ib" using set_inode_other [OF c(1)] by (simp_all add: metas_def B'_def)
  have "B' 1 = fst cnt'" using set_inode_other [OF c(1)] by (simp add: metas_def B'_def)
  moreover have "length (B' b) = CHASEROS_BLK" if "unat b < n" for b
    unfolding B'_def length_set_inode [of i fi' ?M, OF c(1) o(3) iblk [OF c(1)]] by (rule lenM [OF that])
  ultimately show "vol_wf n B'"
    using wf ino [of 2] c(2) o(1) by (simp add: vol_wf_def cnt_ok_def inode_no_def)
  show "inode_no m \<Longrightarrow> inode_of B' m = (if m = i then fi' else inode_of B m)" by (rule ino)
qed

text \<open>The invariant holds again, and the name has the new contents.\<close>

lemma fs_written:
  assumes fs: "fs_ents n B es e" and cl: "claimed B es name (i, cnt, bb, ib, fi) B1 es' e'"
    and w: "wrote n data 0 (nblocks (length data)) bb (file_inode (length data) fi) B1 (cnt', bb', fi') B2 bns"
    and len: "length data \<le> 12288"
  defines "B' \<equiv> set_inode i fi' (metas cnt' bb' ib B2)"
  shows "fs_ents n B' es' e'" "fs_contents B' es' = (fs_contents B es)(name \<mapsto> data)"
proof -
  have c: "inode_no i" "entry_added B i name es es'" "length fi = 128" "dir_at (B1 21) 0 es' e'"
    "\<And>m. used_bit (B 4) m \<Longrightarrow> used_bit ib m" "used_bit ib (i - 1)"
    "\<And>b. used_bit bb b \<longleftrightarrow> used_bit (B 3) b \<and> b \<notin> old_blocks B es name"
    using cl by (simp_all add: claimed_def)
  have o: "\<forall>b\<in>set bns. free_block n bb b" "\<And>b. used_bit bb' b \<longleftrightarrow> used_bit bb b \<or> b \<in> set bns"
    using w by (simp_all add: wrote_def)
  note f = written_file [OF w c(3) len] and m = written_map [OF fs cl w, folded B'_def]
  have ic: "inode_changed B B' i" using m(4) c(1) f(1) by (simp add: inode_changed_def)
  have ok: "others_kept B B' i (regs B es)"
    unfolding others_kept_def
  proof (intro ballI impI)
    fix j b
    assume j: "j \<in> set (regs B es)" "j \<noteq> i" "b \<in> set (fblocks (inode_of B j))"
    have b: "23 \<le> unat b" "used_bit (B 3) b"
      using fs j unfolding fs_ents_def files_ok_def file_ok_def list_all_iff by blast+
    then have u: "used_bit bb b" using c(7) others_not_old [OF fs c(2) j] by simp
    then have "b \<notin> set bns" "b \<noteq> 21" using o(1) b(1) by (auto simp: free_block_def)
    then show "used_bit (B' 3) b \<and> B' b = B b \<and> b \<notin> set (fblocks (inode_of B' i))"
      using u b(1) m(6) [of b] m(1) m(4) [OF c(1)] o(2) f(2) by simp
  qed
  have d: "dir_at (B' 21) 0 es' e'" using m(7) c(4) by simp
  have "file_of B' fi' = data"
    by (rule f(4)) (use o(1) m(5) in \<open>force simp: free_block_def\<close>)
  moreover have fo: "file_ok n (B' 3) (inode_of B' i)" using m(4) [OF c(1)] f(3) m(1) by simp
  note up = fs_update [OF fs m(3) d c(2) ic fo ok]
  ultimately show "fs_ents n B' es' e'" "fs_contents B' es' = (fs_contents B es)(name \<mapsto> data)"
    using up c(5,6) m(2) m(4) [OF c(1)] by simp_all
qed

text \<open>The images a format writes.\<close>

primrec bm_marks :: "u8 list \<Rightarrow> nat \<Rightarrow> u8 list" where
  "bm_marks bm 0 = bm"
| "bm_marks bm (Suc n) = bm_mark (bm_marks bm n) (of_nat n)"

lemma length_bm_marks [simp]: "length (bm_marks bm n) = length bm"
  by (induction n) simp_all

lemma bm_marks_in: "Suc n \<le> 8 * length bm \<Longrightarrow> Suc n < 2 ^ 32 \<Longrightarrow> bm_in (bm_marks bm n) (of_nat n)"
  by (simp add: bm_in_def unat_of_nat_32)

lemma bm_set_range_eq: "n \<le> 8 * length bm \<Longrightarrow> n < 2 ^ 32 \<Longrightarrow> bm_set_range bm n = retS (bm_marks bm n)"
  by (induction n) (simp_all add: bm_set_eq bm_marks_in)

lemma used_bm_marks:
  "n \<le> 8 * length bm \<Longrightarrow> n < 2 ^ 32 \<Longrightarrow> used_bit (bm_marks bm n) b \<longleftrightarrow> used_bit bm b \<or> unat b < n"
proof (induction n)
  case (Suc n)
  have "b = of_nat n \<longleftrightarrow> unat b = n" using Suc.prems(2) by (simp add: word_unat_eq_iff unat_of_nat_32)
  moreover have "used_bit (bm_marks bm n) b \<longleftrightarrow> used_bit bm b \<or> unat b < n" using Suc by simp
  ultimately show ?case
    using used_bm_mark [OF bm_marks_in [OF Suc.prems]] by (simp add: less_Suc_eq disj_commute disj_left_commute)
qed simp

lemma used_zero: "unat b < 8192 \<Longrightarrow> \<not> used_bit (replicate CHASEROS_BLK 0) b"
  by (simp add: used_bit_def CHASEROS_BLK_def unat_div8 less_mult_imp_div_less)

definition root_dir :: "u8 list" where
  "root_dir = ent_put 24 11 ''lost+found'' (ent_put 12 2 ''..'' (ent_put 0 2 ''.'' (replicate CHASEROS_BLK 0)))"

definition lost_dir :: "u8 list" where
  "lost_dir = ent_put 12 2 ''..'' (ent_put 0 11 ''.'' (replicate CHASEROS_BLK 0))"

lemma root_dir_ok:
  "dir_at root_dir 0 [(2, ''.''), (2, ''..''), (11, ''lost+found'')] 44" "length root_dir = CHASEROS_BLK"
  "length lost_dir = CHASEROS_BLK"
proof -
  note rl = unat_rec_len [of "''.''"] unat_rec_len [of "''..''"] unat_rec_len [of "''lost+found''"]
  let ?z = "replicate CHASEROS_BLK 0 :: u8 list"
  have "dir_at ?z 0 [] 0" by simp
  then have "dir_at (ent_put 0 2 ''.'' ?z) 0 [(2, ''.'')] 12"
    using dir_at_ent_put [of ?z "[]" 0 "''.''" 2] rl by (simp add: no_nul_def CHASEROS_BLK_def del: dir_at.simps)
  then have "dir_at (ent_put 12 2 ''..'' (ent_put 0 2 ''.'' ?z)) 0 [(2, ''.''), (2, ''..'')] 24"
    using dir_at_ent_put [of "ent_put 0 2 ''.'' ?z" "[(2, ''.'')]" 12 "''..''" 2] rl
    by (simp add: no_nul_def CHASEROS_BLK_def del: dir_at.simps)
  then show "dir_at root_dir 0 [(2, ''.''), (2, ''..''), (11, ''lost+found'')] 44"
    using dir_at_ent_put [of "ent_put 12 2 ''..'' (ent_put 0 2 ''.'' ?z)" "[(2, ''.''), (2, ''..'')]" 24 "''lost+found''" 11] rl
    by (simp add: no_nul_def CHASEROS_BLK_def root_dir_def del: dir_at.simps)
  show "length root_dir = CHASEROS_BLK" "length lost_dir = CHASEROS_BLK"
    by (simp_all add: root_dir_def lost_dir_def CHASEROS_BLK_def)
qed

text \<open>Chains of field updates, read off from the outside in.\<close>

lemma set_length:
  "length bs = n \<Longrightarrow> off + 4 \<le> n \<Longrightarrow> length (set32 off w bs) = n"
  "length bs = n \<Longrightarrow> off + 2 \<le> n \<Longrightarrow> length (set16 off v bs) = n"
  by simp_all

lemma get16_through:
  "length bs = n \<Longrightarrow> off + 4 \<le> n \<Longrightarrow> p + 2 \<le> n \<Longrightarrow> p + 2 \<le> off \<or> off + 4 \<le> p \<Longrightarrow> get16 p bs = x \<Longrightarrow>
   get16 p (set32 off w bs) = x"
  by (simp add: mem_simps)

lemma format_images:
  "length (format_super tb) = CHASEROS_BLK" "s_magic (format_super tb) = EXT2_SUPER_MAGIC" "length (format_gd sb) = 32"
proof -
  have at: "length bs = CHASEROS_BLK \<Longrightarrow> get16 56 (set16 56 x bs) = x" for x bs
    by (simp add: mem_simps CHASEROS_BLK_def)
  show "length (format_super tb) = CHASEROS_BLK" "length (format_gd sb) = 32"
    unfolding format_super_def format_gd_def comp_def by (intro set_length; simp add: CHASEROS_BLK_def)+
  show "s_magic (format_super tb) = EXT2_SUPER_MAGIC"
    unfolding format_super_def comp_def s_magic_def
    by (intro get16_through [where n = CHASEROS_BLK] at set_length) (simp_all add: CHASEROS_BLK_def)
qed

definition table_blocks :: "u32 list" where
  "table_blocks = map (\<lambda>i. 5 + of_nat i) [0..<unat INODE_TBL_BLOCKS]"

lemma table_blocks_iff: "b \<in> set table_blocks \<longleftrightarrow> 5 \<le> unat b \<and> unat b \<le> 20"
proof -
  have u: "unat (5 + of_nat i :: u32) = 5 + i" if "i < 16" for i
    using unat_of_nat_32 [of "5 + i"] that by simp
  have "b = 5 + of_nat (unat b - 5)" if "5 \<le> unat b" using word_split_from [of 5 b] that by simp
  then have "\<exists>i<16. b = 5 + of_nat i" if "5 \<le> unat b" "unat b \<le> 20"
    using that by (intro exI [of _ "unat b - 5"]) simp
  then show ?thesis using u by (auto simp: table_blocks_def INODE_TBL_BLOCKS_def)
qed

text \<open>The volume a format leaves, from the volume it finds.\<close>

definition fresh_meta :: "u32 \<Rightarrow> blockmap \<Rightarrow> blockmap" where
  "fresh_meta tb B =
     (let z = replicate CHASEROS_BLK 0 in
      (\<lambda>b. if b \<in> set table_blocks then z
           else (B(1 := format_super tb, 2 := put_at 0 (format_gd (format_super tb)) z,
                   3 := bm_marks z 23, 4 := bm_marks z 11)) b))"

definition formatted :: "u32 \<Rightarrow> blockmap \<Rightarrow> blockmap" where
  "formatted tb B = (set_inode 11 (dir_inode 2 22) (set_inode 2 (dir_inode 3 21) (fresh_meta tb B)))
     (21 := root_dir, 22 := lost_dir)"

lemma fresh_meta_table: "inode_no m \<Longrightarrow> fresh_meta tb B (inode_blk m) = replicate CHASEROS_BLK 0"
  using inode_range [of m] by (simp add: fresh_meta_def Let_def table_blocks_iff)

lemma length_fresh_meta: "length (B b) = CHASEROS_BLK \<Longrightarrow> length (fresh_meta tb B b) = CHASEROS_BLK"
  by (simp add: fresh_meta_def Let_def format_images CHASEROS_BLK_def)

lemma formatted_inodes:
  "inode_of (formatted tb B) 2 = dir_inode 3 21" "inode_of (formatted tb B) 11 = dir_inode 2 22"
proof -
  let ?F = "fresh_meta tb B"
  have no: "inode_no 2" "inode_no 11" by (simp_all add: inode_no_def)
  note t = fresh_meta_table [OF no(1), of tb B] fresh_meta_table [OF no(2), of tb B]
  let ?G = "set_inode 2 (dir_inode 3 21) ?F"
  have g: "length (?G (inode_blk m)) = CHASEROS_BLK" if "inode_no m" for m
    using length_set_inode [OF no(1) dir_inode_fields(1), of ?F] t(1) fresh_meta_table [OF that] by simp
  have "inode_of (formatted tb B) m = inode_of (set_inode 11 (dir_inode 2 22) ?G) m" if "inode_no m" for m
    by (rule inode_of_cong [OF that]) (auto simp: formatted_def)
  then show "inode_of (formatted tb B) 2 = dir_inode 3 21" "inode_of (formatted tb B) 11 = dir_inode 2 22"
    using no g t inode_of_set_inode [OF no(2) no(1) dir_inode_fields(1), of ?G 2 22]
      inode_of_set_inode [OF no(2) no(2) dir_inode_fields(1), of ?G 2 22]
      inode_of_set_inode [OF no(1) no(1) dir_inode_fields(1), of ?F 3 21] by simp_all
qed

lemma formatted_ok:
  assumes "256 \<le> n" and "n \<le> 8192" and "\<And>b. unat b < n \<Longrightarrow> length (B b) = CHASEROS_BLK"
  defines "es \<equiv> [(2, ''.''), (2, ''..''), (11, ''lost+found'')]"
  shows "fs_ents n (formatted tb B) es 44" "fs_contents (formatted tb B) es = Map.empty"
    "free_block n (formatted tb B 3) b \<longleftrightarrow> 23 \<le> unat b \<and> unat b < n" "inode_choice (formatted tb B 4) \<noteq> None"
proof -
  let ?F = "formatted tb B"
  have no: "inode_no 2" "inode_no 11" by (simp_all add: inode_no_def)
  have low: "?F b = fresh_meta tb B b" if "unat b < 5" for b
    using that set_inode_other [OF no(1)] set_inode_other [OF no(2)] by (auto simp: formatted_def)
  have F: "?F 1 = format_super tb" "?F 3 = bm_marks (replicate CHASEROS_BLK 0) 23"
    "?F 4 = bm_marks (replicate CHASEROS_BLK 0) 11" "?F 21 = root_dir"
    using low [of 1] low [of 3] low [of 4] by (simp_all add: fresh_meta_def Let_def table_blocks_iff formatted_def)
  have "length (set_inode 2 (dir_inode 3 21) (fresh_meta tb B) b) = length (fresh_meta tb B b)" for b
    by (intro length_set_inode no dir_inode_fields) (simp add: fresh_meta_table no)
  then have "length (?F b) = CHASEROS_BLK" if "unat b < n" for b
    using length_set_inode [OF no(2) dir_inode_fields(1), of "set_inode 2 (dir_inode 3 21) (fresh_meta tb B)" 2 22 b]
      length_fresh_meta [of B b tb] assms(3) [OF that] fresh_meta_table [OF no(2), of tb B]
    by (simp add: formatted_def root_dir_ok)
  then have "vol_wf n ?F"
    using assms(1,2) by (simp add: vol_wf_def F format_images formatted_inodes dir_inode_fields)
  moreover have reg: "regs ?F es = []" "\<not> is_reg (inode_of ?F 2)" "\<not> is_reg (inode_of ?F 11)"
    using reg_not_dir dir_inode_fields(2) by (auto simp: regs_def es_def formatted_inodes)
  moreover have F4: "used_bit (?F 4) b \<longleftrightarrow> unat b < 11" if "unat b < 8192" for b
    using that unfolding F by (subst used_bm_marks) (simp_all add: CHASEROS_BLK_def used_zero [unfolded CHASEROS_BLK_def])
  ultimately show "fs_ents n ?F es 44"
    using no root_dir_ok(1) by (simp add: fs_ents_def F files_ok_def es_def [symmetric]) (simp add: es_def)
  have "\<not> used_bit (?F 4) (12 - 1)" using F4 [of 11] by simp
  then show "inode_choice (?F 4) \<noteq> None" by (intro inode_choice_None [of 12]) simp_all
  show "free_block n (?F 3) b \<longleftrightarrow> 23 \<le> unat b \<and> unat b < n"
    using assms(2) unfolding F free_block_def
    by (cases "unat b < 8192") (simp_all add: used_bm_marks CHASEROS_BLK_def used_zero [unfolded CHASEROS_BLK_def], auto)
  show "fs_contents ?F es = Map.empty"
    using reg by (auto simp: fs_contents_def es_def ent_lookup_def)
qed

text \<open>The writes of a format, its images computed.\<close>

definition format_writes :: "'d io \<Rightarrow> chaseros_vol option \<Rightarrow> u32 \<Rightarrow> ('d fstate, unit) sm" where
  "format_writes io v tb = (let z = replicate CHASEROS_BLK 0; sb = format_super tb in
     bindS (orElse (write_super io v sb) (-1)) (\<lambda>_.
     bindS (orElse (write_gd io v (format_gd sb)) (-1)) (\<lambda>_.
     bindS (orElse (vol_write_blk io v 3 (bm_marks z 23)) (-1)) (\<lambda>_.
     bindS (orElse (vol_write_blk io v 4 (bm_marks z 11)) (-1)) (\<lambda>_.
     bindS (write_zero_blocks io v table_blocks) (\<lambda>_.
     bindS (orElse (write_inode io v 2 (dir_inode 3 21)) (-1)) (\<lambda>_.
     bindS (orElse (write_inode io v 11 (dir_inode 2 22)) (-1)) (\<lambda>_.
     bindS (orElse (vol_write_blk io v 21 root_dir) (-1)) (\<lambda>_.
     orElse (vol_write_blk io v 22 lost_dir) (-1))))))))))"

lemma format_dirs:
  "dirent_put (replicate CHASEROS_BLK 0) 0 i ''.'' = retS (ent_put 0 i ''.'' (replicate CHASEROS_BLK 0), 12)"
  "dirent_put (ent_put 0 i ''.'' (replicate CHASEROS_BLK 0)) 12 j ''..'' =
     retS (ent_put 12 j ''..'' (ent_put 0 i ''.'' (replicate CHASEROS_BLK 0)), 24)"
  "dirent_put (ent_put 12 j ''..'' (ent_put 0 i ''.'' (replicate CHASEROS_BLK 0))) 24 k ''lost+found'' =
     retS (ent_put 24 k ''lost+found'' (ent_put 12 j ''..'' (ent_put 0 i ''.'' (replicate CHASEROS_BLK 0))), 44)"
  by (subst dirent_put_eq; simp add: CHASEROS_BLK_def unat_rec_len)+

lemma format_bitmaps:
  "bm_set_range (replicate CHASEROS_BLK 0) (unat (FIRST_DATA_BLOCK + 2)) = retS (bm_marks (replicate CHASEROS_BLK 0) 23)"
  "bm_set_range (replicate CHASEROS_BLK 0) 11 = retS (bm_marks (replicate CHASEROS_BLK 0) 11)"
  by (simp_all only: FIRST_DATA_BLOCK_def) (subst bm_set_range_eq; simp add: CHASEROS_BLK_def)+

lemma format_eq:
  assumes "vol_check v s = (Ok (), s)" and "total_blocks_from_vol (the v) = tb"
    and "\<not> (tb < 256 \<or> tb > 8192 \<or> tb < FIRST_DATA_BLOCK + 2)"
  shows "chaseros_ext2_format io v s = format_writes io v tb (zero_ram (the v) s)"
proof -
  have "orElse (vol_check v) (-1) s = (Ok (), s)" using assms(1) by (simp add: orElse_def)
  then show ?thesis
    unfolding chaseros_ext2_format_def format_writes_def Let_def assms(2) table_blocks_def
      format_bitmaps format_dirs bindS_retS prod.case errIf_def if_not_P [OF assms(3)] root_dir_def lost_dir_def
    by (simp add: bindS_def [of "orElse (vol_check v) (-1)"] bindS_def [of "modifyS _"] modifyS_def
        FIRST_DATA_BLOCK_def)
qed

locale fs_volume = block_volume +
  assumes outside_law: "nblk \<le> unat b \<Longrightarrow> blocks s b = []"
    and zero_law: "ok s \<Longrightarrow> ok (zero_ram (the v) s)"
    and total_law: "total_blocks_from_vol (the v) = of_nat nblk"
    and size_law: "256 \<le> nblk" "nblk \<le> 8192"
    and check_law: "vol_check v s = (Ok (), s)"
begin

lemma run_read: "unat b < nblk \<Longrightarrow> runs ok blocks B (vol_read_blk io v b) (Ok (B b)) B"
  unfolding runs_def
proof (intro allI impI)
  fix s
  assume "unat b < nblk" and s: "ok s \<and> blocks s = B"
  then obtain s' where s': "vol_read_blk io v b s = (Ok (blocks s b), s')" "ok s'"
    "\<forall>c. unat c < nblk \<longrightarrow> blocks s' c = blocks s c"
    using read_law [of s b] by blast
  have "blocks s' = blocks s"
  proof
    show "blocks s' c = blocks s c" for c
      using s'(3) outside_law [of c s] outside_law [of c s'] by (cases "unat c < nblk") auto
  qed
  then show "\<exists>s'. vol_read_blk io v b s = (Ok (B b), s') \<and> ok s' \<and> blocks s' = B" using s s' by auto
qed

lemma run_write:
  "unat b < nblk \<Longrightarrow> length x = CHASEROS_BLK \<Longrightarrow> runs ok blocks B (vol_write_blk io v b x) (Ok ()) (B(b := x))"
  unfolding runs_def
proof (intro allI impI)
  fix s
  assume b: "unat b < nblk" "length x = CHASEROS_BLK" and s: "ok s \<and> blocks s = B"
  then obtain s' where s': "vol_write_blk io v b x s = (Ok (), s')" "ok s'"
    "\<forall>c. unat c < nblk \<longrightarrow> blocks s' c = (if c = b then x else blocks s c)"
    using write_law [of s b x] by blast
  have "blocks s' = (blocks s)(b := x)"
  proof
    show "blocks s' c = ((blocks s)(b := x)) c" for c
      using s'(3) b outside_law [of c s] outside_law [of c s'] by (cases "unat c < nblk") auto
  qed
  then show "\<exists>s'. vol_write_blk io v b x s = (Ok (), s') \<and> ok s' \<and> blocks s' = B(b := x)" using s s' by auto
qed

lemma run_read_else: "unat b < nblk \<Longrightarrow> runs ok blocks B (orElse (vol_read_blk io v b) e) (Ok (B b)) B"
  by (intro runs_orElse run_read)

lemma run_write_else:
  "unat b < nblk \<Longrightarrow> length x = CHASEROS_BLK \<Longrightarrow>
   runs ok blocks B (orElse (vol_write_blk io v b x) e) (Ok ()) (B(b := x))"
  by (intro runs_orElse run_write)

lemma run_read_inode:
  assumes "inode_no i"
  shows "runs ok blocks B (read_inode io v i) (Ok (inode_of B i)) B"
proof -
  have "i \<noteq> 0" "unat (inode_blk i) < nblk" using assms inode_range(2) [OF assms] size_law by (auto simp: inode_no_def)
  then show ?thesis
    unfolding read_inode_def raw_to_inode_def
    by (auto simp: inode_of_def intro!: runs_guard runs_bind [OF run_read_else] runs_ret)
qed

lemma run_write_inode:
  assumes "inode_no i" and "length fi = 128" and "length (B (inode_blk i)) = CHASEROS_BLK"
  shows "runs ok blocks B (write_inode io v i fi) (Ok ()) (set_inode i fi B)"
proof -
  have "unat (inode_blk i) < nblk" using inode_range(2) [OF assms(1)] size_law by linarith
  moreover have "inode_to_raw fi = fi" using assms(2) by (simp add: inode_to_raw_def get_at_def)
  ultimately show ?thesis
    unfolding write_inode_def set_inode_def
    using assms inode_range(3) [OF assms(1)] by (auto intro!: runs_bind [OF run_read_else] run_write)
qed

text \<open>Looking up a name of the root directory.\<close>

lemma run_lookup_step:
  assumes fs: "fs_ents nblk B es e" and "no_nul name"
  shows "runs ok blocks B (lookup_step io v 2 name)
    (case ent_lookup es name of Some i \<Rightarrow> Ok i | None \<Rightarrow> Err (-1)) B"
proof -
  have root: "is_dir (inode_of B 2)" "i_block (inode_of B 2) 0 = 21" "length (B 21) = CHASEROS_BLK"
    and d: "dir_at (B 21) 0 es e" "distinct (map snd es)"
    and no: "list_all (\<lambda>(i, nm). inode_no i \<and> used_bit (B 4) (i - 1)) es"
    using fs size_law by (simp_all add: fs_ents_def vol_wf_def)
  have find: "find_in_root (B 21) name = retS (ent_lookup es name)"
    unfolding find_in_root_def by (rule find_loop_dir [OF d(1) root(3) assms(2)])
  have "i \<noteq> 0" if "ent_lookup es name = Some i" for i
    using that no ent_lookup_iff [OF d(2)] by (auto simp: list_all_iff inode_no_def)
  then have "runs ok blocks B (case ent_lookup es name of None \<Rightarrow> failS (-1)
      | Some i \<Rightarrow> bindS (errIf (i = 0) (-1)) (\<lambda>_. retS i))
    (case ent_lookup es name of Some i \<Rightarrow> Ok i | None \<Rightarrow> Err (-1)) B"
    by (auto split: option.split intro: runs_fail runs_guard runs_ret)
  then show ?thesis
    unfolding lookup_step_def using root size_law
    by (intro runs_bind [OF runs_orElse(1) [OF run_read_inode]] runs_guard runs_bind [OF run_read_else])
      (simp_all add: find inode_no_def)
qed

lemma run_lookup:
  assumes fs: "fs_ents nblk B es e" and "valid_seg name"
  shows "runs ok blocks B (lookup_final io v (slash # name))
    (case ent_lookup es name of Some i \<Rightarrow> Ok (i, inode_of B i) | None \<Rightarrow> Err (-1)) B"
proof -
  have name: "no_nul name" "name \<noteq> []" using assms(2) by (simp_all add: valid_seg_def)
  then have "chaseros_strcmp (slash # name) [slash] \<noteq> 0"
    by (subst chaseros_strcmp_0) (auto simp: no_nul_def slash_def)
  moreover have "take_seg name 0 = (name, [])" using take_seg_joined [OF assms(2), of "[]"] by simp
  then have "lookup_loop io v 2 name = bindS (lookup_step io v 2 name) (\<lambda>i. lookup_loop io v i [])"
    using name(2) lookup_loop.simps [of io v 2 name] by simp
  then have "runs ok blocks B (lookup_loop io v 2 name)
    (case ent_lookup es name of Some i \<Rightarrow> Ok i | None \<Rightarrow> Err (-1)) B"
    using run_lookup_step [OF fs name(1)]
    by (auto simp: lookup_loop.simps [of io v _ "[]"] split: option.splits intro: runs_bind runs_bind_err runs_ret)
  moreover have "inode_no i" if "ent_lookup es name = Some i" for i
    using that fs ent_lookup_iff [of es name i] by (auto simp: fs_ents_def list_all_iff)
  moreover have "runs ok blocks B (bindS (read_inode io v i) (\<lambda>inode. retS (i, inode))) (Ok (i, inode_of B i)) B"
    if "inode_no i" for i
    by (rule runs_bind [OF run_read_inode [OF that]]) (rule runs_ret)
  ultimately show ?thesis
    unfolding lookup_final_def
    by (cases "ent_lookup es name") (auto intro: runs_bind_err elim: runs_bind)
qed

lemma run_lookup_root:
  "runs ok blocks B (lookup_final io v [slash]) (Ok (2, inode_of B 2)) B"
  unfolding lookup_final_def by (simp add: inode_no_def) (intro runs_bind [OF run_read_inode] runs_ret, simp add: inode_no_def)

lemma run_read_super:
  "fs_ents nblk B es e \<Longrightarrow> runs ok blocks B (orElse (read_super io v) (-1)) (Ok (B 1)) B"
  unfolding read_super_def using size_law
  by (intro runs_orElse(1) runs_bind [OF run_read_else] runs_guard runs_ret) (simp_all add: fs_ents_def vol_wf_def)

text \<open>Reading.\<close>

lemma run_find_regular:
  assumes fs: "fs_ents nblk B es e" and "valid_seg name"
  shows "runs ok blocks B (find_regular io v (slash # name))
    (case ent_lookup es name of
       Some i \<Rightarrow> if is_reg (inode_of B i) then Ok (inode_of B i) else Err (-1)
     | None \<Rightarrow> Err (-1)) B"
proof -
  note lk = run_lookup [OF assms]
  have "runs ok blocks B (bindS (orElse (lookup_final io v (slash # name)) (-1)) (\<lambda>(fino, fi).
      bindS (errIf (\<not> is_reg fi) (-1)) (\<lambda>_. retS fi)))
    (case ent_lookup es name of
       Some i \<Rightarrow> if is_reg (inode_of B i) then Ok (inode_of B i) else Err (-1)
     | None \<Rightarrow> Err (-1)) B"
  proof (cases "ent_lookup es name")
    case None
    then show ?thesis using lk by (simp add: runs_bind_err [OF runs_orElse(2)])
  next
    case (Some i)
    then have "runs ok blocks B (orElse (lookup_final io v (slash # name)) (-1)) (Ok (i, inode_of B i)) B"
      using lk by (simp add: runs_orElse(1))
    then show ?thesis
      by (rule runs_bind) (auto simp: Some errIf_def intro: runs_ret runs_fail)
  qed
  then show ?thesis
    unfolding find_regular_def normS_name [OF assms(2)]
    by (simp only: bindS_retS) (rule runs_bind [OF run_read_super [OF fs]])
qed

lemma run_read_blocks:
  assumes fi: "\<forall>b\<in>set (fblocks fi). 0 < unat b \<and> unat b < nblk \<and> length (B b) = CHASEROS_BLK"
    and "i + rest = nblocks (unat (i_size fi))" and "fc = min (1024 * i) (unat (i_size fi))"
    and "acc = take m (drop off (take fc (file_of B fi)))"
  shows "runs ok blocks B (read_blocks io v fi off m i rest fc acc) (Ok (take m (drop off (file_of B fi)))) B"
  using assms(2-)
proof (induction rest arbitrary: i fc acc)
  case 0
  then show ?case
    using length_file_of [of fi B] nblocks_bounds(1) [of "unat (i_size fi)"] fi by (auto simp: runs_ret)
next
  case (Suc rest)
  let ?sz = "unat (i_size fi)" and ?bn = "i_block fi i"
  have i: "i < nblocks ?sz" using Suc.prems(1) by linarith
  then have fc: "fc = 1024 * i" "1024 * i < ?sz" using nblocks_less [OF i] Suc.prems(2) by simp_all
  have len: "\<forall>b\<in>set (fblocks fi). length (B b) = CHASEROS_BLK" using fi by blast
  have bn: "?bn \<noteq> 0" "unat ?bn < nblk" "length (B ?bn) = CHASEROS_BLK" using bspec [OF fi, of ?bn] i by (auto simp: set_fblocks)
  define k where "k = (if fc + CHASEROS_BLK > ?sz then ?sz - fc else CHASEROS_BLK)"
  have k: "k \<le> CHASEROS_BLK" "1024 * i + k \<le> ?sz" "fc + k = min (1024 * Suc i) ?sz"
    using fc by (auto simp: k_def CHASEROS_BLK_def)
  show ?case
  proof (cases "length acc < m")
    case True
    have "copy_loop (B ?bn) fc off m 0 k acc = acc @ take (m - length acc) (drop (off - fc) (take k (B ?bn)))"
      using copy_loop_eq [of 0 k "B ?bn" acc m fc off] k(1) bn(3) True by simp
    also have "\<dots> = take m (drop off (take (fc + k) (file_of B fi)))"
      using take_drop_step [of fc "file_of B fi" m off k] file_block [OF i len k(1,2)]
        length_file_of [OF len] fc Suc.prems(3) by simp
    finally have "runs ok blocks B (read_blocks io v fi off m (Suc i) rest (fc + k) (copy_loop (B ?bn) fc off m 0 k acc))
        (Ok (take m (drop off (file_of B fi)))) B"
      using Suc.prems(1) k(3) by (intro Suc.IH) simp_all
    moreover have "read_blocks io v fi off m i (Suc rest) fc acc =
      bindS (orElse (vol_read_blk io v ?bn) (-1)) (\<lambda>tmp.
        read_blocks io v fi off m (Suc i) rest (fc + k) (copy_loop tmp fc off m 0 k acc))"
      using True fc bn(1) by (simp add: Let_def k_def)
    ultimately show ?thesis by (simp only:) (rule runs_bind [OF run_read_else [OF bn(2)]])
  next
    case False
    then have "m \<le> length (drop off (take fc (file_of B fi)))" using Suc.prems(3) by simp
    then have "m \<le> fc - off" by simp
    then have "take m (drop off (file_of B fi)) = acc"
      unfolding Suc.prems(3) by (simp add: drop_take min_absorb1)
    then show ?thesis using False by (simp add: runs_ret)
  qed
qed

lemma file_fields:
  assumes fs: "fs_ents nblk B es e" and "ent_lookup es name = Some i" and "is_reg (inode_of B i)"
  shows "inode_no i" "i \<in> set (regs B es)" "file_ok nblk (B 3) (inode_of B i)" "length (inode_of B i) = 128"
    "\<forall>b\<in>set (fblocks (inode_of B i)). 0 < unat b \<and> unat b < nblk \<and> length (B b) = CHASEROS_BLK"
proof -
  have i: "(i, name) \<in> set es" using fs assms(2) by (simp add: fs_ents_def ent_lookup_iff)
  then show no: "inode_no i" using fs by (auto simp: fs_ents_def list_all_iff)
  show r: "i \<in> set (regs B es)" using i assms(3) by (force simp: regs_def)
  then show ok: "file_ok nblk (B 3) (inode_of B i)" using fs by (simp add: fs_ents_def files_ok_def list_all_iff)
  have len: "unat b < nblk \<Longrightarrow> length (B b) = CHASEROS_BLK" for b using fs by (simp add: fs_ents_def vol_wf_def)
  show "length (inode_of B i) = 128"
    using inode_range(2) [OF no] size_law by (intro length_inode_of [OF no] len) linarith
  show "\<forall>b\<in>set (fblocks (inode_of B i)). 0 < unat b \<and> unat b < nblk \<and> length (B b) = CHASEROS_BLK"
    using ok len unfolding file_ok_def list_all_iff by fastforce
qed

lemma read_amount:
  fixes isize offset :: u32 and buf_sz :: u64
  assumes "\<not> isize \<le> offset"
  shows "unat (if ucast (isize - offset) > buf_sz then ucast buf_sz else isize - offset) =
    min (unat isize - unat offset) (unat buf_sz)"
proof -
  have d: "unat (isize - offset) = unat isize - unat offset" using assms by (simp add: unat_sub)
  have "unat (isize - offset) < 2 ^ 32" using unsigned_less [of "isize - offset", where ?'a = nat] by simp
  moreover have "buf_sz < ucast (isize - offset) \<longleftrightarrow> unat buf_sz < unat (isize - offset)"
    by (simp add: word_less_nat_alt unsigned_ucast_eq take_bit_nat_eq_self)
  ultimately show ?thesis using d by (auto simp: unsigned_ucast_eq take_bit_nat_eq_self)
qed

lemma run_read_file:
  assumes fs: "fs_ents nblk B es e" and "valid_seg name" and "buf_sz \<noteq> 0"
  shows "runs ok blocks B (chaseros_ext2_read_file_range io v (slash # name) offset buf_sz)
    (case fs_contents B es name of
       None \<Rightarrow> Err (-1) | Some D \<Rightarrow> Ok (take (unat buf_sz) (drop (unat offset) D))) B"
proof (cases "\<exists>i. ent_lookup es name = Some i \<and> is_reg (inode_of B i)")
  case False
  then show ?thesis
    using run_find_regular [OF assms(1,2)] assms(3) unfolding chaseros_ext2_read_file_range_def
    by (intro runs_guard) (auto simp: fs_contents_def runs_bind_err split: option.splits)
next
  case True
  then obtain i where i: "ent_lookup es name = Some i" "is_reg (inode_of B i)" by blast
  let ?fi = "inode_of B i"
  let ?D = "file_of B ?fi" and ?sz = "i_size ?fi"
  note f = file_fields [OF fs i]
  have sz: "unat ?sz \<le> 12288" using f(3) by (simp add: file_ok_def)
  have D: "length ?D = unat ?sz" using f(5) by (intro length_file_of) blast
  have find: "runs ok blocks B (find_regular io v (slash # name)) (Ok ?fi) B"
    using run_find_regular [OF assms(1,2)] i by simp
  have "runs ok blocks B (if offset \<ge> ?sz then retS [] else
      let maxcopy = ?sz - offset; maxcopy = (if ucast maxcopy > buf_sz then ucast buf_sz else maxcopy);
          nblk = blocks_of ?sz in
      bindS (errIf (nblk > 12) (-1)) (\<lambda>_. read_blocks io v ?fi (unat offset) (unat maxcopy) 0 (unat nblk) 0 []))
    (Ok (take (unat buf_sz) (drop (unat offset) ?D))) B"
  proof (cases "offset \<ge> ?sz")
    case True
    then show ?thesis using D by (simp add: runs_ret word_le_nat_alt)
  next
    case False
    have k: "unat (blocks_of ?sz) = nblocks (unat ?sz)" "\<not> 12 < blocks_of ?sz"
      using unat_blocks_of [OF sz] nblocks_bounds(2) [OF sz] by (simp_all add: word_less_nat_alt)
    have "runs ok blocks B (read_blocks io v ?fi (unat offset) (min (unat ?sz - unat offset) (unat buf_sz)) 0
        (nblocks (unat ?sz)) 0 []) (Ok (take (min (unat ?sz - unat offset) (unat buf_sz)) (drop (unat offset) ?D))) B"
      by (rule run_read_blocks [OF f(5)]) simp_all
    moreover have "take (min (unat ?sz - unat offset) (unat buf_sz)) (drop (unat offset) ?D) =
        take (unat buf_sz) (drop (unat offset) ?D)" using D by (simp add: min_def)
    ultimately show ?thesis
      using False k(2) unfolding Let_def read_amount [OF False] k(1) by (simp add: runs_guard)
  qed
  then show ?thesis
    unfolding chaseros_ext2_read_file_range_def using assms(3) i
    by (intro runs_guard runs_bind [OF find]) (simp_all add: fs_contents_def Let_def)
qed

lemma run_stat_file:
  assumes fs: "fs_ents nblk B es e" and "valid_seg name"
  shows "runs ok blocks B (chaseros_ext2_stat_file io v (slash # name))
    (case fs_contents B es name of None \<Rightarrow> Err (-1) | Some D \<Rightarrow> Ok (of_nat (length D))) B"
proof -
  have "length (file_of B (inode_of B i)) = unat (i_size (inode_of B i))"
    if "ent_lookup es name = Some i" "is_reg (inode_of B i)" for i
    using file_fields(5) [OF fs that] by (intro length_file_of) blast
  then show ?thesis
    using run_find_regular [OF assms] unfolding chaseros_ext2_stat_file_def
    by (auto simp: fs_contents_def runs_bind_err runs_bind [OF _ runs_ret] split: option.splits)
qed

text \<open>Writing.\<close>

lemma run_write_blocks:
  assumes "length bb = CHASEROS_BLK" and "length fi = 128" and "cnt_ok cnt" and "bi + rest \<le> 12"
    and "rest \<le> card {b. free_block nblk bb b}"
  shows "\<exists>st B' bns. runs ok blocks B (write_blocks io v (of_nat nblk) data bi rest (cnt, bb, fi)) (Ok st) B' \<and>
    wrote nblk data bi rest bb fi B st B' bns"
  using assms
proof (induction rest arbitrary: bi cnt bb fi B)
  case 0
  then show ?case
    by (intro exI [of _ "(cnt, bb, fi)"] exI [of _ B] exI [of _ "[]"]) (auto simp: wrote_def runs_ret)
next
  case (Suc rest)
  have n: "23 \<le> nblk" "nblk \<le> 8192" using size_law by simp_all
  have "{b. free_block nblk bb b} \<noteq> {}" using Suc.prems(5) by (auto simp del: Collect_empty_eq)
  then obtain bn where bn: "block_choice nblk bb = Some bn" using block_choice_None [OF n, of bb] by auto
  note free = block_choice_Some(1) [OF bn n]
  have bn0: "bn \<noteq> 0" and bnn: "unat bn < nblk" using free by (auto simp: free_block_def)
  have bmb: "bm_in bb bn" using bnn n Suc.prems(1) by (simp add: bm_in_def CHASEROS_BLK_def)
  let ?bb = "bm_mark bb bn" and ?fi = "set_i_block bi bn fi" and ?B = "B(bn := blk_data data bi)"
  have "{b. free_block nblk ?bb b} = {b. free_block nblk bb b} - {bn}"
    using used_bm_mark [OF bmb] by (auto simp: free_block_def)
  then have "rest \<le> card {b. free_block nblk ?bb b}" using Suc.prems(5) free by simp
  moreover have "length ?bb = CHASEROS_BLK" "length ?fi = 128" "cnt_ok (add_free_blocks (-1) cnt)" "Suc bi + rest \<le> 12"
    using Suc.prems by (simp_all add: cnt_ok_add)
  ultimately obtain st B' bns where ih:
    "runs ok blocks ?B (write_blocks io v (of_nat nblk) data (Suc bi) rest (add_free_blocks (-1) cnt, ?bb, ?fi)) (Ok st) B'"
    "wrote nblk data (Suc bi) rest ?bb ?fi ?B st B' bns"
    using Suc.IH [of ?bb ?fi "add_free_blocks (-1) cnt" "Suc bi" ?B] by blast
  have "runs ok blocks B (write_blocks io v (of_nat nblk) data bi (Suc rest) (cnt, bb, fi)) (Ok st) B'"
    unfolding write_blocks.simps alloc_block_eq [OF Suc.prems(1) n] bn option.case bindS_retS prod.case Let_def
    using bn0 bnn by (intro runs_guard runs_bind [OF run_write_else] ih(1) [unfolded blk_data_def Let_def])
      (simp_all add: length_blk_data [unfolded blk_data_def Let_def])
  moreover have "wrote nblk data bi (Suc rest) bb fi B st B' (bn # bns)"
    using Suc.prems(2,4) by (intro wrote_step [OF free n(2) Suc.prems(1) _ _ ih(2)])
  ultimately show ?case by blast
qed

lemma run_read_gd: "runs ok blocks B (orElse (read_gd io v) (-1)) (Ok (get_at 0 32 (B 2))) B"
  unfolding read_gd_def using size_law by (intro runs_orElse(1) runs_bind [OF run_read_else] runs_ret) simp

lemma run_load_meta:
  assumes "fs_ents nblk B es e"
  shows "runs ok blocks B (load_meta io v) (Ok ((B 1, get_at 0 32 (B 2)), B 3, B 4)) B"
    "cnt_ok (B 1, get_at 0 32 (B 2))"
proof -
  show "runs ok blocks B (load_meta io v) (Ok ((B 1, get_at 0 32 (B 2)), B 3, B 4)) B"
    unfolding load_meta_def using size_law
    by (intro runs_bind [OF run_read_super [OF assms]] runs_bind [OF run_read_gd]
        runs_bind [OF run_read_else] runs_ret) simp_all
  show "cnt_ok (B 1, get_at 0 32 (B 2))"
    using assms size_law by (simp add: cnt_ok_def fs_ents_def vol_wf_def CHASEROS_BLK_def)
qed

lemma run_store_meta:
  assumes "cnt_ok cnt" and "length bb = CHASEROS_BLK" and "length ib = CHASEROS_BLK"
  shows "runs ok blocks B (store_meta io v cnt bb ib) (Ok ()) (metas cnt bb ib B)"
proof -
  have sb: "put_at 0 (fst cnt) (replicate CHASEROS_BLK 0) = fst cnt" using assms(1) by (simp add: put_at_def cnt_ok_def)
  have "length (put_at 0 (snd cnt) (replicate CHASEROS_BLK 0)) = CHASEROS_BLK"
    using assms(1) by (simp add: cnt_ok_def CHASEROS_BLK_def)
  then show ?thesis
    unfolding store_meta_def write_super_def write_gd_def metas_def sb using assms size_law
    by (intro runs_bind [OF run_write_else] run_write_else) (simp_all add: cnt_ok_def)
qed

lemma run_open_root:
  assumes "fs_ents nblk B es e"
  shows "runs ok blocks B (open_parent io v [slash]) (Ok (2, inode_of B 2, B 21)) B"
proof -
  have r: "is_dir (inode_of B 2)" "i_block (inode_of B 2) 0 = 21" using assms by (simp_all add: fs_ents_def vol_wf_def)
  have "runs ok blocks B (bindS (orElse (vol_read_blk io v (i_block (inode_of B 2) 0)) (-1)) (\<lambda>droot.
      retS (2 :: u32, inode_of B 2, droot))) (Ok (2, inode_of B 2, B 21)) B"
    unfolding r(2) using size_law by (intro runs_bind [OF run_read_else] runs_ret) simp
  then show ?thesis
    unfolding open_parent_def using r(1)
    by (intro runs_bind [OF runs_orElse(1) [OF run_lookup_root]]) (simp add: runs_guard)
qed

lemma claim_old:
  assumes fs: "fs_ents nblk B es e" and name: "valid_seg name" and "cnt_ok cnt"
    and i: "ent_lookup es name = Some i" "is_reg (inode_of B i)"
  shows "\<exists>st B1. runs ok blocks B (claim_inode io v (inode_of B 2) (B 21) name cnt (B 3) (B 4)) (Ok st) B1 \<and>
    claimed B es name st B1 es e \<and> B1 3 = fst (snd (snd st))"
proof -
  note f = file_fields [OF fs i]
  have fs': "dir_at (B 21) 0 es e" "distinct (map snd es)" "is_dir (inode_of B 2)" "length (B 21) = CHASEROS_BLK"
    "length (B 3) = CHASEROS_BLK" "length (B 4) = CHASEROS_BLK"
    "list_all (\<lambda>(i, nm). inode_no i \<and> used_bit (B 4) (i - 1)) es"
    using fs size_law by (simp_all add: fs_ents_def vol_wf_def)
  have mem: "(i, name) \<in> set es" using i(1) fs'(2) by (simp add: ent_lookup_iff)
  have find: "find_in_root (B 21) name = retS (Some i)"
    unfolding find_in_root_def i(1) [symmetric] using name by (intro find_loop_dir [OF fs'(1,4)]) (simp add: valid_seg_def)
  have "i \<noteq> 0" "i \<noteq> 2" using f(1) i(2) fs'(3) by (auto simp: inode_no_def dest: reg_not_dir)
  note fr = free_inode_blocks_ok [OF f(4) fs'(5) assms(3) f(3) size_law(2), where 's = "'a fstate"]
  obtain cnt' bb' fi' where r: "free_inode_blocks cnt (B 3) (inode_of B i) = (retS (cnt', bb', fi') :: 'a fstate wsm)"
    "length fi' = 128" "length bb' = CHASEROS_BLK" "cnt_ok cnt'"
    "\<forall>c. used_bit bb' c \<longleftrightarrow> used_bit (B 3) c \<and> c \<notin> set (fblocks (inode_of B i))"
    using fr by (elim exE conjE) (rule that)
  have "runs ok blocks B (claim_inode io v (inode_of B 2) (B 21) name cnt (B 3) (B 4))
    (Ok (i, cnt', bb', B 4, fi')) (B(3 := bb'))"
    unfolding claim_inode_def using \<open>i \<noteq> 0\<close> r(3) size_law
    by (simp add: find) (intro runs_bind [OF runs_orElse(1) [OF run_read_inode [OF f(1)]]],
      simp add: r(1), intro runs_bind [OF run_write_else] runs_ret, simp_all)
  moreover have "claimed B es name (i, cnt', bb', B 4, fi') (B(3 := bb')) es e"
    using r(2-) fs' mem i f(1) \<open>i \<noteq> 2\<close>
    by (auto simp: claimed_def entry_added_def old_blocks_def list_all_iff)
  ultimately show ?thesis
    by (intro exI [of _ "(i, cnt', bb', B 4, fi')"] exI [of _ "B(3 := bb')"]) simp
qed

lemma claim_new:
  assumes fs: "fs_ents nblk B es e" and name: "valid_seg name" and "cnt_ok cnt"
    and i: "ent_lookup es name = None" "inode_choice (B 4) = Some i" and room: "e + unat (rec_len name) \<le> CHASEROS_BLK"
  shows "\<exists>st B1. runs ok blocks B (claim_inode io v (inode_of B 2) (B 21) name cnt (B 3) (B 4)) (Ok st) B1 \<and>
    claimed B es name st B1 (es @ [(i, name)]) (e + unat (rec_len name))"
proof -
  have fs': "dir_at (B 21) 0 es e" "i_block (inode_of B 2) 0 = 21" "length (B 21) = CHASEROS_BLK"
    "length (B 3) = CHASEROS_BLK" "length (B 4) = CHASEROS_BLK"
    "list_all (\<lambda>(i, nm). inode_no i \<and> used_bit (B 4) (i - 1)) es"
    using fs size_law by (simp_all add: fs_ents_def vol_wf_def)
  have nm: "no_nul name" "length name < 256" using name by (simp_all add: valid_seg_def)
  have find: "find_in_root (B 21) name = retS None"
    unfolding find_in_root_def i(1) [symmetric] by (rule find_loop_dir [OF fs'(1,3) nm(1)])
  note ch = inode_choice_Some [OF i(2)]
  have ino: "inode_no i" "i \<noteq> 0" "i \<noteq> 2" using ch by (auto simp: inode_no_def)
  have "bm_in (B 4) (i - 1)" using unat_minus_one [OF ino(2)] ch(2) fs'(5) by (simp add: bm_in_def CHASEROS_BLK_def)
  note mark = used_bm_mark [OF this]
  let ?d = "ent_put e i name (B 21)" and ?ib = "bm_mark (B 4) (i - 1)"
  have "e + 8 + length name \<le> CHASEROS_BLK" using rec_len_bounds(1) [of name] room nm(2) by linarith
  then have d: "dir_at ?d 0 (es @ [(i, name)]) (e + unat (rec_len name))" "length ?d = CHASEROS_BLK"
    using dir_at_ent_put [OF fs'(1,3) nm(2,1) room] fs'(3) by simp_all
  have new: "i \<notin> fst ` set es" using ch(3) fs'(6) by (auto simp: list_all_iff)
  have "runs ok blocks B (claim_inode io v (inode_of B 2) (B 21) name cnt (B 3) (B 4))
    (Ok (i, add_free_inodes (-1) cnt, B 3, ?ib, replicate 128 0)) (B(21 := ?d))"
    unfolding claim_inode_def new_inode_def find bindS_retS option.case alloc_inode_eq [OF fs'(5)] i(2) prod.case
      dir_append_dir [OF fs'(1,3) nm(2)] fs'(2) if_P [OF room]
    using ino(2) size_law d(2) by (intro runs_guard runs_bind [OF run_write_else] runs_ret) simp_all
  moreover have "claimed B es name (i, add_free_inodes (-1) cnt, B 3, ?ib, replicate 128 0) (B(21 := ?d))
      (es @ [(i, name)]) (e + unat (rec_len name))"
    using assms(3) fs' d ino new i(1) ent_lookup_None [of es name]
    by (simp add: claimed_def cnt_ok_add entry_added_def old_blocks_def mark)
  ultimately show ?thesis by blast
qed

text \<open>When a name can be written: it is a file, or it is new and there is room for it.\<close>

lemma claim_ok:
  assumes fs: "fs_ents nblk B es e" and name: "valid_seg name" and cnt: "cnt_ok cnt"
    and can: "case ent_lookup es name of Some i \<Rightarrow> is_reg (inode_of B i)
      | None \<Rightarrow> inode_choice (B 4) \<noteq> None \<and> e + unat (rec_len name) \<le> CHASEROS_BLK"
  shows "\<exists>st B1 es' e'. runs ok blocks B (claim_inode io v (inode_of B 2) (B 21) name cnt (B 3) (B 4)) (Ok st) B1 \<and>
    claimed B es name st B1 es' e'"
proof (cases "ent_lookup es name")
  case None
  then obtain i where "inode_choice (B 4) = Some i" using can by auto
  then show ?thesis using claim_new [OF fs name cnt None] can None by fastforce
next
  case (Some i)
  then show ?thesis using claim_old [OF fs name cnt Some] can by fastforce
qed

lemma claimed_free:
  assumes fs: "fs_ents nblk B es e"
    and can: "case ent_lookup es name of Some i \<Rightarrow> is_reg (inode_of B i)
      | None \<Rightarrow> inode_choice (B 4) \<noteq> None \<and> e + unat (rec_len name) \<le> CHASEROS_BLK"
    and cl: "claimed B es name (i, cnt, bb, ib, fi) B1 es' e'"
  shows "{b. free_block nblk bb b} = {b. free_block nblk (B 3) b} \<union> old_blocks B es name"
proof -
  have "23 \<le> unat b \<and> unat b < nblk" if "b \<in> old_blocks B es name" for b
    using that can fs file_fields(3) [OF fs]
    by (cases "ent_lookup es name") (auto simp: old_blocks_def file_ok_def list_all_iff)
  then show ?thesis using cl by (auto simp: free_block_def claimed_def)
qed

lemma run_write_file:
  assumes fs: "fs_ents nblk B es e" and name: "valid_seg name" "length name < 127" and len: "length data \<le> 12288"
    and can: "case ent_lookup es name of Some i \<Rightarrow> is_reg (inode_of B i)
      | None \<Rightarrow> inode_choice (B 4) \<noteq> None \<and> e + unat (rec_len name) \<le> CHASEROS_BLK"
    and free: "nblocks (length data) \<le> card ({b. free_block nblk (B 3) b} \<union> old_blocks B es name)"
  shows "\<exists>B' es' e'. runs ok blocks B (chaseros_ext2_write_file io v (slash # name) data) (Ok ()) B' \<and>
    fs_ents nblk B' es' e' \<and> fs_contents B' es' = (fs_contents B es)(name \<mapsto> data)"
proof -
  let ?cnt = "(B 1, get_at 0 32 (B 2))"
  note meta = run_load_meta [OF fs]
  obtain i cnt bb ib fi B1 es' e' where
    r1: "runs ok blocks B (claim_inode io v (inode_of B 2) (B 21) name ?cnt (B 3) (B 4)) (Ok (i, cnt, bb, ib, fi)) B1"
    and cl: "claimed B es name (i, cnt, bb, ib, fi) B1 es' e'"
    using claim_ok [OF fs name(1) meta(2) can] by (metis prod_cases5)
  have c: "cnt_ok cnt" "length bb = CHASEROS_BLK" "length ib = CHASEROS_BLK" "length fi = 128" "inode_no i"
    using cl by (simp_all add: claimed_def)
  have "nblocks (length data) \<le> card {b. free_block nblk bb b}" using free claimed_free [OF fs can cl] by simp
  moreover have k: "0 + nblocks (length data) \<le> 12" using nblocks_bounds(2) [OF len] by simp
  ultimately obtain cnt' bb' fi' B2 bns where
    r2: "runs ok blocks B1 (write_blocks io v (of_nat nblk) data 0 (nblocks (length data))
      (cnt, bb, file_inode (length data) fi)) (Ok (cnt', bb', fi')) B2"
    and w: "wrote nblk data 0 (nblocks (length data)) bb (file_inode (length data) fi) B1 (cnt', bb', fi') B2 bns"
    using run_write_blocks [OF c(2) file_inode_fields(1) [OF c(4)] c(1)] by (metis prod_cases3)
  have o: "cnt_ok cnt'" "length bb' = CHASEROS_BLK" "length fi' = 128" using w by (simp_all add: wrote_def)
  let ?B = "set_inode i fi' (metas cnt' bb' ib B2)"
  have r3: "runs ok blocks (metas cnt' bb' ib B2) (orElse (write_inode io v i fi') (-1)) (Ok ()) ?B"
    using written_map(8) [OF fs cl w] by (intro runs_orElse(1) run_write_inode [OF c(5) o(3)])
  have "runs ok blocks B (chaseros_ext2_write_file io v (slash # name) data) (Ok ()) ?B"
    unfolding chaseros_ext2_write_file_def normS_name [OF name(1)] splitS_name [OF name] bindS_retS prod.case
      total_law nblocks_def [symmetric]
  proof (rule runs_guard)
    show "\<not> 12 * CHASEROS_BLK < length data" using len by (simp add: CHASEROS_BLK_def)
  qed (rule runs_bind [OF meta(1)], simp only: prod.case, rule runs_bind [OF run_open_root [OF fs]], simp only: prod.case,
    rule runs_bind [OF r1], simp only: prod.case, rule runs_bind [OF r2], simp only: prod.case,
    rule runs_bind [OF run_store_meta [OF o(1,2) c(3)] r3])
  then show ?thesis using fs_written [OF fs cl w len] by blast
qed

text \<open>Formatting.\<close>

lemma run_write_zero_blocks:
  "\<forall>b\<in>set bs. unat b < nblk \<Longrightarrow>
   runs ok blocks B (write_zero_blocks io v bs) (Ok ()) (\<lambda>b. if b \<in> set bs then replicate CHASEROS_BLK 0 else B b)"
proof (induction bs arbitrary: B)
  case (Cons b bs)
  let ?B = "B(b := replicate CHASEROS_BLK 0)"
  have "runs ok blocks ?B (write_zero_blocks io v bs) (Ok ()) (\<lambda>c. if c \<in> set bs then replicate CHASEROS_BLK 0 else ?B c)"
    using Cons by simp
  moreover have "(\<lambda>c. if c \<in> set bs then replicate CHASEROS_BLK 0 else ?B c) =
      (\<lambda>c. if c \<in> set (b # bs) then replicate CHASEROS_BLK 0 else B c)"
    by (rule ext) simp
  ultimately show ?case using Cons.prems by (auto intro: runs_bind [OF run_write_else])
qed (simp add: runs_ret)

lemma run_format:
  assumes "ok s"
  shows "\<exists>s'. chaseros_ext2_format io v s = (Ok (), s') \<and> ok s' \<and>
    fs_ents nblk (blocks s') [(2, ''.''), (2, ''..''), (11, ''lost+found'')] 44 \<and>
    fs_contents (blocks s') [(2, ''.''), (2, ''..''), (11, ''lost+found'')] = Map.empty \<and>
    (\<forall>b. free_block nblk (blocks s' 3) b \<longleftrightarrow> 23 \<le> unat b \<and> unat b < nblk) \<and> inode_choice (blocks s' 4) \<noteq> None"
proof -
  let ?s = "zero_ram (the v) s" and ?tb = "of_nat nblk :: u32" and ?z = "replicate CHASEROS_BLK 0 :: u8 list"
  let ?sb = "format_super ?tb" and ?B = "blocks (zero_ram (the v) s)"
  have s: "ok ?s" by (rule zero_law [OF assms])
  have len: "length (?B b) = CHASEROS_BLK" if "unat b < nblk" for b using length_blocks [OF s that] .
  have small: "unat (of_nat nblk :: u32) = nblk" using size_law by (intro unat_of_nat_32) simp
  then have tb: "\<not> (?tb < 256 \<or> ?tb > 8192 \<or> ?tb < FIRST_DATA_BLOCK + 2)"
    using size_law by (simp add: word_less_nat_alt FIRST_DATA_BLOCK_def)
  have put: "put_at 0 ?sb ?z = ?sb" by (simp add: put_at_def format_images)
  have sizes: "length (put_at 0 (format_gd ?sb) ?z) = CHASEROS_BLK"
    by (simp add: put_at_def format_images CHASEROS_BLK_def)
  have no: "inode_no 2" "inode_no 11" by (simp_all add: inode_no_def)
  have tbl: "\<forall>b\<in>set table_blocks. unat b < nblk" using size_law by (auto simp: table_blocks_iff)
  have w2: "runs ok blocks (fresh_meta ?tb ?B) (orElse (write_inode io v 2 (dir_inode 3 21)) (-1)) (Ok ())
      (set_inode 2 (dir_inode 3 21) (fresh_meta ?tb ?B))"
    by (intro runs_orElse(1) run_write_inode no dir_inode_fields) (simp add: fresh_meta_table no)
  have w11: "runs ok blocks (set_inode 2 (dir_inode 3 21) (fresh_meta ?tb ?B))
      (orElse (write_inode io v 11 (dir_inode 2 22)) (-1)) (Ok ())
      (set_inode 11 (dir_inode 2 22) (set_inode 2 (dir_inode 3 21) (fresh_meta ?tb ?B)))"
    using length_set_inode [OF no(1) dir_inode_fields(1), of "fresh_meta ?tb ?B"]
    by (intro runs_orElse(1) run_write_inode no dir_inode_fields) (simp add: fresh_meta_table no)
  have zeros: "runs ok blocks (?B(1 := ?sb, 2 := put_at 0 (format_gd ?sb) ?z, 3 := bm_marks ?z 23, 4 := bm_marks ?z 11))
      (write_zero_blocks io v table_blocks) (Ok ()) (fresh_meta ?tb ?B)"
    unfolding fresh_meta_def Let_def by (rule run_write_zero_blocks [OF tbl])
  have "runs ok blocks ?B (format_writes io v ?tb) (Ok ()) (formatted ?tb ?B)"
    unfolding format_writes_def Let_def write_super_def write_gd_def put formatted_def using size_law sizes
    by (intro runs_bind [OF run_write_else] runs_bind [OF zeros] runs_bind [OF w2] runs_bind [OF w11] run_write_else)
      (simp_all add: format_images root_dir_ok)
  note r = runs_D [OF this s refl]
  have "chaseros_ext2_format io v s = format_writes io v ?tb ?s"
    using tb by (intro format_eq check_law total_law)
  then show ?thesis using r formatted_ok [OF size_law len] by auto
qed

text \<open>A file that does not fit: the loop takes every free block, then gives up.\<close>

lemma run_write_blocks_full:
  assumes "length bb = CHASEROS_BLK" and "card {b. free_block nblk bb b} < rest"
  shows "\<exists>B'. runs ok blocks B (write_blocks io v (of_nat nblk) data bi rest (cnt, bb, fi)) (Err (-1)) B' \<and>
    (\<forall>b. \<not> free_block nblk bb b \<longrightarrow> B' b = B b)"
  using assms
proof (induction rest arbitrary: bi cnt bb fi B)
  case (Suc rest)
  have n: "23 \<le> nblk" "nblk \<le> 8192" using size_law by simp_all
  show ?case
  proof (cases "block_choice nblk bb")
    case None
    then have "write_blocks io v (of_nat nblk) data bi (Suc rest) (cnt, bb, fi) = failS (-1)"
      by (simp add: alloc_block_eq [OF Suc.prems(1) n] errIf_def)
    then show ?thesis using runs_fail by (intro exI [of _ B]) simp
  next
    case (Some bn)
    note free = block_choice_Some(1) [OF Some n]
    have bn: "bn \<noteq> 0" "unat bn < nblk" using free by (auto simp: free_block_def)
    have bmb: "bm_in bb bn" using bn n Suc.prems(1) by (simp add: bm_in_def CHASEROS_BLK_def)
    let ?bb = "bm_mark bb bn" and ?B = "B(bn := blk_data data bi)"
    have eq: "{b. free_block nblk ?bb b} = {b. free_block nblk bb b} - {bn}"
      using used_bm_mark [OF bmb] by (auto simp: free_block_def)
    moreover have "0 < card {b. free_block nblk bb b}" using free by (auto simp: card_gt_0_iff)
    ultimately have less: "card {b. free_block nblk ?bb b} < rest" using Suc.prems(2) free by simp
    have len: "length ?bb = CHASEROS_BLK" using Suc.prems(1) by simp
    obtain B' where ih: "runs ok blocks ?B (write_blocks io v (of_nat nblk) data (Suc bi) rest
        (add_free_blocks (-1) cnt, ?bb, set_i_block bi bn fi)) (Err (-1)) B'"
      "\<forall>b. \<not> free_block nblk ?bb b \<longrightarrow> B' b = ?B b"
      using Suc.IH [OF len less] by blast
    have "runs ok blocks B (write_blocks io v (of_nat nblk) data bi (Suc rest) (cnt, bb, fi)) (Err (-1)) B'"
      unfolding write_blocks.simps alloc_block_eq [OF Suc.prems(1) n] Some option.case bindS_retS prod.case Let_def
      using bn by (intro runs_guard runs_bind [OF run_write_else] ih(1) [unfolded blk_data_def Let_def])
        (simp_all add: length_blk_data [unfolded blk_data_def Let_def])
    moreover have "B' b = B b" if "\<not> free_block nblk bb b" for b
      using ih(2) eq that free by (metis (mono_tags) DiffD1 fun_upd_other mem_Collect_eq)
    ultimately show ?thesis by blast
  qed
qed simp

lemma run_write_overflow:
  assumes fs: "fs_ents nblk B es e" and name: "valid_seg name" "length name < 127" and len: "length data \<le> 12288"
    and i: "ent_lookup es name = Some i" "is_reg (inode_of B i)"
    and full: "card ({b. free_block nblk (B 3) b} \<union> old_blocks B es name) < nblocks (length data)"
  shows "\<exists>B'. runs ok blocks B (chaseros_ext2_write_file io v (slash # name) data) (Err (-1)) B' \<and>
    inode_of B' i = inode_of B i \<and> (\<forall>b\<in>set (fblocks (inode_of B i)). \<not> used_bit (B' 3) b)"
proof -
  let ?cnt = "(B 1, get_at 0 32 (B 2))"
  note meta = run_load_meta [OF fs]
  have can: "case ent_lookup es name of Some i \<Rightarrow> is_reg (inode_of B i)
      | None \<Rightarrow> inode_choice (B 4) \<noteq> None \<and> e + unat (rec_len name) \<le> CHASEROS_BLK" using i by simp
  obtain j cnt bb ib fi B1 where
    r1: "runs ok blocks B (claim_inode io v (inode_of B 2) (B 21) name ?cnt (B 3) (B 4)) (Ok (j, cnt, bb, ib, fi)) B1"
    and cl: "claimed B es name (j, cnt, bb, ib, fi) B1 es e" and b3: "B1 3 = bb"
    using claim_old [OF fs name(1) meta(2) i] by (metis prod_cases5 fst_conv snd_conv)
  have c: "length bb = CHASEROS_BLK" "\<And>b. b \<noteq> 3 \<Longrightarrow> b \<noteq> 21 \<Longrightarrow> B1 b = B b"
    "\<And>b. used_bit bb b \<longleftrightarrow> used_bit (B 3) b \<and> b \<notin> old_blocks B es name"
    using cl by (simp_all add: claimed_def)
  have "card {b. free_block nblk bb b} < nblocks (length data)" using full claimed_free [OF fs can cl] by simp
  then obtain B' where
    r2: "runs ok blocks B1 (write_blocks io v (of_nat nblk) data 0 (nblocks (length data))
      (cnt, bb, file_inode (length data) fi)) (Err (-1)) B'" and B': "\<forall>b. \<not> free_block nblk bb b \<longrightarrow> B' b = B1 b"
    using run_write_blocks_full [OF c(1)] by blast
  have "runs ok blocks B (chaseros_ext2_write_file io v (slash # name) data) (Err (-1)) B'"
    unfolding chaseros_ext2_write_file_def normS_name [OF name(1)] splitS_name [OF name] bindS_retS prod.case
      total_law nblocks_def [symmetric]
  proof (rule runs_guard)
    show "\<not> 12 * CHASEROS_BLK < length data" using len by (simp add: CHASEROS_BLK_def)
  qed (rule runs_bind [OF meta(1)], simp only: prod.case, rule runs_bind [OF run_open_root [OF fs]], simp only: prod.case,
    rule runs_bind [OF r1], simp only: prod.case, rule runs_bind_err [OF r2])
  moreover have low: "B' b = B1 b" if "unat b < 23" for b using B' that by (simp add: free_block_def)
  have "B' b = B b" if "5 \<le> unat b" "unat b \<le> 20" for b
  proof -
    have "b \<noteq> 3" "b \<noteq> 21" using that by auto
    then show ?thesis using low [of b] c(2) that by simp
  qed
  then have "inode_of B' i = inode_of B i" by (intro inode_of_cong file_fields(1) [OF fs i])
  moreover have "\<forall>b\<in>set (fblocks (inode_of B i)). \<not> used_bit (B' 3) b"
    using low [of 3] b3 c(3) i(1) by (simp add: old_blocks_def)
  ultimately show ?thesis by blast
qed

end

end
