(* ===== verification/Ext2_Props.thy ===== *)
theory Ext2_Props
  imports Ext2_Refine
begin

text \<open>
  The properties of the file system, on the volumes the kernel mounts: a memory region, or a disk
  behind the ATA ports. The volume decides which of the two its blocks are, as in the source.
\<close>

typedef fsvol = "{v. vol_ok v \<and> (vtype v = CHASEROS_VOL_RAM \<or> vtype v = CHASEROS_VOL_IDE)}"
  by (rule exI [of _ demo_ram]) (simp add: vol_ok_def demo_ram_def)

definition vol_view :: "chaseros_vol \<Rightarrow> ata fstate \<Rightarrow> blockmap" where
  "vol_view v s b = (if unat b < vol_nblk v
     then if vtype v = CHASEROS_VOL_IDE then ide_blocks v s b else ram_blocks v s b else [])"

definition vol_ready :: "nat \<Rightarrow> chaseros_vol \<Rightarrow> ata fstate \<Rightarrow> bool" where
  "vol_ready lat v s \<longleftrightarrow> (if vtype v = CHASEROS_VOL_IDE then ide_ok lat v s else ram_ok v)"

lemma vol_ready_fsvol:
  assumes "vol_ready lat v s"
  obtains x where "v = Rep_fsvol x"
proof
  have "v \<in> {v. vol_ok v \<and> (vtype v = CHASEROS_VOL_RAM \<or> vtype v = CHASEROS_VOL_IDE)}"
    using assms by (auto simp: vol_ready_def ram_ok_def ide_ok_def split: if_splits)
  then show "v = Rep_fsvol (Abs_fsvol v)" by (simp add: Abs_fsvol_inverse)
qed

interpretation ext2: fs_volume "ata_io lat" "Some (Rep_fsvol x)" "vol_ready lat (Rep_fsvol x)"
  "vol_view (Rep_fsvol x)" "vol_nblk (Rep_fsvol x)" for lat x
proof -
  let ?v = "Rep_fsvol x"
  have v: "vol_ok ?v" "vtype ?v = CHASEROS_VOL_RAM \<or> vtype ?v = CHASEROS_VOL_IDE" using Rep_fsvol [of x] by auto
  show "fs_volume (ata_io lat) (Some ?v) (vol_ready lat ?v) (vol_view ?v) (vol_nblk ?v)"
  proof (unfold_locales, goal_cases)
    case (1 s b)
    then show ?case using ide.length_blocks [of lat ?v s b] ram.length_blocks [of ?v b s]
      by (auto simp: vol_ready_def vol_view_def split: if_splits)
  next
    case (2 s b)
    then show ?case using ide.read_law [of lat ?v s b] ram.read_law [of ?v b "ata_io lat" s]
      by (auto simp: vol_ready_def vol_view_def split: if_splits)
  next
    case (3 s b x)
    then show ?case using ide.write_law [of lat ?v s b x] ram.write_law [of ?v b x "ata_io lat" s]
      by (auto simp: vol_ready_def vol_view_def split: if_splits)
  next
    case (4 s b x)
    then show ?case using ide.refuse_law [of lat ?v s b x] ram.refuse_law [of ?v b "ata_io lat" s x]
      by (auto simp: vol_ready_def split: if_splits)
  next
    case (5 b s)
    then show ?case by (simp add: vol_view_def)
  next
    case (6 s)
    then show ?case using v(2) by (auto simp: vol_ready_def zero_ram_def)
  next
    case 7
    have "unat (size_bytes ?v div 1024) = unat (size_bytes ?v) div 1024" by (simp add: unat_div)
    then have "of_nat (unat (size_bytes ?v) div 1024) = (ucast (size_bytes ?v div 1024) :: u32)"
      by (metis of_nat_unat)
    then show ?case by (simp add: total_blocks_from_vol_def vol_nblk_def CHASEROS_BLK_def)
  next
    case 8
    then show ?case using vol_ok_nblk(2) [OF v(1)] .
  next
    case 9
    then show ?case using vol_ok_nblk(3) [OF v(1)] .
  next
    case (10 s)
    then show ?case using v by (intro vol_check_ok) auto
  qed
qed


definition fs_room :: "nat \<Rightarrow> blockmap \<Rightarrow> (u32 \<times> string) list \<Rightarrow> nat \<Rightarrow> string \<Rightarrow> nat \<Rightarrow> bool" where
  "fs_room n B es e name len \<longleftrightarrow>
     (case ent_lookup es name of
        Some i \<Rightarrow> is_reg (inode_of B i)
      | None \<Rightarrow> inode_choice (B 4) \<noteq> None \<and> e + unat (rec_len name) \<le> CHASEROS_BLK) \<and>
     nblocks len \<le> card ({b. free_block n (B 3) b} \<union> old_blocks B es name)"

text \<open>A formatted disk, with one file, and with no free block.\<close>

definition demo_fs1 :: "ata fstate" where
  "demo_fs1 = snd (chaseros_ext2_format (ata_io 3) (Some demo_ide) (blank_fstate demo_ide blank_ata))"

definition demo_fs2 :: "ata fstate" where
  "demo_fs2 = snd (chaseros_ext2_write_file (ata_io 3) (Some demo_ide) (slash # ''a'') [1, 2, 3] demo_fs1)"

definition demo_fs3 :: "ata fstate" where
  "demo_fs3 = snd (vol_write_blk (ata_io 3) (Some demo_ide) 3 (replicate CHASEROS_BLK 255) demo_fs2)"

lemma demo_fsvol: "Rep_fsvol (Abs_fsvol demo_ide) = demo_ide"
  using demo_vols(4) by (intro Abs_fsvol_inverse) (simp add: ide_ok_def)

lemma demo_ready: "vol_ready 3 demo_ide (blank_fstate demo_ide blank_ata)"
  using demo_vols(4) by (simp add: vol_ready_def ide_ok_def)

lemma demo_fs1:
  "vol_ready 3 demo_ide demo_fs1" "fs_ents 256 (vol_view demo_ide demo_fs1) [(2, ''.''), (2, ''..''), (11, ''lost+found'')] 44"
  "fs_contents (vol_view demo_ide demo_fs1) [(2, ''.''), (2, ''..''), (11, ''lost+found'')] = Map.empty"
  "fs_room 256 (vol_view demo_ide demo_fs1) [(2, ''.''), (2, ''..''), (11, ''lost+found'')] 44 ''a'' (length [1, 2, 3 :: u8])"
proof -
  obtain s' where s': "chaseros_ext2_format (ata_io 3) (Some demo_ide) (blank_fstate demo_ide blank_ata) = (Ok (), s')"
    and f: "vol_ready 3 demo_ide s'" "fs_ents 256 (vol_view demo_ide s') [(2, ''.''), (2, ''..''), (11, ''lost+found'')] 44"
      "fs_contents (vol_view demo_ide s') [(2, ''.''), (2, ''..''), (11, ''lost+found'')] = Map.empty"
      "\<forall>b. free_block 256 (vol_view demo_ide s' 3) b \<longleftrightarrow> 23 \<le> unat b \<and> unat b < 256"
      "inode_choice (vol_view demo_ide s' 4) \<noteq> None"
    using ext2.run_format [of 3 "Abs_fsvol demo_ide", unfolded demo_fsvol, OF demo_ready, unfolded demo_vols] by blast
  have d: "demo_fs1 = s'" by (simp add: demo_fs1_def s')
  show "vol_ready 3 demo_ide demo_fs1" "fs_ents 256 (vol_view demo_ide demo_fs1) [(2, ''.''), (2, ''..''), (11, ''lost+found'')] 44"
    "fs_contents (vol_view demo_ide demo_fs1) [(2, ''.''), (2, ''..''), (11, ''lost+found'')] = Map.empty"
    unfolding d by (fact f)+
  have "{b. free_block 256 (vol_view demo_ide demo_fs1 3) b} = {b. 23 \<le> unat b \<and> unat b < 256}"
    "inode_choice (vol_view demo_ide demo_fs1 4) \<noteq> None" unfolding d using f(4,5) by simp_all
  moreover have "{23} \<subseteq> {b :: u32. 23 \<le> unat b \<and> unat b < 256}" by simp
  from card_mono [OF finite this] have "1 \<le> card {b :: u32. 23 \<le> unat b \<and> unat b < 256}" by simp
  ultimately show "fs_room 256 (vol_view demo_ide demo_fs1) [(2, ''.''), (2, ''..''), (11, ''lost+found'')] 44 ''a'' (length [1, 2, 3 :: u8])"
    by (simp add: fs_room_def ent_lookup_def unat_rec_len CHASEROS_BLK_def nblocks_def old_blocks_def)
qed

lemma demo_name: "valid_seg ''a''"
  by (simp add: valid_seg_def no_nul_def slash_def)

lemma demo_fs2:
  "\<exists>es e. vol_ready 3 demo_ide demo_fs2 \<and> fs_ents 256 (vol_view demo_ide demo_fs2) es e \<and>
    fs_contents (vol_view demo_ide demo_fs2) es = [''a'' \<mapsto> [1, 2, 3]]"
proof -
  note room = demo_fs1(4) [unfolded fs_room_def]
  obtain B' es' e' where
    r: "runs (vol_ready 3 demo_ide) (vol_view demo_ide) (vol_view demo_ide demo_fs1)
      (chaseros_ext2_write_file (ata_io 3) (Some demo_ide) (slash # ''a'') [1, 2, 3]) (Ok ()) B'"
    and "fs_ents 256 B' es' e'" "fs_contents B' es' = [''a'' \<mapsto> [1, 2, 3]]"
    using ext2.run_write_file [of "Abs_fsvol demo_ide", unfolded demo_fsvol demo_vols, OF demo_fs1(2) demo_name _ _
        conjunct1 [OF room] conjunct2 [OF room], of 3, unfolded demo_fs1(3)] by fastforce
  moreover from runs_D [OF r demo_fs1(1) refl] obtain s' where
    "chaseros_ext2_write_file (ata_io 3) (Some demo_ide) (slash # ''a'') [1, 2, 3] demo_fs1 = (Ok (), s')"
    "vol_ready 3 demo_ide s'" "vol_view demo_ide s' = B'" by blast
  ultimately show ?thesis unfolding demo_fs2_def by auto
qed

lemma fs_ents_all_used:
  assumes fs: "fs_ents n B es e" and "length x = CHASEROS_BLK" and x: "\<And>b. unat b < n \<Longrightarrow> used_bit x b"
  shows "fs_ents n (B(3 := x)) es e" "fs_contents (B(3 := x)) es = fs_contents B es"
proof -
  have same: "inode_of (B(3 := x)) m = inode_of B m" if "inode_no m" for m
    using that by (intro inode_of_cong) auto
  have no: "\<forall>(m, k)\<in>set es. inode_no m" using fs by (auto simp: fs_ents_def list_all_iff)
  then have r: "regs (B(3 := x)) es = regs B es"
    unfolding regs_def by (intro filter_cong refl) (auto simp: same)
  have "inode_of (B(3 := x)) m = inode_of B m" if "m \<in> set (regs B es)" for m
    using regs_no [OF no that] by (rule same)
  moreover have "file_ok n x (inode_of B m)" if "m \<in> set (regs B es)" for m
    using fs that x unfolding fs_ents_def files_ok_def file_ok_def list_all_iff by auto
  ultimately have "files_ok n (B(3 := x)) (regs B es)"
    using fs unfolding fs_ents_def files_ok_def list_all_iff by simp
  moreover have "vol_wf n (B(3 := x))" using fs same [of 2] assms(2) by (simp add: fs_ents_def vol_wf_def inode_no_def)
  ultimately show "fs_ents n (B(3 := x)) es e" using fs unfolding fs_ents_def r by simp
  have "file_of (B(3 := x)) (inode_of B m) = file_of B (inode_of B m)" if "m \<in> set (regs B es)" for m
  proof (rule file_of_cong)
    fix b
    assume "b \<in> set (fblocks (inode_of B m))"
    then have "23 \<le> unat b" using fs that unfolding fs_ents_def files_ok_def file_ok_def list_all_iff by blast
    then show "(B(3 := x)) b = B b" by auto
  qed
  moreover have "m \<in> set (regs B es)" "inode_no m" if "ent_lookup es k = Some m" "is_reg (inode_of B m)" for k m
    using that fs no by (force simp: fs_ents_def ent_lookup_iff regs_def)+
  moreover have "inode_no m" if "ent_lookup es k = Some m" for k m
    using that fs no by (auto simp: fs_ents_def ent_lookup_iff)
  ultimately show "fs_contents (B(3 := x)) es = fs_contents B es"
    by (intro ext) (auto simp: fs_contents_def same split: option.split)
qed

lemma demo_fs3:
  "\<exists>es e. vol_ready 3 demo_ide demo_fs3 \<and> fs_ents 256 (vol_view demo_ide demo_fs3) es e \<and>
    fs_contents (vol_view demo_ide demo_fs3) es = [''a'' \<mapsto> [1, 2, 3]] \<and>
    {b. free_block 256 (vol_view demo_ide demo_fs3 3) b} = {}"
proof -
  let ?x = "replicate CHASEROS_BLK 255 :: u8 list"
  have u: "used_bit ?x b" if "unat b < 256" for b
  proof -
    have m: "(255 :: u8) = mask 8" by (simp add: mask_eq_exp_minus_1)
    have "bit (255 :: u8) k" if "k < 8" for k unfolding m using that by (simp add: bit_mask_iff)
    then show ?thesis using that by (simp add: used_bit_def CHASEROS_BLK_def unat_div8 less_mult_imp_div_less)
  qed
  obtain es e where d: "vol_ready 3 demo_ide demo_fs2" "fs_ents 256 (vol_view demo_ide demo_fs2) es e"
    "fs_contents (vol_view demo_ide demo_fs2) es = [''a'' \<mapsto> [1, 2, 3]]" using demo_fs2 by blast
  have "runs (vol_ready 3 demo_ide) (vol_view demo_ide) (vol_view demo_ide demo_fs2)
      (vol_write_blk (ata_io 3) (Some demo_ide) 3 ?x) (Ok ()) ((vol_view demo_ide demo_fs2)(3 := ?x))"
    by (rule ext2.run_write [of _ "Abs_fsvol demo_ide", unfolded demo_fsvol demo_vols]) simp_all
  from runs_D [OF this d(1) refl] have "vol_ready 3 demo_ide demo_fs3"
    and v: "vol_view demo_ide demo_fs3 = (vol_view demo_ide demo_fs2)(3 := ?x)" by (auto simp: demo_fs3_def)
  moreover have "{b. free_block 256 (vol_view demo_ide demo_fs3 3) b} = {}" using u by (simp add: v free_block_def)
  ultimately show ?thesis using fs_ents_all_used [OF d(2) _ u] d(3) by auto
qed

text \<open>
  C15: formatting always succeeds on a memory or disk volume, and leaves the invariant with the
  entries \<open>.\<close>, \<open>..\<close> and \<open>lost+found\<close> in the root directory, no file, and every
  block from 23 on free, whatever the volume held before.
\<close>

theorem format_gives_empty:
  assumes "vol_ready lat v s"
  shows "\<exists>s'. chaseros_ext2_format (ata_io lat) (Some v) s = (Ok (), s') \<and> vol_ready lat v s' \<and>
    fs_ents (vol_nblk v) (vol_view v s') [(2, ''.''), (2, ''..''), (11, ''lost+found'')] 44 \<and>
    fs_contents (vol_view v s') [(2, ''.''), (2, ''..''), (11, ''lost+found'')] = Map.empty \<and>
    (\<forall>b. free_block (vol_nblk v) (vol_view v s' 3) b \<longleftrightarrow> 23 \<le> unat b \<and> unat b < vol_nblk v) \<and>
    inode_choice (vol_view v s' 4) \<noteq> None"
proof -
  obtain x where x: "v = Rep_fsvol x" using assms by (rule vol_ready_fsvol)
  show ?thesis using assms unfolding x by (rule ext2.run_format)
qed

theorem format_gives_empty_witness:
  "\<exists>s'. chaseros_ext2_format (ata_io 3) (Some demo_ide) (blank_fstate demo_ide blank_ata) = (Ok (), s') \<and>
    fs_contents (vol_view demo_ide s') [(2, ''.''), (2, ''..''), (11, ''lost+found'')] = Map.empty"
  using format_gives_empty [OF demo_ready] by blast

text \<open>
  C2: writing a file below the root refines an update of the map from names to contents. On any
  volume in the invariant, if the name is new and there is an inode and room in the directory for
  it, or it is a file already, and the free blocks together with those of the old file suffice,
  then the write succeeds, the invariant holds again, the name maps to exactly the data, and the
  contents of every other file are unchanged.
\<close>

theorem write_file_refines:
  assumes "vol_ready lat v s" and "fs_ents (vol_nblk v) (vol_view v s) es e"
    and "valid_seg name" and "length name < 127" and "length data \<le> 12288"
    and "fs_room (vol_nblk v) (vol_view v s) es e name (length data)"
  shows "\<exists>s' es' e'. chaseros_ext2_write_file (ata_io lat) (Some v) (slash # name) data s = (Ok (), s') \<and>
    vol_ready lat v s' \<and> fs_ents (vol_nblk v) (vol_view v s') es' e' \<and>
    fs_contents (vol_view v s') es' = (fs_contents (vol_view v s) es)(name \<mapsto> data)"
proof -
  obtain x where x: "v = Rep_fsvol x" using assms(1) by (rule vol_ready_fsvol)
  obtain B' es' e' where
    r: "runs (vol_ready lat v) (vol_view v) (vol_view v s) (chaseros_ext2_write_file (ata_io lat) (Some v) (slash # name) data) (Ok ()) B'"
    and "fs_ents (vol_nblk v) B' es' e'" "fs_contents B' es' = (fs_contents (vol_view v s) es)(name \<mapsto> data)"
    using ext2.run_write_file assms(2-) unfolding x fs_room_def by blast
  then show ?thesis using runs_D [OF r assms(1) refl] by blast
qed

theorem write_file_refines_witness:
  "\<exists>s' es' e'. chaseros_ext2_write_file (ata_io 3) (Some demo_ide) (slash # ''a'') [1, 2, 3] demo_fs1 = (Ok (), s') \<and>
    fs_ents 256 (vol_view demo_ide s') es' e' \<and> fs_contents (vol_view demo_ide s') es' = [''a'' \<mapsto> [1, 2, 3]]"
  using write_file_refines [OF demo_fs1(1), unfolded demo_vols, OF demo_fs1(2) demo_name _ _ demo_fs1(4), unfolded demo_fs1(3)]
  by auto

text \<open>
  C3: reading is exactly a slice of the contents. For every offset and buffer size the bytes
  returned are those of the file from the offset on, cut at the buffer size and at the end of the
  file; the size is the length of the contents; a name that is no file gives -1. Reading changes
  no block.
\<close>

theorem read_file_slice:
  assumes "vol_ready lat v s" and "fs_ents (vol_nblk v) (vol_view v s) es e" and "valid_seg name" and "buf_sz \<noteq> 0"
  shows "(\<exists>s'. chaseros_ext2_read_file_range (ata_io lat) (Some v) (slash # name) offset buf_sz s =
      (case fs_contents (vol_view v s) es name of
         None \<Rightarrow> Err (-1) | Some D \<Rightarrow> Ok (take (unat buf_sz) (drop (unat offset) D)), s') \<and> vol_view v s' = vol_view v s) \<and>
    (\<exists>s'. chaseros_ext2_stat_file (ata_io lat) (Some v) (slash # name) s =
      (case fs_contents (vol_view v s) es name of
         None \<Rightarrow> Err (-1) | Some D \<Rightarrow> Ok (of_nat (length D)), s') \<and> vol_view v s' = vol_view v s)"
proof -
  obtain x where x: "v = Rep_fsvol x" using assms(1) by (rule vol_ready_fsvol)
  show ?thesis
    using runs_D [OF ext2.run_read_file [OF assms(2) [unfolded x] assms(3,4)] assms(1) [unfolded x] refl]
      runs_D [OF ext2.run_stat_file [OF assms(2) [unfolded x] assms(3)] assms(1) [unfolded x] refl]
    unfolding x by blast
qed

theorem read_file_slice_witness:
  "fst (chaseros_ext2_read_file_range (ata_io 3) (Some demo_ide) (slash # ''a'') 1 100 demo_fs2) = Ok [2, 3] \<and>
   fst (chaseros_ext2_stat_file (ata_io 3) (Some demo_ide) (slash # ''a'') demo_fs2) = Ok 3"
proof -
  obtain es e where d: "vol_ready 3 demo_ide demo_fs2" "fs_ents 256 (vol_view demo_ide demo_fs2) es e"
    "fs_contents (vol_view demo_ide demo_fs2) es = [''a'' \<mapsto> [1, 2, 3]]" using demo_fs2 by blast
  show ?thesis
    using read_file_slice [OF d(1), unfolded demo_vols, OF d(2) demo_name, of 100 1] d(3) by auto
qed

text \<open>
  C39: an overwrite that does not fit loses the old file. If the data needs more blocks than are
  free together with those of the old file, the call returns -1, yet the block bitmap on the
  volume no longer has the blocks of the old file, although its inode still refers to them: the
  next write hands them out again.
\<close>

theorem overwrite_frees_live_blocks:
  assumes "vol_ready lat v s" and "fs_ents (vol_nblk v) (vol_view v s) es e"
    and "valid_seg name" and "length name < 127" and "length data \<le> 12288"
    and "ent_lookup es name = Some i" and "is_reg (inode_of (vol_view v s) i)"
    and "card ({b. free_block (vol_nblk v) (vol_view v s 3) b} \<union> old_blocks (vol_view v s) es name) < nblocks (length data)"
  shows "\<exists>s'. chaseros_ext2_write_file (ata_io lat) (Some v) (slash # name) data s = (Err (-1), s') \<and>
    inode_of (vol_view v s') i = inode_of (vol_view v s) i \<and>
    list_all (\<lambda>b. \<not> used_bit (vol_view v s' 3) b) (fblocks (inode_of (vol_view v s) i))"
proof -
  obtain x where x: "v = Rep_fsvol x" using assms(1) by (rule vol_ready_fsvol)
  obtain B' where
    r: "runs (vol_ready lat v) (vol_view v) (vol_view v s) (chaseros_ext2_write_file (ata_io lat) (Some v) (slash # name) data) (Err (-1)) B'"
    and "inode_of B' i = inode_of (vol_view v s) i" "\<forall>b\<in>set (fblocks (inode_of (vol_view v s) i)). \<not> used_bit (B' 3) b"
    using ext2.run_write_overflow assms(2-) unfolding x by blast
  then show ?thesis using runs_D [OF r assms(1) refl] unfolding list_all_iff by blast
qed

theorem overwrite_frees_live_blocks_witness:
  "\<exists>i s'. chaseros_ext2_write_file (ata_io 3) (Some demo_ide) (slash # ''a'') (replicate 2048 7) demo_fs3 = (Err (-1), s') \<and>
    is_reg (inode_of (vol_view demo_ide s') i) \<and> fblocks (inode_of (vol_view demo_ide s') i) \<noteq> [] \<and>
    list_all (\<lambda>b. \<not> used_bit (vol_view demo_ide s' 3) b) (fblocks (inode_of (vol_view demo_ide s') i))"
proof -
  obtain es e where d: "vol_ready 3 demo_ide demo_fs3" "fs_ents 256 (vol_view demo_ide demo_fs3) es e"
    and c: "fs_contents (vol_view demo_ide demo_fs3) es = [''a'' \<mapsto> [1, 2, 3]]"
    and none: "{b. free_block 256 (vol_view demo_ide demo_fs3 3) b} = {}" using demo_fs3 by blast
  let ?B = "vol_view demo_ide demo_fs3"
  have "fs_contents ?B es ''a'' = Some [1, 2, 3]" using c by simp
  then obtain i where i: "ent_lookup es ''a'' = Some i" "is_reg (inode_of ?B i)" "file_of ?B (inode_of ?B i) = [1, 2, 3]"
    by (auto simp: fs_contents_def split: option.splits if_splits)
  note f = ext2.file_fields [of "Abs_fsvol demo_ide", unfolded demo_fsvol demo_vols, OF d(2) i(1,2)]
  have "unat (i_size (inode_of ?B i)) = 3" using length_file_of [of "inode_of ?B i" ?B] f(5) i(3) by simp
  then have l: "length (fblocks (inode_of ?B i)) = 1" by (simp add: fblocks_def nblocks_def CHASEROS_BLK_def)
  then have "card (old_blocks ?B es ''a'') \<le> 1" using card_length [of "fblocks (inode_of ?B i)"] by (simp add: old_blocks_def i(1))
  then have "card ({b. free_block 256 (?B 3) b} \<union> old_blocks ?B es ''a'') < nblocks (length (replicate 2048 (7 :: u8)))"
    unfolding none by (simp add: nblocks_def CHASEROS_BLK_def)
  from overwrite_frees_live_blocks [OF d(1), unfolded demo_vols, OF d(2) demo_name _ _ i(1,2) this]
  obtain s' where s': "chaseros_ext2_write_file (ata_io 3) (Some demo_ide) (slash # ''a'') (replicate 2048 7) demo_fs3 = (Err (-1), s')"
    "inode_of (vol_view demo_ide s') i = inode_of ?B i"
    "list_all (\<lambda>b. \<not> used_bit (vol_view demo_ide s' 3) b) (fblocks (inode_of ?B i))" by auto
  moreover have "fblocks (inode_of ?B i) \<noteq> []" using l by auto
  ultimately show ?thesis using i(2) by (intro exI [of _ i] exI [of _ s']) simp
qed

text \<open>
  C40: the block allocator never reads outside its bitmap on a volume of 23 to 8192 blocks. It
  returns the lowest free data block, marks this block and no other, and returns 0, leaving the
  bitmap alone, exactly when no data block is free.
\<close>

theorem alloc_block_lowest_free:
  assumes "length bb = CHASEROS_BLK" and "23 \<le> n" and "n \<le> 8192"
  shows "case alloc_block bb (of_nat n) s of
      (Ok (b, bb'), s') \<Rightarrow> s' = s \<and>
        (if b = 0 then bb' = bb \<and> (\<forall>c. \<not> free_block n bb c)
         else free_block n bb b \<and> (\<forall>c. free_block n bb c \<longrightarrow> unat b \<le> unat c) \<and>
           length bb' = length bb \<and> (\<forall>c. used_bit bb' c \<longleftrightarrow> c = b \<or> used_bit bb c))
    | _ \<Rightarrow> False"
proof (cases "block_choice n bb")
  case None
  then show ?thesis
    using block_choice_None [OF assms(2,3), of bb] by (simp add: alloc_block_eq [OF assms] retS_def)
next
  case (Some b)
  note c = block_choice_Some [OF Some assms(2,3)]
  have "bm_in bb b" "b \<noteq> 0" using c(1) assms by (auto simp: bm_in_def free_block_def CHASEROS_BLK_def)
  then show ?thesis
    using c Some used_bm_mark [of bb b] by (simp add: alloc_block_eq [OF assms] retS_def)
qed

theorem alloc_block_lowest_free_witness:
  "\<exists>bb'. alloc_block (replicate CHASEROS_BLK 0) (of_nat 256) () = (Ok (23, bb'), ()) \<and> used_bit bb' 23"
proof -
  let ?z = "replicate CHASEROS_BLK 0 :: u8 list"
  have free: "free_block 256 ?z 23" using used_zero [of 23] by (simp add: free_block_def)
  obtain r s' where e: "alloc_block ?z (of_nat 256) () = (r, s')" by (cases "alloc_block ?z (of_nat 256) ()")
  note t = alloc_block_lowest_free [of ?z 256 "()", unfolded e, simplified]
  then obtain b bb' where b: "r = Ok (b, bb')" by (cases r) auto
  have r: "free_block 256 ?z b" "unat b \<le> unat (23 :: u32)" "used_bit bb' b"
    using t free unfolding b by (auto split: if_splits)
  then have "unat b = unat (23 :: u32)" by (simp add: free_block_def)
  then have "b = 23" by (simp only: word_unat_eq_iff)
  then show ?thesis using e b r(3) by auto
qed

end
