(* ===== verification/Spec2Isabelle.thy ===== *)
theory Spec2Isabelle
  imports Isr Ext2_Props
begin

text \<open>
  ChaserOS, an x86-64 hybrid kernel (\<open>src/kernel\<close>): a model of the kernel's own C code and
  the theorems that make its components correct.

  \<^bold>\<open>Parts and how they interact.\<close> The boot loader hands over an information structure
  (\<open>Multiboot\<close>), from which the page allocator takes the memory map (\<open>Pmm\<close>). Page tables
  (\<open>Vmm\<close>) decide what user code may touch. The process table and the scheduler (\<open>Proc\<close>) use both;
  messages between processes (\<open>Ipc\<close>) change the states of the table. Files go through the
  descriptors of the user process (\<open>UserFd\<close>), directly or by a message to the file service, to the
  virtual file system (\<open>Vfs\<close>), to an ext2 volume (\<open>Ext2\<close>), to blocks (\<open>Volume\<close>) in memory or behind
  the ATA ports (\<open>Ide\<close>). Programs are packages (\<open>Cnaf\<close>) that the loader (\<open>Loader\<close>) places in
  memory. Interrupts and system calls (\<open>Isr\<close>) drive all of it.

  \<^bold>\<open>Conventions.\<close> Machine integers are words of their width. Physical memory is a function
  from 64-bit addresses to bytes (the kernel runs identity mapped), pointers are addresses and
  \<open>NULL\<close> is 0. File-static C variables are fields of a record: \<open>pmm\<close>, \<open>machine\<close> (memory and \<open>cr3\<close>),
  \<open>kcore\<close> (both of them with the process table), \<open>fstate\<close> (the core with the volume, the device
  and the text printed) and \<open>kst\<close> (all of the kernel). Fallible code is in the outcome monad of \<open>CLib\<close>:
  \<open>Ok\<close>, \<open>Err\<close> with the negative C result, and \<open>Oob\<close> for an access outside a C array. A system call
  that may not return is in the monad \<open>pm\<close> of \<open>UserFd\<close>, where \<open>None\<close> means that it does not. Port
  instructions act on a device through a parameter \<open>io\<close>; \<open>ata_io\<close> is a reference disk.

  \<^bold>\<open>Theories.\<close>
  \<^item> \<open>CLib\<close>: the prelude. Byte encodings, memory reads and writes, the outcome monad, and the
    collections \<open>sm_simps\<close>, \<open>mem_simps\<close> and \<open>keeps_intros\<close>.
  \<^item> \<open>Multiboot\<close> (\<open>multiboot.c\<close>): the walks over the boot loader's tags find the first tag of their
    kind; a tag of size 0 makes them run forever.
  \<^item> \<open>Pmm\<close> (\<open>pmm.c\<close>): the bitmap allocator. The locale \<open>page_allocator\<close> is its contract; no page is
    shared, initialisation frees exactly the usable pages, contiguous allocation is first fit.
  \<^item> \<open>Vmm\<close> (\<open>vmm.c\<close>, \<open>vmm_cow.c\<close>): page tables. The range checks are exact on leaf entries, a
    grant opens its region, and the checks ignore the upper levels.
  \<^item> \<open>Klog\<close> (\<open>main.c\<close>): the number printers print the value inside their buffer.
  \<^item> \<open>Proc\<close> (\<open>process.c\<close>, \<open>sched.c\<close>): the table invariant under every sequence of operations,
    round-robin choice, no starvation, exit and reaping.
  \<^item> \<open>Ipc\<close> (\<open>ipc.c\<close>): request and reply round trip, the list of senders as a stack (locale
    \<open>sender_list\<close>), the waits that never end and the message that is lost.
  \<^item> \<open>Paths\<close> (\<open>fs/chaseros/chaseros_ext2_vol.c\<close>): normalisation against a textbook resolution, and
    the split into parent and name.
  \<^item> \<open>Ide\<close> (\<open>drivers/ide.c\<close>): the ATA and ATAPI driver; sectors written are read back, a disk that
    stays busy gives an error.
  \<^item> \<open>Volume\<close> (same file as \<open>Paths\<close>): volumes as arrays of blocks, the locale \<open>block_volume\<close>,
    interpreted for memory and for the disk.
  \<^item> \<open>Ext2\<close> (same file): every operation of the file system. \<open>Ext2_Dir\<close> shows what bitmaps and
    directory blocks mean, \<open>Ext2_Inode\<close> the inode table, the invariant \<open>fs_ents\<close> of a volume and its
    contents \<open>fs_contents\<close>, a map from the names of the root directory to byte strings.
    \<open>Ext2_Refine\<close> runs formatting, writing and reading on any volume that keeps the laws of the locale
    \<open>fs_volume\<close>, and \<open>Ext2_Props\<close> interprets it on memory and disk volumes: formatting gives the empty
    map, writing is an update of the map, reading a slice of it. An overwrite that does not fit
    leaves live blocks marked free.
  \<^item> \<open>Vfs\<close> (\<open>fs/vfs.c\<close>, \<open>fs/vfs_devfs.c\<close>, \<open>fs/chaseros/chaseros_ext2.c\<close>): mounting and dispatch.
  \<^item> \<open>UserFd\<close> (\<open>user_fd.c\<close>, \<open>hybrid_ipc.c\<close>): reads stay in the user's buffer, the life of a
    descriptor, the effect of unmounting, and the file service against the direct call.
  \<^item> \<open>Cnaf\<close> (\<open>fs/cnaf/*.c\<close>, \<open>elf_load.c\<close>): sections lie in their package, manifests are read back,
    streaming equals flat loading, and a segment may be placed anywhere.
  \<^item> \<open>Loader\<close> (\<open>loader/cndyn_loader.c\<close>, \<open>user.c\<close>): loading of packages, libraries, launch.
  \<^item> \<open>Isr\<close> (\<open>isr.c\<close>, \<open>interrupts.asm\<close>, \<open>loader/user_exec.c\<close>): the system calls; every interrupt
    that returns keeps the shape of the tables, vector 128 is not recognised, \<open>waitpid\<close> waits forever.

  \<^bold>\<open>Loops and bounds.\<close> Loops with a counter are functions with a termination proof. Loops whose
  end depends on data (the walks over tags and over the memory map, the framebuffer reservation, the
  range checks, the list of senders, the waits for a state change) are partial functions into
  \<open>option\<close>; where the code returns this is proved, and where it does not, that is proved. The polling
  bound of the disk driver is the 100000 of the source. Waiting for an interrupt in \<open>ipc.c\<close> consumes a
  list of interrupts, which is the environment. There is no other fuel. File contents are bounded by
  the twelve direct blocks of the source (12288 bytes), volumes by one block group (256 to 8192 blocks).

  \<^bold>\<open>Not modelled.\<close>
  \<^item> Boot assembly (\<open>boot.asm\<close>, \<open>entry.asm\<close>, \<open>gdt_load.asm\<close>) and the descriptor tables (\<open>gdt.c\<close>,
    \<open>idt.c\<close>): they set processor state that no modelled code reads back.
  \<^item> Output and input devices (\<open>console.c\<close>, \<open>drivers/vga.c\<close>, \<open>graphics.c\<close>, \<open>font.c\<close>, \<open>ttfont.c\<close>,
    \<open>gui.c\<close>, \<open>sheet.c\<close>, \<open>mouse.c\<close>, \<open>serial.c\<close>): text printed is kept as a string, pixels are not.
  \<^item> \<open>shell.c\<close>, \<open>sysinfo.c\<close>, \<open>power.c\<close>: commands that print and call modelled parts, or firmware
    access. The keyboard handler that enters the shell is a parameter of \<open>Isr\<close>.
  \<^item> \<open>drivers/pci.c\<close>, which lists devices for the shell, and \<open>drivers/ahci_pci.c\<close> with \<open>ahci_rust\<close>, a
    build option that is off by default.
  \<^item> The e2fsprogs sources under \<open>fs/lib\<close> and their glue (\<open>chaseros_io.c\<close>, \<open>chaseros_alloc.c\<close>): no
    linked code calls them.
  \<^item> Context switches: the scheduler of the source records which task is current and switches no
    stack, and the model does the same.
  \<^item> The contents theorem of \<open>Ext2_Props\<close> is about files of the root directory; directory creation
    and files below directories are modelled as operations without such a theorem.
\<close>

end
